(* ===== verification/Prelude.thy ===== *)
theory Prelude
  imports Main "HOL-Library.Word"
begin

text \<open>
  Shared vocabulary of the development: machine-integer and byte-string types, the failures
  the C++ code can raise, sequencing of fallible steps, and generic facts on lists and words
  that the component theories use.

  Failures.  The C++ sources fail in seven ways: \<^verbatim>\<open>assert\<close> (mosh is built without NDEBUG, so
  it aborts), \<^verbatim>\<open>fatal_assert\<close> (src/mosh/src/util/fatal_assert.h, aborts), \<^verbatim>\<open>dos_assert\<close>
  (src/mosh/src/util/dos_assert.h, throws a non-fatal CryptoException), exceptions of the
  classes CryptoException and NetworkException, a call of \<^verbatim>\<open>exit\<close>, the uncaught
  \<^verbatim>\<open>std::out_of_range\<close> of a checked container access, and undefined behaviour that nothing checks
  (reading an erased list node, an index past the end of a buffer).  Each is a constructor of
  \<open>failure\<close>; a fallible operation returns \<open>failure + 'a\<close> and \<open>Inl\<close> is the failure.
\<close>

unbundle bit_operations_syntax

section \<open>Types\<close>

type_synonym byte = "8 word"
type_synonym bytes = "8 word list"
type_synonym u16 = "16 word"
type_synonym u32 = "32 word"
type_synonym u64 = "64 word"

datatype failure =
    AssertFailed
  | FatalAssert
  | CryptoException string bool
  | NetworkException string int
  | ProcessExit int
  | OutOfRange
  | UndefinedBehaviour

type_synonym 'a result = "failure + 'a"

named_theorems wire_simps \<open>round trips of the wire encodings\<close>
named_theorems result_simps \<open>evaluation and inversion of fallible steps\<close>

section \<open>Sequencing of fallible steps\<close>

definition bindE :: "'a result \<Rightarrow> ('a \<Rightarrow> 'b result) \<Rightarrow> 'b result" where
  "bindE m f = (case m of Inl e \<Rightarrow> Inl e | Inr a \<Rightarrow> f a)"

definition assertE :: "bool \<Rightarrow> failure \<Rightarrow> unit result" where
  "assertE b e = (if b then Inr () else Inl e)"

lemma bindE_Inl [simp]: "bindE (Inl e) f = Inl e"
  by (simp add: bindE_def)

lemma bindE_Inr [simp]: "bindE (Inr a) f = f a"
  by (simp add: bindE_def)

lemma bindE_eq_Inr [result_simps]:
  "bindE m f = Inr b \<longleftrightarrow> (\<exists>a. m = Inr a \<and> f a = Inr b)"
  by (cases m) auto

lemma bindE_eq_Inl [result_simps]:
  "bindE m f = Inl e \<longleftrightarrow> m = Inl e \<or> (\<exists>a. m = Inr a \<and> f a = Inl e)"
  by (cases m) auto

lemma bindE_assoc: "bindE (bindE m f) g = bindE m (\<lambda>a. bindE (f a) g)"
  by (cases m) auto

lemma assertE_True [simp]: "assertE True e = Inr ()"
  by (simp add: assertE_def)

lemma assertE_False [simp]: "assertE False e = Inl e"
  by (simp add: assertE_def)

lemma assertE_eq_Inr [result_simps]: "assertE b e = Inr u \<longleftrightarrow> b"
  by (simp add: assertE_def)

lemma assertE_eq_Inl [result_simps]: "assertE b e = Inl e' \<longleftrightarrow> \<not> b \<and> e = e'"
  by (simp add: assertE_def)

text \<open>A loop over a list whose body may fail.\<close>

fun foldE :: "('a \<Rightarrow> 's \<Rightarrow> 's result) \<Rightarrow> 'a list \<Rightarrow> 's \<Rightarrow> 's result" where
  "foldE f [] s = Inr s"
| "foldE f (x # xs) s = bindE (f x s) (foldE f xs)"

lemma foldE_append: "foldE f (xs @ ys) s = bindE (foldE f xs s) (foldE f ys)"
proof (induction xs arbitrary: s)
  case (Cons x xs)
  show ?case by (cases "f x s") (simp_all add: Cons)
qed simp

text \<open>A step that does not fail and whose result satisfies \<open>P\<close>, with one rule per way of composing steps.\<close>

named_theorems runs_intros \<open>composition of steps that do not fail\<close>

definition runs :: "('a \<Rightarrow> bool) \<Rightarrow> 'a result \<Rightarrow> bool" where
  "runs P m \<longleftrightarrow> (\<exists>a. m = Inr a \<and> P a)"

lemma runs_Inr [simp]: "runs P (Inr a) \<longleftrightarrow> P a"
  by (simp add: runs_def)

lemma runs_bindE [runs_intros]: "runs Q m \<Longrightarrow> (\<And>a. Q a \<Longrightarrow> runs P (f a)) \<Longrightarrow> runs P (bindE m f)"
  by (auto simp: runs_def)

lemma runs_mono: "runs P m \<Longrightarrow> (\<And>a. P a \<Longrightarrow> Q a) \<Longrightarrow> runs Q m"
  by (auto simp: runs_def)

lemma runs_assertE [simp]: "runs P (assertE b e) \<longleftrightarrow> b \<and> P ()"
  by (simp add: assertE_def runs_def)

lemma runs_foldE:
  assumes "P s" "\<And>x s. x \<in> set xs \<Longrightarrow> P s \<Longrightarrow> runs P (f x s)"
  shows "runs P (foldE f xs s)"
  using assms
proof (induction xs arbitrary: s)
  case (Cons x xs)
  have "runs P (bindE (f x s) (foldE f xs))"
    by (rule runs_bindE [of P]) (use Cons in auto)
  then show ?case by simp
qed simp

section \<open>Lists\<close>

lemma length_eq_8E:
  assumes "length xs = 8"
  obtains a b c d e f g h where "xs = [a, b, c, d, e, f, g, h]"
  using assms by (auto simp: numeral_eq_Suc length_Suc_conv)

lemma append_eq_drop: "xs = ys @ zs \<Longrightarrow> drop (length ys) xs = zs"
  by simp

lemma map_of_nth_sixteen:
  assumes "length xs = 16"
  shows "xs = [xs ! 0, xs ! 1, xs ! 2, xs ! 3, xs ! 4, xs ! 5, xs ! 6, xs ! 7,
               xs ! 8, xs ! 9, xs ! 10, xs ! 11, xs ! 12, xs ! 13, xs ! 14, xs ! 15]"
  using assms by (auto simp: numeral_eq_Suc length_Suc_conv)

section \<open>Words\<close>

text \<open>A bit of a byte lies below position 8; the range facts the bitwise proofs need.\<close>

lemma bit_byte_less: "bit (b :: byte) n \<Longrightarrow> n < 8"
  using bit_imp_le_length [of b n] by simp

lemma bit_u16_less: "bit (b :: u16) n \<Longrightarrow> n < 16"
  using bit_imp_le_length [of b n] by simp

lemma bit_u64_less: "bit (b :: u64) n \<Longrightarrow> n < 64"
  using bit_imp_le_length [of b n] by simp

text \<open>Two bytes agree when their eight bits do.\<close>

lemma byte_eqI:
  fixes x y :: byte
  assumes "bit x 0 = bit y 0" "bit x 1 = bit y 1" "bit x 2 = bit y 2" "bit x 3 = bit y 3"
    "bit x 4 = bit y 4" "bit x 5 = bit y 5" "bit x 6 = bit y 6" "bit x 7 = bit y 7"
  shows "x = y"
proof (rule bit_word_eqI)
  fix n assume "n < LENGTH(8)"
  then have "n = 0 \<or> n = 1 \<or> n = 2 \<or> n = 3 \<or> n = 4 \<or> n = 5 \<or> n = 6 \<or> n = 7" by auto
  then show "bit x n = bit y n" using assms by blast
qed

text \<open>Byte lanes: a byte shifted into a wider word is found in its own lane and in no other.\<close>

lemma take_bit_join: "push_bit k (take_bit m (drop_bit k x)) OR take_bit k x = take_bit (k + m) (x :: 'a::len word)"
  by (rule bit_word_eqI) (auto simp: bit_simps)

lemma ucast_ucast_byte: "8 \<le> LENGTH('a::len) \<Longrightarrow> ucast (ucast (x :: 'a word) :: byte) = take_bit 8 x"
  by (rule bit_word_eqI) (auto simp: bit_simps)

lemma lane_same: "i + 8 \<le> LENGTH('a::len) \<Longrightarrow> ucast (drop_bit i (push_bit i (ucast b :: 'a word))) = (b :: byte)"
  by (rule bit_word_eqI) (auto simp: bit_simps)

lemma lane_above: "j + 8 \<le> i \<Longrightarrow> ucast (drop_bit j (push_bit i (ucast (b :: byte) :: 'a::len word))) = (0 :: byte)"
  by (rule bit_word_eqI) (auto simp: bit_simps)

lemma lane_below: "i + 8 \<le> j \<Longrightarrow> ucast (drop_bit j (push_bit i (ucast (b :: byte) :: 'a::len word))) = (0 :: byte)"
  by (rule bit_word_eqI) (use bit_byte_less in \<open>fastforce simp: bit_simps\<close>)

lemma word_or_eq_0_iff: "a OR b = 0 \<longleftrightarrow> a = 0 \<and> b = (0 :: 'a::len word)"
  by (auto simp: bit_eq_iff bit_simps)

lemma word_xor_eq_0_iff: "a XOR b = 0 \<longleftrightarrow> a = (b :: 'a::len word)"
  by (auto simp: bit_eq_iff bit_simps)

end
