(* ===== verification/Base64.thy ===== *)
theory Base64
  imports Prelude
begin

text \<open>
  Base-64 coding of the 128-bit session key (src/mosh/src/crypto/base64.cc) and the
  \<^verbatim>\<open>Base64Key\<close> class that parses and prints it (src/mosh/src/crypto/crypto.cc).  The codec
  handles only 16 raw bytes against 24 characters; both sizes are fatal assertions in the
  code and failures here.  The raw buffer that the decoder has filled is part of its result,
  since the code returns false with the buffer partly written.
\<close>

section \<open>Tables\<close>

definition table :: bytes where
  "table = map of_char ''ABCDEFGHIJKLMNOPQRSTUVWXYZabcdefghijklmnopqrstuvwxyz0123456789+/''"

definition reverse :: bytes where
  "reverse =
    [0xff, 0xff, 0xff, 0xff, 0xff, 0xff, 0xff, 0xff, 0xff, 0xff, 0xff, 0xff, 0xff, 0xff, 0xff, 0xff,
     0xff, 0xff, 0xff, 0xff, 0xff, 0xff, 0xff, 0xff, 0xff, 0xff, 0xff, 0xff, 0xff, 0xff, 0xff, 0xff,
     0xff, 0xff, 0xff, 0xff, 0xff, 0xff, 0xff, 0xff, 0xff, 0xff, 0xff, 0x3e, 0xff, 0xff, 0xff, 0x3f,
     0x34, 0x35, 0x36, 0x37, 0x38, 0x39, 0x3a, 0x3b, 0x3c, 0x3d, 0xff, 0xff, 0xff, 0xff, 0xff, 0xff,
     0xff, 0x00, 0x01, 0x02, 0x03, 0x04, 0x05, 0x06, 0x07, 0x08, 0x09, 0x0a, 0x0b, 0x0c, 0x0d, 0x0e,
     0x0f, 0x10, 0x11, 0x12, 0x13, 0x14, 0x15, 0x16, 0x17, 0x18, 0x19, 0xff, 0xff, 0xff, 0xff, 0xff,
     0xff, 0x1a, 0x1b, 0x1c, 0x1d, 0x1e, 0x1f, 0x20, 0x21, 0x22, 0x23, 0x24, 0x25, 0x26, 0x27, 0x28,
     0x29, 0x2a, 0x2b, 0x2c, 0x2d, 0x2e, 0x2f, 0x30, 0x31, 0x32, 0x33, 0xff, 0xff, 0xff, 0xff, 0xff]
    @ replicate 128 0xff"

definition base64_char_to_sixbit :: "byte \<Rightarrow> byte" where
  "base64_char_to_sixbit c = reverse ! unat c"

section \<open>Codec\<close>

text \<open>The 22-step loop of \<^verbatim>\<open>base64_decode\<close>: step index, remaining input, accumulator, output.\<close>

function decode_loop :: "nat \<Rightarrow> bytes \<Rightarrow> u32 \<Rightarrow> bytes \<Rightarrow> (bool \<times> bytes \<times> u32 \<times> bytes) result" where
  "decode_loop i b64 acc raw =
     (if i < 22 then
        (case b64 of
           [] \<Rightarrow> Inl UndefinedBehaviour
         | c # b64' \<Rightarrow>
             (let sixbit = base64_char_to_sixbit c in
              if sixbit > 0x3f then Inr (False, b64', acc, raw)
              else
                (let acc' = push_bit 6 acc OR ucast sixbit in
                 if i mod 4 = 3
                 then decode_loop (Suc i) b64' 0
                        (raw @ [ucast (drop_bit 16 acc'), ucast (drop_bit 8 acc'), ucast acc'])
                 else decode_loop (Suc i) b64' acc' raw)))
      else Inr (True, b64, acc, raw))"
  by pat_completeness auto
termination
  by (relation "measure (\<lambda>(i, b64, acc, raw). 22 - i)") auto

declare decode_loop.simps [simp del]

definition base64_decode :: "bytes \<Rightarrow> nat \<Rightarrow> (bool \<times> bytes) result" where
  "base64_decode b64 raw_len =
     bindE (assertE (length b64 = 24) FatalAssert) (\<lambda>_.
     bindE (assertE (raw_len = 16) FatalAssert) (\<lambda>_.
     bindE (decode_loop 0 b64 0 []) (\<lambda>(ok, rest, acc, raw).
       if \<not> ok then Inr (False, raw)
       else
         (let raw' = raw @ [ucast (drop_bit 4 acc)] in
          Inr (rest ! 0 = of_char CHR ''='' \<and> rest ! 1 = of_char CHR ''='', raw')))))"

definition sextet :: "u32 \<Rightarrow> byte" where
  "sextet w = table ! unat (w AND 0x3f)"

definition group24 :: "byte \<Rightarrow> byte \<Rightarrow> byte \<Rightarrow> u32" where
  "group24 r0 r1 r2 = (push_bit 16 (ucast r0) OR push_bit 8 (ucast r1)) OR ucast r2"

fun encode_loop :: "nat \<Rightarrow> bytes \<Rightarrow> bytes" where
  "encode_loop (Suc n) (r0 # r1 # r2 # raw) =
     (let w = group24 r0 r1 r2 in
      sextet (drop_bit 18 w) # sextet (drop_bit 12 w) # sextet (drop_bit 6 w) # sextet w
        # encode_loop n raw)"
| "encode_loop _ raw =
     (case raw of
        [] \<Rightarrow> []
      | lastchar # _ \<Rightarrow>
          [sextet (drop_bit 2 (ucast lastchar)), sextet (push_bit 4 (ucast lastchar)),
           of_char CHR ''='', of_char CHR ''=''])"

definition base64_encode :: "bytes \<Rightarrow> nat \<Rightarrow> bytes result" where
  "base64_encode raw b64_len =
     bindE (assertE (b64_len = 24) FatalAssert) (\<lambda>_.
     bindE (assertE (length raw = 16) FatalAssert) (\<lambda>_.
       Inr (encode_loop 5 raw)))"

section \<open>Session keys\<close>

definition printable_key :: "bytes \<Rightarrow> bytes result" where
  "printable_key key =
     bindE (base64_encode key 24) (\<lambda>base64.
       if base64 ! 23 \<noteq> of_char CHR ''='' \<or> base64 ! 22 \<noteq> of_char CHR ''=''
       then Inl (CryptoException ''Unexpected output from base64_encode'' False)
       else Inr (takeWhile (\<lambda>c. c \<noteq> 0) (take 22 base64)))"

definition Base64Key :: "bytes \<Rightarrow> bytes result" where
  "Base64Key printable =
     (if length printable \<noteq> 22 then Inl (CryptoException ''Key must be 22 letters long.'' False)
      else
        bindE (base64_decode (printable @ [of_char CHR ''='', of_char CHR ''='']) 16) (\<lambda>(ok, key).
          if \<not> ok then Inl (CryptoException ''Key must be well-formed base64.'' False)
          else
            bindE (printable_key key) (\<lambda>p.
              if printable \<noteq> p
              then Inl (CryptoException ''Base64 key was not encoded 128-bit key.'' False)
              else Inr key)))"

section \<open>Facts about the codec\<close>

lemma sixbit_table_all: "\<forall>i<64. base64_char_to_sixbit (table ! i) = of_nat i"
  unfolding base64_char_to_sixbit_def table_def reverse_def by code_simp

lemma table_nonzero: "\<forall>i<64. table ! i \<noteq> 0"
  unfolding table_def by code_simp

lemma and_63: "w AND 0x3f = take_bit 6 (w :: u32)"
  by (simp add: take_bit_eq_mask mask_eq_exp_minus_1)

lemma unat_and_63: "unat (w AND 0x3f :: u32) < 64"
proof -
  have "w AND 0x3f \<le> (0x3f :: u32)"
    by (rule word_and_le1)
  then show ?thesis
    by (simp add: word_le_nat_alt)
qed

lemma sextet_nonzero [simp]: "sextet w \<noteq> 0"
  using table_nonzero unat_and_63 by (simp add: sextet_def)

lemma sixbit_sextet [simp]: "base64_char_to_sixbit (sextet w) = ucast (w AND 0x3f)"
proof -
  have "base64_char_to_sixbit (sextet w) = of_nat (unat (w AND 0x3f))"
    using sixbit_table_all unat_and_63 by (simp add: sextet_def)
  then show ?thesis
    by (simp add: and_63 flip: ucast_eq)
qed

lemma ucast_sextet_le: "\<not> (0x3f < (ucast (w AND 0x3f :: u32) :: byte))"
proof -
  have "unat (ucast (w AND 0x3f :: u32) :: byte) \<le> 63"
    using unat_and_63 [of w] by (simp add: unsigned_ucast_eq take_bit_nat_eq_self)
  then show ?thesis
    by (simp add: word_less_nat_alt)
qed

lemma ucast_ucast_sextet: "ucast (ucast (w AND 0x3f :: u32) :: byte) = (w AND 0x3f :: u32)"
  unfolding and_63 by (rule bit_word_eqI) (auto simp: bit_simps)

lemma decode_step:
  "i < 22 \<Longrightarrow> decode_loop i (sextet w # b64) acc raw =
     (let acc' = push_bit 6 acc OR (w AND 0x3f) in
      if i mod 4 = 3
      then decode_loop (Suc i) b64 0
             (raw @ [ucast (drop_bit 16 acc'), ucast (drop_bit 8 acc'), ucast acc'])
      else decode_loop (Suc i) b64 acc' raw)"
  by (subst decode_loop.simps) (simp add: Let_def ucast_sextet_le ucast_ucast_sextet)

text \<open>Reassembling a 24-bit group from its sextets, six bits at a time.\<close>

lemma join_sextet:
  "push_bit 6 (take_bit m (drop_bit (k + 6) w)) OR take_bit 6 (drop_bit k w) = take_bit (m + 6) (drop_bit k w)"
  if "k + 6 + m \<le> LENGTH('a)" for w :: "'a::len word"
  using that by (intro bit_word_eqI) (auto simp: bit_simps)

lemma group24_take: "take_bit 24 (group24 r0 r1 r2) = group24 r0 r1 r2"
proof (rule bit_word_eqI)
  fix n
  show "bit (take_bit 24 (group24 r0 r1 r2)) n = bit (group24 r0 r1 r2) n"
    using bit_byte_less [of r0 "n - 16"] bit_byte_less [of r1 "n - 8"] bit_byte_less [of r2 n]
    by (auto simp: group24_def bit_simps)
qed

lemma group_bits:
  "push_bit 6 (push_bit 6 (push_bit 6 (push_bit 6 0 OR (drop_bit 18 (group24 r0 r1 r2) AND 0x3f))
     OR (drop_bit 12 (group24 r0 r1 r2) AND 0x3f)) OR (drop_bit 6 (group24 r0 r1 r2) AND 0x3f))
     OR (group24 r0 r1 r2 AND 0x3f) = group24 r0 r1 r2"
  using join_sextet [of 12 6 "group24 r0 r1 r2"] join_sextet [of 6 12 "group24 r0 r1 r2"]
    join_sextet [of 0 18 "group24 r0 r1 r2"]
  by (simp add: and_63 group24_take)

lemma group_bytes:
  "(ucast (drop_bit 16 (group24 r0 r1 r2)) :: byte) = r0"
  "(ucast (drop_bit 8 (group24 r0 r1 r2)) :: byte) = r1"
  "(ucast (group24 r0 r1 r2) :: byte) = r2"
  using lane_same [of 16 r0, where 'a = 32] lane_below [of 8 16 r1, where 'a = 32]
    lane_below [of 0 16 r2, where 'a = 32] lane_above [of 8 16 r0, where 'a = 32]
    lane_same [of 8 r1, where 'a = 32] lane_below [of 0 8 r2, where 'a = 32]
    lane_above [of 0 16 r0, where 'a = 32] lane_above [of 0 8 r1, where 'a = 32]
    lane_same [of 0 r2, where 'a = 32]
  by (simp_all add: group24_def unsigned_or_eq)

lemma last_bits:
  "(ucast (drop_bit 4 (push_bit 6 (push_bit 6 0 OR (drop_bit 2 (ucast (r :: byte)) AND 0x3f))
      OR (push_bit 4 (ucast r) AND 0x3f) :: u32)) :: byte) = r"
  unfolding and_63 by (rule byte_eqI) (simp_all add: bit_simps)


lemma decode_group:
  assumes "i mod 4 = 0" "i + 3 < 22"
  shows "decode_loop i (sextet (drop_bit 18 (group24 r0 r1 r2)) # sextet (drop_bit 12 (group24 r0 r1 r2))
           # sextet (drop_bit 6 (group24 r0 r1 r2)) # sextet (group24 r0 r1 r2) # b64) 0 raw
         = decode_loop (i + 4) b64 0 (raw @ [r0, r1, r2])"
proof -
  have m: "Suc i mod 4 = 1" "Suc (Suc i) mod 4 = 2" "Suc (Suc (Suc i)) mod 4 = 3"
    using assms(1) by presburger+
  have e: "Suc (Suc (Suc (Suc i))) = i + 4" by simp
  show ?thesis
    using assms m e by (simp only: decode_step Let_def group_bits group_bytes) simp
qed


lemma decode_encode_loop:
  assumes "length raw = 3 * n + 1" and "i + 4 * n = 20"
  shows "\<exists>acc. decode_loop i (encode_loop n raw) 0 out =
           Inr (True, [of_char CHR ''='', of_char CHR ''=''], acc, out @ butlast raw)
         \<and> ucast (drop_bit 4 acc) = last raw"
  using assms
proof (induction n arbitrary: i raw out)
  case 0
  then obtain r where "raw = [r]" by (auto simp: length_Suc_conv)
  moreover have "decode_loop 22 b acc out = Inr (True, b, acc, out)" for b acc
    by (subst decode_loop.simps) simp
  ultimately show ?case
    using "0" last_bits [of r] by (simp add: decode_step Let_def)
next
  case (Suc n)
  then obtain r0 r1 r2 rest where raw: "raw = r0 # r1 # r2 # rest" and len: "length rest = 3 * n + 1"
    by (auto simp: length_Suc_conv eval_nat_numeral)
  have "i + 4 + 4 * n = 20" and i: "i mod 4 = 0" "i + 3 < 22"
    using Suc.prems(2) by presburger+
  from Suc.IH [OF len this(1), of "out @ [r0, r1, r2]"] len raw show ?case
    by (auto simp: Let_def decode_group [OF i])
qed

lemma length_encode_loop: "length raw = 3 * n + 1 \<Longrightarrow> length (encode_loop n raw) = 4 * n + 4"
proof (induction n arbitrary: raw)
  case 0
  then show ?case by (auto simp: length_Suc_conv)
next
  case (Suc n)
  then obtain r0 r1 r2 rest where "raw = r0 # r1 # r2 # rest" and "length rest = 3 * n + 1"
    by (auto simp: length_Suc_conv eval_nat_numeral)
  with Suc.IH show ?case by (simp add: Let_def)
qed

lemma encode_loop_pad:
  "length raw = 3 * n + 1 \<Longrightarrow>
     \<exists>body. encode_loop n raw = body @ [of_char CHR ''='', of_char CHR ''=''] \<and> (0 \<notin> set body)"
proof (induction n arbitrary: raw)
  case 0
  then show ?case by (auto simp: length_Suc_conv dest: sym [of 0])
next
  case (Suc n)
  then obtain r0 r1 r2 rest where raw: "raw = r0 # r1 # r2 # rest" and len: "length rest = 3 * n + 1"
    by (auto simp: length_Suc_conv eval_nat_numeral)
  from Suc.IH [OF len] obtain body where "encode_loop n rest = body @ [of_char CHR ''='', of_char CHR ''='']"
    and "0 \<notin> set body" by blast
  with raw show ?case
    by (intro exI [of _ "sextet _ # sextet _ # sextet _ # sextet _ # body"])
       (auto simp: Let_def dest: sym [of 0])
qed
lemma length_decode_loop:
  "decode_loop i b64 acc raw = Inr (True, rest, acc', raw') \<Longrightarrow> i \<le> 22 \<Longrightarrow>
     length raw' + 3 * (i div 4) = length raw + 15"
proof (induction i b64 acc raw rule: decode_loop.induct)
  case (1 i b64 acc raw)
  show ?case
  proof (cases "i < 22")
    case False
    with "1.prems" show ?thesis by (subst (asm) decode_loop.simps) simp
  next
    case True
    with "1.prems" obtain c b64' where b64: "b64 = c # b64'" and ok: "\<not> 0x3f < base64_char_to_sixbit c"
      by (subst (asm) decode_loop.simps) (auto simp: Let_def split: list.splits if_splits)
    show ?thesis
    proof (cases "i mod 4 = 3")
      case m: True
      have "Suc i div 4 = i div 4 + 1" using m by presburger
      moreover have "length raw' + 3 * (Suc i div 4) = length (raw @ [undefined, undefined, undefined]) + 15"
        using "1.IH"(1) [OF True b64 refl ok refl m] "1.prems" True b64 ok m
        by (subst (asm) (2) decode_loop.simps) (simp add: Let_def)
      ultimately show ?thesis by simp
    next
      case m: False
      have "Suc i div 4 = i div 4" using m True by presburger
      then show ?thesis
        using "1.IH"(2) [OF True b64 refl ok refl m] "1.prems" True b64 ok m
        by (subst (asm) (2) decode_loop.simps) (simp add: Let_def)
    qed
  qed
qed

lemma sym_sextet [simp]: "0 \<noteq> sextet w"
  using sextet_nonzero [of w] by metis

lemma printable_key_total:
  assumes "length key = 16"
  shows "\<exists>body. printable_key key = Inr body \<and> length body = 22
    \<and> encode_loop 5 key = body @ [of_char CHR ''='', of_char CHR ''='']"
proof -
  obtain body where body: "encode_loop 5 key = body @ [of_char CHR ''='', of_char CHR ''='']"
    and nz: "0 \<notin> set body"
    using encode_loop_pad [of key 5] assms by fastforce
  have "length (encode_loop 5 key) = 24"
    using length_encode_loop [of key 5] assms by simp
  then have len: "length body = 22" using body by simp
  have "takeWhile (\<lambda>c. c \<noteq> 0) body = body"
    using nz unfolding takeWhile_eq_all_conv by blast
  with body len assms have "printable_key key = Inr body"
    by (simp add: printable_key_def base64_encode_def nth_append)
  with body len show ?thesis by blast
qed

text \<open>C28. Session keys round trip: a string is accepted by the \<^verbatim>\<open>Base64Key\<close> constructor, with
  key k, exactly when k has 16 octets and printing k gives that string back.  So every key
  prints to an acceptable string that parses to it, and no two accepted strings name the same
  key, although the decoder alone ignores the four low bits of the last character.
\<close>

theorem Base64Key_iff_printable_key:
  "Base64Key s = Inr k \<longleftrightarrow> length k = 16 \<and> printable_key k = Inr s"
proof
  assume *: "Base64Key s = Inr k"
  then have "printable_key k = Inr s"
    by (auto simp: Base64Key_def result_simps split: if_splits)
  moreover have "length k = 16"
    using * length_decode_loop [of 0 _ 0 "[]"]
    by (fastforce simp: Base64Key_def base64_decode_def result_simps Let_def split: if_splits)
  ultimately show "length k = 16 \<and> printable_key k = Inr s" by simp
next
  assume *: "length k = 16 \<and> printable_key k = Inr s"
  then obtain body where body: "printable_key k = Inr body" "length body = 22"
      "encode_loop 5 k = body @ [of_char CHR ''='', of_char CHR ''='']"
    using printable_key_total by blast
  obtain acc where "decode_loop 0 (encode_loop 5 k) 0 [] =
           Inr (True, [of_char CHR ''='', of_char CHR ''=''], acc, butlast k)"
       "ucast (drop_bit 4 acc) = last k"
    using decode_encode_loop [of k 5 0 "[]"] * by auto
  moreover have "butlast k @ [last k] = k" using * by (intro append_butlast_last_id) auto
  ultimately have "base64_decode (body @ [of_char CHR ''='', of_char CHR ''='']) 16 = Inr (True, k)"
    using body by (simp add: base64_decode_def)
  with * body show "Base64Key s = Inr k"
    by (simp add: Base64Key_def)
qed

end
