(* ===== verification/Byte_Order.thy ===== *)
theory Byte_Order
  imports Prelude
begin

text \<open>
  Network byte order (src/mosh/src/crypto/byteorder.h, the fallback that is correct for any
  endianness) and the byte strings that the wire formats build from it
  (\<^verbatim>\<open>network_order_string\<close> of src/mosh/src/network/transportfragment.cc).  An integer in
  memory is the list of its bytes, lowest address first, so \<open>htobe64 x\<close> is the memory image of
  the value the C function returns.
\<close>

definition htobe64 :: "u64 \<Rightarrow> bytes" where
  "htobe64 x = [ucast (drop_bit 56 x), ucast (drop_bit 48 x), ucast (drop_bit 40 x), ucast (drop_bit 32 x),
                ucast (drop_bit 24 x), ucast (drop_bit 16 x), ucast (drop_bit 8 x), ucast x]"

definition be64toh :: "bytes \<Rightarrow> u64" where
  "be64toh p8 =
     push_bit 56 (ucast (p8 ! 0)) OR push_bit 48 (ucast (p8 ! 1)) OR push_bit 40 (ucast (p8 ! 2))
     OR push_bit 32 (ucast (p8 ! 3)) OR push_bit 24 (ucast (p8 ! 4)) OR push_bit 16 (ucast (p8 ! 5))
     OR push_bit 8 (ucast (p8 ! 6)) OR ucast (p8 ! 7)"

definition htobe16 :: "u16 \<Rightarrow> bytes" where
  "htobe16 x = [ucast (drop_bit 8 x), ucast x]"

definition be16toh :: "bytes \<Rightarrow> u16" where
  "be16toh p8 = push_bit 8 (ucast (p8 ! 0)) OR ucast (p8 ! 1)"

definition network_order_string16 :: "u16 \<Rightarrow> bytes" where
  "network_order_string16 host_order = htobe16 host_order"

definition network_order_string64 :: "u64 \<Rightarrow> bytes" where
  "network_order_string64 host_order = htobe64 host_order"

lemma length_htobe64 [simp]: "length (htobe64 x) = 8"
  by (simp add: htobe64_def)

lemma length_htobe16 [simp]: "length (htobe16 x) = 2"
  by (simp add: htobe16_def)

text \<open>Reassembling a word from its bytes, eight bits at a time.\<close>

lemma join_byte:
  "push_bit k (ucast (ucast (drop_bit k x) :: byte)) OR take_bit k x = take_bit (k + 8) x"
  if "8 \<le> LENGTH('a)" for x :: "'a::len word"
  using that by (simp add: ucast_ucast_byte take_bit_join)

lemma be64toh_htobe64 [wire_simps]: "be64toh (htobe64 x @ rest) = x"
proof -
  have "be64toh (htobe64 x @ rest) =
    push_bit 56 (ucast (ucast (drop_bit 56 x) :: byte)) OR push_bit 48 (ucast (ucast (drop_bit 48 x) :: byte))
    OR push_bit 40 (ucast (ucast (drop_bit 40 x) :: byte)) OR push_bit 32 (ucast (ucast (drop_bit 32 x) :: byte))
    OR push_bit 24 (ucast (ucast (drop_bit 24 x) :: byte)) OR push_bit 16 (ucast (ucast (drop_bit 16 x) :: byte))
    OR push_bit 8 (ucast (ucast (drop_bit 8 x) :: byte)) OR take_bit 8 x"
    by (simp add: be64toh_def htobe64_def ucast_ucast_byte or.assoc)
  also have "\<dots> = take_bit 64 x"
    by (simp add: join_byte)
  also have "\<dots> = x"
    by (rule bit_word_eqI) (simp add: bit_simps)
  finally show ?thesis .
qed

lemma be16toh_htobe16 [wire_simps]: "be16toh (htobe16 x @ rest) = x"
proof -
  have "be16toh (htobe16 x @ rest) = push_bit 8 (ucast (ucast (drop_bit 8 x) :: byte)) OR take_bit 8 x"
    by (simp add: be16toh_def htobe16_def ucast_ucast_byte)
  also have "\<dots> = take_bit 16 x"
    by (simp add: join_byte)
  also have "\<dots> = x"
    by (rule bit_word_eqI) (simp add: bit_simps)
  finally show ?thesis .
qed

lemma htobe64_be64toh [wire_simps]:
  assumes "length bs = 8"
  shows "htobe64 (be64toh bs) = bs"
proof -
  obtain a b c d e f g h where bs: "bs = [a, b, c, d, e, f, g, h]"
    using assms by (rule length_eq_8E)
  have low: "ucast (drop_bit j (ucast y :: u64)) = (if j = 0 then y else 0 :: byte)" if "j = 0 \<or> 8 \<le> j" for j y
    using that lane_below [of 0 j y, where 'a = 64] lane_same [of 0 y, where 'a = 64] by auto
  have lane: "ucast (drop_bit j (push_bit i (ucast y :: u64))) = (if i = j then y else 0 :: byte)"
    if "i = j \<and> i + 8 \<le> 64 \<or> i + 8 \<le> j \<or> j + 8 \<le> i" for i j y
    using that lane_below [of i j y, where 'a = 64] lane_above [of j i y, where 'a = 64]
      lane_same [of i y, where 'a = 64] by auto
  show ?thesis
    using lane [of _ 0]
    by (simp add: htobe64_def be64toh_def bs unsigned_or_eq low low [of 0, simplified] lane)
qed

lemma htobe64_inject: "htobe64 x = htobe64 y \<longleftrightarrow> x = y"
  by (metis be64toh_htobe64)

end
