(* ===== verification/Ocb.thy ===== *)
theory Ocb
  imports Byte_Order
begin

text \<open>
  AES-OCB authenticated encryption (src/mosh/src/crypto/ocb_internal.cc, the branch for a
  little-endian machine without SSE2, AltiVec or 32-bit NEON, with OCB_KEY_LEN = OCB_TAG_LEN =
  16, L_TABLE_SZ = 16, L_TABLE_SZ_IS_ENOUGH and BPI = 4, as the Android build configures it).

  A \<open>block\<close> holds the two 64-bit halves as the machine loads them from memory ("memory
  correct"); \<open>swap_if_le\<close> makes a block "register correct".  AES itself is OpenSSL's: the
  forward and inverse permutations of one key are the parameters \<open>E\<close> and \<open>D\<close>.  The code
  works on four blocks at a time and caches the encrypted nonce; \<open>ref_enc\<close> and \<open>ref_dec\<close>
  are the block-at-a-time mode of operation that it is compared with.
\<close>

section \<open>Blocks\<close>

datatype block = Block (bl: u64) (br: u64)

definition xor_block :: "block \<Rightarrow> block \<Rightarrow> block" where
  "xor_block x y = Block (bl x XOR bl y) (br x XOR br y)"

definition zero_block :: block where
  "zero_block = Block 0 0"

definition unequal_blocks :: "block \<Rightarrow> block \<Rightarrow> bool" where
  "unequal_blocks x y \<longleftrightarrow> ((bl x XOR bl y) OR (br x XOR br y)) \<noteq> 0"

definition bswap64 :: "u64 \<Rightarrow> u64" where
  "bswap64 x = be64toh (rev (htobe64 x))"

definition swap_if_le :: "block \<Rightarrow> block" where
  "swap_if_le b = Block (bswap64 (bl b)) (bswap64 (br b))"

definition double_block :: "block \<Rightarrow> block" where
  "double_block b =
     (let t = signed_drop_bit 63 (bl b) in
      Block ((bl b + bl b) XOR drop_bit 63 (br b)) ((br b + br b) XOR (t AND 135)))"

definition gen_offset :: "u64 \<times> u64 \<times> u64 \<Rightarrow> nat \<Rightarrow> block" where
  "gen_offset KtopStr botm =
     (case KtopStr of (K0, K1, K2) \<Rightarrow>
       swap_if_le
         (if botm \<noteq> 0
          then Block (push_bit botm K0 OR drop_bit (64 - botm) K1) (push_bit botm K1 OR drop_bit (64 - botm) K2)
          else Block K0 K1))"

text \<open>Loading a block from 16 bytes of memory and storing it there.\<close>

definition load_block :: "bytes \<Rightarrow> block" where
  "load_block p = Block (be64toh (rev (take 8 p))) (be64toh (rev (take 8 (drop 8 p))))"

definition store_block :: "block \<Rightarrow> bytes" where
  "store_block b = rev (htobe64 (bl b)) @ rev (htobe64 (br b))"

text \<open>\<^verbatim>\<open>memcpy\<close> into the front of a buffer.\<close>

definition memcpy :: "bytes \<Rightarrow> bytes \<Rightarrow> bytes" where
  "memcpy dst src = src @ drop (length src) dst"

text \<open>The table of the L values has \<^verbatim>\<open>L_TABLE_SZ\<close> = 16 entries and \<^verbatim>\<open>getL\<close> indexes it without a check
  (\<^verbatim>\<open>L_TABLE_SZ_IS_ENOUGH\<close>): the source requires every text to be shorter than 2 ^ 20 bytes, below which the
  index stays in the table (\<open>ntz_in_table\<close> below).  From there on the C code reads past the table and the model says
  nothing (\<open>L ! n\<close> is unspecified), so the properties of the cipher carry that bound.

  Number of trailing zero bits (\<^verbatim>\<open>__builtin_ctz\<close>).\<close>

definition ntz :: "u32 \<Rightarrow> nat" where
  "ntz x = length (takeWhile (\<lambda>n. \<not> bit x n) [0..<32])"

section \<open>Contexts\<close>

record ae_ctx =
  ctx_offset :: block
  ctx_checksum :: block
  Lstar :: block
  Ldollar :: block
  L_table :: "block list"
  ad_checksum :: block
  ad_offset :: block
  cached_Top :: block
  KtopStr :: "u64 \<times> u64 \<times> u64"
  ad_blocks_processed :: u32
  blocks_processed :: u32

text \<open>The loop of \<^verbatim>\<open>ae_init\<close> that fills \<^verbatim>\<open>L[1..15]\<close>: every entry doubles the register-correct
  value before it.\<close>

fun init_L :: "nat \<Rightarrow> block \<Rightarrow> block list" where
  "init_L 0 tmp_blk = []"
| "init_L (Suc n) tmp_blk = (let tmp_blk' = double_block tmp_blk in swap_if_le tmp_blk' # init_L n tmp_blk')"

definition ae_init :: "(block \<Rightarrow> block) \<Rightarrow> ae_ctx \<Rightarrow> nat \<Rightarrow> ae_ctx option" where
  "ae_init E ctx nonce_len =
     (if nonce_len \<noteq> 12 then None
      else
        (let cached = zero_block;
             star = E cached;
             tmp0 = double_block (swap_if_le star);
             dollar = swap_if_le tmp0;
             tmp1 = double_block tmp0
         in Some (ctx\<lparr>cached_Top := cached, ad_checksum := zero_block, ad_blocks_processed := 0,
                      Lstar := star, Ldollar := dollar, L_table := swap_if_le tmp1 # init_L 15 tmp1\<rparr>)))"

definition gen_offset_from_nonce :: "(block \<Rightarrow> block) \<Rightarrow> ae_ctx \<Rightarrow> bytes \<Rightarrow> ae_ctx \<times> block" where
  "gen_offset_from_nonce E ctx nonce =
     (let u8 = [0, 0, 0, 1] @ nonce;
          idx = unat (u8 ! 15 AND 0x3f);
          tmp = u8[15 := u8 ! 15 AND 0xc0];
          ctx' =
            (if unequal_blocks (load_block tmp) (cached_Top ctx) then
               (let K = swap_if_le (E (load_block tmp))
                in ctx\<lparr>cached_Top := load_block tmp,
                       KtopStr := (bl K, br K, (bl K XOR push_bit 8 (bl K)) XOR drop_bit 56 (br K))\<rparr>)
             else ctx)
      in (ctx', gen_offset (KtopStr ctx') idx))"

text \<open>Per-message initialisation at the head of \<^verbatim>\<open>ae_encrypt\<close> and \<^verbatim>\<open>ae_decrypt\<close>.\<close>

definition start_message :: "(block \<Rightarrow> block) \<Rightarrow> ae_ctx \<Rightarrow> bytes option \<Rightarrow> int \<Rightarrow> ae_ctx" where
  "start_message E ctx nonce ad_len =
     (case nonce of
        None \<Rightarrow> ctx
      | Some n \<Rightarrow>
          (case gen_offset_from_nonce E ctx n of (ctx1, off) \<Rightarrow>
             let ctx2 = ctx1\<lparr>ctx_offset := off, ad_offset := zero_block, ctx_checksum := zero_block,
                             ad_blocks_processed := 0, blocks_processed := 0\<rparr>
             in if ad_len \<ge> 0 then ctx2\<lparr>ad_checksum := zero_block\<rparr> else ctx2))"

section \<open>Associated data\<close>

abbreviation nth_block :: "bytes \<Rightarrow> nat \<Rightarrow> block" where
  "nth_block p k \<equiv> load_block (drop (16 * k) p)"

fun ad_loop :: "(block \<Rightarrow> block) \<Rightarrow> block list \<Rightarrow> nat \<Rightarrow> u32 \<Rightarrow> block \<Rightarrow> block \<Rightarrow> bytes
    \<Rightarrow> u32 \<times> block \<times> block \<times> bytes" where
  "ad_loop E L 0 ad_block_num off cs adp = (ad_block_num, off, cs, adp)"
| "ad_loop E L (Suc i) ad_block_num off cs adp =
     (let ad_block_num' = ad_block_num + 4;
          oa0 = xor_block off (L ! 0);
          ta0 = xor_block oa0 (nth_block adp 0);
          oa1 = xor_block oa0 (L ! 1);
          ta1 = xor_block oa1 (nth_block adp 1);
          oa2 = xor_block off (L ! 1);
          ta2 = xor_block oa2 (nth_block adp 2);
          off' = xor_block oa2 (L ! ntz ad_block_num');
          ta3 = xor_block off' (nth_block adp 3);
          cs' = xor_block (xor_block (xor_block (xor_block cs (E ta0)) (E ta1)) (E ta2)) (E ta3)
      in ad_loop E L i ad_block_num' off' cs' (drop 64 adp))"

definition ad_final :: "(block \<Rightarrow> block) \<Rightarrow> ae_ctx \<Rightarrow> block \<Rightarrow> block \<Rightarrow> bytes \<Rightarrow> block" where
  "ad_final E ctx off cs adp =
     (let L = L_table ctx;
          (ta, off1, rem1) =
            (if length adp \<ge> 32
             then (let o0 = xor_block off (L ! 0); o1 = xor_block o0 (L ! ntz 2)
                   in ([xor_block o0 (nth_block adp 0), xor_block o1 (nth_block adp 1)], o1, length adp - 32))
             else ([], off, length adp));
          (ta', off2, rem2) =
            (if rem1 \<ge> 16
             then (let o0 = xor_block off1 (L ! 0)
                   in (ta @ [xor_block o0 (nth_block adp (length ta))], o0, rem1 - 16))
             else (ta, off1, rem1));
          ta'' =
            (if rem2 > 0
             then (let o0 = xor_block off2 (Lstar ctx);
                       tmp = (memcpy (store_block zero_block) (drop (16 * length ta') adp))[rem2 := 0x80]
                   in ta' @ [xor_block o0 (load_block tmp)])
             else ta')
      in foldr (\<lambda>t acc. xor_block acc (E t)) ta'' cs)"

definition process_ad :: "(block \<Rightarrow> block) \<Rightarrow> ae_ctx \<Rightarrow> bytes \<Rightarrow> bool \<Rightarrow> ae_ctx" where
  "process_ad E ctx ad final =
     (case ad_loop E (L_table ctx) (length ad div 64) (ad_blocks_processed ctx) (ad_offset ctx)
             (ad_checksum ctx) ad of
        (n, off, cs, adp) \<Rightarrow>
          let ctx1 = (if length ad div 64 > 0
                      then ctx\<lparr>ad_blocks_processed := n, ad_offset := off, ad_checksum := cs\<rparr> else ctx)
          in if final \<and> length ad mod 64 > 0 then ctx1\<lparr>ad_checksum := ad_final E ctx1 off cs adp\<rparr> else ctx1)"

section \<open>Encryption\<close>

fun enc_loop :: "(block \<Rightarrow> block) \<Rightarrow> block list \<Rightarrow> nat \<Rightarrow> u32 \<Rightarrow> block \<Rightarrow> block \<Rightarrow> bytes \<Rightarrow> bytes
    \<Rightarrow> u32 \<times> block \<times> block \<times> bytes \<times> bytes" where
  "enc_loop E L 0 block_num oa3 cs ptp ct = (block_num, oa3, cs, ptp, ct)"
| "enc_loop E L (Suc i) block_num oa3 cs ptp ct =
     (let block_num' = block_num + 4;
          oa0 = xor_block oa3 (L ! 0);
          ta0 = xor_block oa0 (nth_block ptp 0);
          cs0 = xor_block cs (nth_block ptp 0);
          oa1 = xor_block oa0 (L ! 1);
          ta1 = xor_block oa1 (nth_block ptp 1);
          cs1 = xor_block cs0 (nth_block ptp 1);
          oa2 = xor_block oa1 (L ! 0);
          ta2 = xor_block oa2 (nth_block ptp 2);
          cs2 = xor_block cs1 (nth_block ptp 2);
          oa3' = xor_block oa2 (L ! ntz block_num');
          ta3 = xor_block oa3' (nth_block ptp 3);
          cs3 = xor_block cs2 (nth_block ptp 3);
          ct' = ct @ store_block (xor_block (E ta0) oa0) @ store_block (xor_block (E ta1) oa1)
                   @ store_block (xor_block (E ta2) oa2) @ store_block (xor_block (E ta3) oa3')
      in enc_loop E L i block_num' oa3' cs3 (drop 64 ptp) ct')"

text \<open>The final part: up to two blocks, one more block, a partial block, then the tag.  The lists
  \<open>oa\<close> and \<open>ta\<close> hold the used entries of the arrays of the same name.\<close>

definition enc_final :: "(block \<Rightarrow> block) \<Rightarrow> ae_ctx \<Rightarrow> block \<Rightarrow> block \<Rightarrow> bytes \<Rightarrow> bytes \<times> block" where
  "enc_final E ctx off cs ptp =
     (let L = L_table ctx;
          (oa, ta, off1, cs1, rem1) =
            (if length ptp \<ge> 32
             then (let o0 = xor_block off (L ! 0); o1 = xor_block o0 (L ! 1)
                   in ([o0, o1], [xor_block o0 (nth_block ptp 0), xor_block o1 (nth_block ptp 1)], o1,
                       xor_block (xor_block cs (nth_block ptp 0)) (nth_block ptp 1), length ptp - 32))
             else ([], [], off, cs, length ptp));
          k1 = length oa;
          (oa', ta', off2, cs2, rem2) =
            (if rem1 \<ge> 16
             then (let o0 = xor_block off1 (L ! 0)
                   in (oa @ [o0], ta @ [xor_block o0 (nth_block ptp k1)], o0,
                       xor_block cs1 (nth_block ptp k1), rem1 - 16))
             else (oa, ta, off1, cs1, rem1));
          k2 = length oa';
          tmp = (memcpy (store_block zero_block) (drop (16 * k2) ptp))[rem2 := 0x80];
          (off3, cs3) =
            (if rem2 > 0 then (xor_block off2 (Lstar ctx), xor_block cs2 (load_block tmp)) else (off2, cs2));
          tag = xor_block (E (xor_block (xor_block off3 (Ldollar ctx)) cs3)) (ad_checksum ctx);
          full = concat (map2 (\<lambda>t o0. store_block (xor_block (E t) o0)) ta' oa');
          part = (if rem2 > 0 then take rem2 (store_block (xor_block (load_block tmp) (E off3))) else [])
      in (full @ part, tag))"

text \<open>The result: the context, the bytes written to \<^verbatim>\<open>ct\<close> (with the tag appended when no tag
  pointer is passed), the tag when a pointer is passed, and the returned length.\<close>

definition ae_encrypt :: "(block \<Rightarrow> block) \<Rightarrow> ae_ctx \<Rightarrow> bytes option \<Rightarrow> bytes \<Rightarrow> bytes \<Rightarrow> int \<Rightarrow> bool \<Rightarrow> bool
    \<Rightarrow> ae_ctx \<times> bytes \<times> block option \<times> int" where
  "ae_encrypt E ctx nonce pt ad ad_len want_tag final =
     (let ctx1 = start_message E ctx nonce ad_len;
          ctx2 = (if ad_len > 0 then process_ad E ctx1 ad final else ctx1)
      in case enc_loop E (L_table ctx2) (length pt div 64) (blocks_processed ctx2) (ctx_offset ctx2)
                (ctx_checksum ctx2) pt [] of
           (n, off, cs, ptp, ct) \<Rightarrow>
             let ctx3 = (if length pt div 64 > 0
                         then ctx2\<lparr>ctx_offset := off, blocks_processed := n, ctx_checksum := cs\<rparr> else ctx2)
             in if final
                then (case enc_final E ctx3 off cs ptp of (tail, tag) \<Rightarrow>
                        if want_tag then (ctx3, ct @ tail, Some tag, int (length pt))
                        else (ctx3, ct @ tail @ store_block tag, None, int (length pt) + 16))
                else (ctx3, ct, None, int (length pt)))"

section \<open>Decryption\<close>

definition constant_time_memcmp :: "bytes \<Rightarrow> bytes \<Rightarrow> byte" where
  "constant_time_memcmp a b = fold (\<lambda>(x, y) result. result OR (x XOR y)) (zip a b) 0"

fun dec_loop :: "(block \<Rightarrow> block) \<Rightarrow> block list \<Rightarrow> nat \<Rightarrow> u32 \<Rightarrow> block \<Rightarrow> block \<Rightarrow> bytes \<Rightarrow> bytes
    \<Rightarrow> u32 \<times> block \<times> block \<times> bytes \<times> bytes" where
  "dec_loop D L 0 block_num oa3 cs ctp pt = (block_num, oa3, cs, ctp, pt)"
| "dec_loop D L (Suc i) block_num oa3 cs ctp pt =
     (let block_num' = block_num + 4;
          oa0 = xor_block oa3 (L ! 0);
          ta0 = xor_block oa0 (nth_block ctp 0);
          oa1 = xor_block oa0 (L ! 1);
          ta1 = xor_block oa1 (nth_block ctp 1);
          oa2 = xor_block oa1 (L ! 0);
          ta2 = xor_block oa2 (nth_block ctp 2);
          oa3' = xor_block oa2 (L ! ntz block_num');
          ta3 = xor_block oa3' (nth_block ctp 3);
          p0 = xor_block (D ta0) oa0;
          p1 = xor_block (D ta1) oa1;
          p2 = xor_block (D ta2) oa2;
          p3 = xor_block (D ta3) oa3';
          cs' = xor_block (xor_block (xor_block (xor_block cs p0) p1) p2) p3
      in dec_loop D L i block_num' oa3' cs' (drop 64 ctp)
           (pt @ store_block p0 @ store_block p1 @ store_block p2 @ store_block p3))"

definition dec_final :: "(block \<Rightarrow> block) \<Rightarrow> (block \<Rightarrow> block) \<Rightarrow> ae_ctx \<Rightarrow> block \<Rightarrow> block \<Rightarrow> bytes
    \<Rightarrow> bytes \<times> block" where
  "dec_final E D ctx off cs ctp =
     (let L = L_table ctx;
          (oa, ta, off1, rem1) =
            (if length ctp \<ge> 32
             then (let o0 = xor_block off (L ! 0); o1 = xor_block o0 (L ! 1)
                   in ([o0, o1], [xor_block o0 (nth_block ctp 0), xor_block o1 (nth_block ctp 1)], o1,
                       length ctp - 32))
             else ([], [], off, length ctp));
          k1 = length oa;
          (oa', ta', off2, rem2) =
            (if rem1 \<ge> 16
             then (let o0 = xor_block off1 (L ! 0)
                   in (oa @ [o0], ta @ [xor_block o0 (nth_block ctp k1)], o0, rem1 - 16))
             else (oa, ta, off1, rem1));
          k2 = length oa';
          (part, off3, cs3) =
            (if rem2 > 0
             then (let o0 = xor_block off2 (Lstar ctx);
                       pad = E o0;
                       tmp = load_block (memcpy (store_block pad) (drop (16 * k2) ctp));
                       tmp' = (store_block (xor_block tmp pad))[rem2 := 0x80]
                   in (take rem2 tmp', o0, xor_block cs (load_block tmp')))
             else ([], off2, cs));
          ps = map2 (\<lambda>t o0. xor_block (D t) o0) ta' oa';
          cs4 = foldr (\<lambda>p acc. xor_block acc p) ps cs3;
          tag = xor_block (E (xor_block (xor_block off3 (Ldollar ctx)) cs4)) (ad_checksum ctx)
      in (concat (map store_block ps) @ part, tag))"

text \<open>\<^verbatim>\<open>AE_INVALID\<close> is -1.  With no tag pointer the tag is the last 16 bytes of the input.  The
  result: the context, the bytes written to \<^verbatim>\<open>pt\<close>, and the returned value.\<close>

definition ae_decrypt :: "(block \<Rightarrow> block) \<Rightarrow> (block \<Rightarrow> block) \<Rightarrow> ae_ctx \<Rightarrow> bytes option \<Rightarrow> bytes \<Rightarrow> bytes \<Rightarrow> int
    \<Rightarrow> block option \<Rightarrow> bool \<Rightarrow> ae_ctx \<times> bytes \<times> int" where
  "ae_decrypt E D ctx nonce ct_all ad ad_len tag final =
     (let ct = (if final \<and> tag = None then take (length ct_all - 16) ct_all else ct_all);
          ctx1 = start_message E ctx nonce ad_len;
          ctx2 = (if ad_len > 0 then process_ad E ctx1 ad final else ctx1)
      in case dec_loop D (L_table ctx2) (length ct div 64) (blocks_processed ctx2) (ctx_offset ctx2)
                (ctx_checksum ctx2) ct [] of
           (n, off, cs, ctp, pt) \<Rightarrow>
             let ctx3 = (if length ct div 64 > 0
                         then ctx2\<lparr>ctx_offset := off, blocks_processed := n, ctx_checksum := cs\<rparr> else ctx2)
             in if final
                then (case dec_final E D ctx3 off cs ctp of (tail, full_tag) \<Rightarrow>
                        let invalid =
                          (case tag of
                             Some t \<Rightarrow> unequal_blocks full_tag t
                           | None \<Rightarrow> constant_time_memcmp (drop (length ct) ct_all) (store_block full_tag) \<noteq> 0)
                        in (ctx3, pt @ tail, if invalid then - 1 else int (length ct)))
                else (ctx3, pt, int (length ct)))"

section \<open>The reference mode\<close>

function ref_enc :: "(block \<Rightarrow> block) \<Rightarrow> block list \<Rightarrow> nat \<Rightarrow> block \<Rightarrow> block \<Rightarrow> bytes \<Rightarrow> bytes
    \<Rightarrow> block \<times> block \<times> bytes \<times> bytes" where
  "ref_enc E L n off cs pt ct =
     (if length pt < 16 then (off, cs, pt, ct)
      else
        (let off' = xor_block off (L ! ntz (of_nat (Suc n))); p = load_block pt
         in ref_enc E L (Suc n) off' (xor_block cs p) (drop 16 pt)
              (ct @ store_block (xor_block (E (xor_block off' p)) off'))))"
  by pat_completeness auto
termination
  by (relation "measure (\<lambda>(E, L, n, off, cs, pt, ct). length pt)") auto

function ref_dec :: "(block \<Rightarrow> block) \<Rightarrow> block list \<Rightarrow> nat \<Rightarrow> block \<Rightarrow> block \<Rightarrow> bytes \<Rightarrow> bytes
    \<Rightarrow> block \<times> block \<times> bytes \<times> bytes" where
  "ref_dec D L n off cs ct pt =
     (if length ct < 16 then (off, cs, ct, pt)
      else
        (let off' = xor_block off (L ! ntz (of_nat (Suc n)));
             p = xor_block (D (xor_block off' (load_block ct))) off'
         in ref_dec D L (Suc n) off' (xor_block cs p) (drop 16 ct) (pt @ store_block p)))"
  by pat_completeness auto
termination
  by (relation "measure (\<lambda>(D, L, n, off, cs, ct, pt). length ct)") auto

declare ref_enc.simps [simp del] ref_dec.simps [simp del]

definition pad_block :: "bytes \<Rightarrow> bytes" where
  "pad_block rest = rest @ 0x80 # replicate (15 - length rest) 0"

definition ref_tag :: "(block \<Rightarrow> block) \<Rightarrow> ae_ctx \<Rightarrow> block \<Rightarrow> block \<Rightarrow> bytes \<Rightarrow> block" where
  "ref_tag E ctx off cs rest =
     (if rest = [] then xor_block (E (xor_block (xor_block off (Ldollar ctx)) cs)) (ad_checksum ctx)
      else xor_block (E (xor_block (xor_block (xor_block off (Lstar ctx)) (Ldollar ctx))
                                   (xor_block cs (load_block (pad_block rest))))) (ad_checksum ctx))"

definition ref_partial :: "(block \<Rightarrow> block) \<Rightarrow> ae_ctx \<Rightarrow> block \<Rightarrow> bytes \<Rightarrow> bytes" where
  "ref_partial E ctx off rest = map2 (XOR) rest (store_block (E (xor_block off (Lstar ctx))))"

section \<open>Blocks and bytes\<close>

lemma length_store_block [simp]: "length (store_block b) = 16"
  by (simp add: store_block_def)

lemma store_block_not_Nil [simp]: "store_block b \<noteq> []"
  by (auto dest: arg_cong [of _ _ length])

lemma load_store_block [simp]: "load_block (store_block b @ rest) = b"
  using be64toh_htobe64 [of _ "[]"] by (cases b) (simp add: load_block_def store_block_def)

lemma load_store_block' [simp]: "load_block (store_block b) = b"
  using load_store_block [of b "[]"] by simp

lemma store_load_block: "16 \<le> length p \<Longrightarrow> store_block (load_block p) = take 16 p"
proof -
  assume *: "16 \<le> length p"
  have "take 16 p = take 8 p @ take 8 (drop 8 p)"
    by (simp add: take_add [of 8 8 p, simplified])
  with * show ?thesis
    by (simp add: store_block_def load_block_def wire_simps)
qed

lemma load_block_take [simp]: "load_block (take 16 p) = load_block p"
  by (simp add: load_block_def take_drop min_def)

lemma htobe64_xor: "htobe64 (x XOR y) = map2 (XOR) (htobe64 x) (htobe64 y)"
  by (simp add: htobe64_def unsigned_xor_eq)

lemma store_xor_block: "store_block (xor_block x y) = map2 (XOR) (store_block x) (store_block y)"
  by (simp add: store_block_def xor_block_def htobe64_xor rev_map zip_rev zip_append)

lemma load_inject: "length p = 16 \<Longrightarrow> length q = 16 \<Longrightarrow> load_block p = load_block q \<longleftrightarrow> p = q"
  by (metis order_refl store_load_block take_all_iff)

lemma xor_block_commute: "xor_block x y = xor_block y x"
  by (simp add: xor_block_def xor.commute)

lemma xor_block_assoc: "xor_block (xor_block x y) z = xor_block x (xor_block y z)"
  by (simp add: xor_block_def xor.assoc)

lemma xor_block_left_commute: "xor_block x (xor_block y z) = xor_block y (xor_block x z)"
  by (simp add: xor_block_def xor.left_commute)

lemmas xor_block_ac = xor_block_assoc xor_block_commute xor_block_left_commute

lemma xor_block_self [simp]: "xor_block x x = zero_block"
  by (simp add: xor_block_def zero_block_def)

lemma xor_block_zero [simp]: "xor_block x zero_block = x" "xor_block zero_block x = x"
  by (simp_all add: xor_block_def zero_block_def)

lemma xor_block_cancel [simp]: "xor_block x (xor_block x y) = y"
  by (simp flip: xor_block_assoc)

lemma xor_block_cancel' [simp]: "xor_block (xor_block y x) x = y"
  by (simp add: xor_block_assoc)

lemma unequal_blocks_iff: "unequal_blocks x y \<longleftrightarrow> x \<noteq> y"
  by (cases x; cases y) (auto simp: unequal_blocks_def word_or_eq_0_iff word_xor_eq_0_iff)

lemma memcmp_fold:
  "fold (\<lambda>(x, y) result. result OR (x XOR y)) xs acc = (0 :: byte) \<longleftrightarrow> acc = 0 \<and> (\<forall>(x, y) \<in> set xs. x = y)"
  by (induction xs arbitrary: acc) (auto simp: word_or_eq_0_iff word_xor_eq_0_iff)

lemma constant_time_memcmp_iff:
  "length a = length b \<Longrightarrow> constant_time_memcmp a b = 0 \<longleftrightarrow> a = b"
  by (auto simp: constant_time_memcmp_def memcmp_fold list_eq_iff_zip_eq)

section \<open>Trailing zeros\<close>

lemma ntz_0: "bit x 0 \<Longrightarrow> ntz x = 0"
  by (simp add: ntz_def upt_rec)

lemma ntz_1: "\<not> bit x 0 \<Longrightarrow> bit x 1 \<Longrightarrow> ntz x = 1"
  by (simp add: ntz_def upt_rec)

lemma bit_of_nat_u32: "bit (of_nat m :: u32) n \<longleftrightarrow> n < 32 \<and> bit m n"
  by (simp add: bit_simps)

lemma ntz_offsets:
  assumes "n mod 4 = 0"
  shows "ntz (of_nat (Suc n)) = 0" "ntz (of_nat (Suc (Suc n))) = 1" "ntz (of_nat (Suc (Suc (Suc n)))) = 0"
proof -
  have "bit (Suc n) 0" "\<not> bit (Suc (Suc n)) 0" "bit (Suc (Suc n)) 1" "bit (Suc (Suc (Suc n))) 0"
    using assms by (simp_all only: bit_iff_odd power_0 power_one_right div_by_1) presburger+
  then show "ntz (of_nat (Suc n)) = 0" "ntz (of_nat (Suc (Suc n))) = 1" "ntz (of_nat (Suc (Suc (Suc n)))) = 0"
    using ntz_0 ntz_1 bit_of_nat_u32 by (simp_all del: of_nat_Suc)
qed

section \<open>The four-block loops follow the reference\<close>

lemma nth_block_drop: "nth_block (drop 16 p) k = nth_block p (Suc k)"
  by (simp add: add.commute)

lemma enc_loop_ref:
  assumes "enc_loop E L i (of_nat n) off cs ptp ct = (bn', off', cs', ptp', ct')"
    and "64 * i \<le> length ptp" and "n mod 4 = 0"
  shows "ref_enc E L n off cs ptp ct = ref_enc E L (n + 4 * i) off' cs' ptp' ct' \<and> ptp' = drop (64 * i) ptp
    \<and> bn' = of_nat (n + 4 * i)"
  using assms
proof (induction i arbitrary: n off cs ptp ct)
  case 0
  then show ?case by simp
next
  case (Suc i)
  note z = ntz_offsets [OF Suc.prems(3)]
  have len: "\<not> length ptp < 16" "\<not> length (drop 16 ptp) < 16" "\<not> length (drop 32 ptp) < 16"
    "\<not> length (drop 48 ptp) < 16"
    using Suc.prems(2) by simp_all
  have bn: "of_nat n + 4 = (of_nat (n + 4) :: u32)" by simp
  have "(n + 4) mod 4 = 0" "64 * i \<le> length (drop 64 ptp)"
    using Suc.prems(2,3) by auto
  note IH = Suc.IH [OF Suc.prems(1) [unfolded enc_loop.simps Let_def bn] this(2,1)]
  have four: "Suc (Suc (Suc (Suc n))) = n + 4" by simp
  show ?case
    apply (subst ref_enc.simps)
    apply (subst ref_enc.simps)
    apply (subst ref_enc.simps)
    apply (subst ref_enc.simps)
    using IH len by (simp add: Let_def z four algebra_simps del: of_nat_Suc of_nat_add)
qed

lemma store_zero_block: "store_block zero_block = replicate 16 0"
  by (simp add: store_block_def zero_block_def htobe64_def eval_nat_numeral)

lemma memcpy_pad:
  "length rest < 16 \<Longrightarrow> (memcpy (store_block zero_block) rest)[length rest := 0x80] = pad_block rest"
proof -
  assume *: "length rest < 16"
  then obtain m where m: "16 - length rest = Suc m" by (cases "16 - length rest") auto
  then have "15 - length rest = m" by simp
  with m show ?thesis
    by (simp add: memcpy_def store_zero_block pad_block_def)
qed

lemma length_pad_block [simp]: "length rest < 16 \<Longrightarrow> length (pad_block rest) = 16"
  by (simp add: pad_block_def)

lemma partial_bytes:
  assumes "length rest < 16"
  shows "take (length rest) (store_block (xor_block (load_block (pad_block rest)) pad))
    = map2 (XOR) rest (store_block pad)"
proof -
  have "store_block (load_block (pad_block rest)) = pad_block rest"
    using assms by (simp add: store_load_block)
  then show ?thesis
    using assms by (intro nth_equalityI) (simp_all add: store_xor_block pad_block_def nth_append)
qed

lemma enc_final_ref:
  assumes n: "n mod 4 = 0" and len: "length ptp < 64"
    and ref: "ref_enc E (L_table ctx) n off cs ptp ct = (off', cs', rest, ct')"
    and fin: "enc_final E ctx off cs ptp = (tail, tag)"
  shows "ct @ tail = ct' @ ref_partial E ctx off' rest \<and> tag = ref_tag E ctx off' cs' rest"
proof -
  note z = ntz_offsets [OF n]
  have stop: "ref_enc E (L_table ctx) k o1 c1 p1 t1 = (o1, c1, p1, t1)" if "length p1 < 16" for k o1 c1 p1 t1
    using that by (subst ref_enc.simps) simp
  have pad: "(memcpy (store_block zero_block) p)[m := 0x80] = pad_block p" if "length p = m" "m < 16" for p m
    using memcpy_pad [of p] that by simp
  have par: "take m (store_block (xor_block (load_block (pad_block p)) q)) = map2 (XOR) p (store_block q)"
    if "length p = m" "m < 16" for p m q
    using partial_bytes [of p q] that by simp
  consider "length ptp < 16" | "16 \<le> length ptp" "length ptp < 32" | "32 \<le> length ptp" "length ptp < 48"
    | "48 \<le> length ptp" "length ptp < 64" using len by linarith
  then show ?thesis
  proof cases
    case 1
    then show ?thesis using ref fin
      by (auto simp: stop enc_final_def Let_def pad par ref_partial_def ref_tag_def simp del: of_nat_Suc split: if_splits)
  next
    case 2
    then show ?thesis using ref fin
      apply (subst (asm) ref_enc.simps)
      by (auto simp: stop z enc_final_def Let_def pad par ref_partial_def ref_tag_def simp del: of_nat_Suc split: if_splits)
  next
    case 3
    then show ?thesis using ref fin
      apply (subst (asm) ref_enc.simps, subst (asm) ref_enc.simps)
      by (auto simp: stop z enc_final_def Let_def pad par ref_partial_def ref_tag_def simp del: of_nat_Suc split: if_splits)
  next
    case 4
    then show ?thesis using ref fin
      apply (subst (asm) ref_enc.simps, subst (asm) ref_enc.simps, subst (asm) ref_enc.simps)
      by (auto simp: stop z enc_final_def Let_def pad par ref_partial_def ref_tag_def simp del: of_nat_Suc split: if_splits)
  qed
qed

lemma dec_loop_ref:
  assumes "dec_loop D L i (of_nat n) off cs ctp pt = (bn', off', cs', ctp', pt')"
    and "64 * i \<le> length ctp" and "n mod 4 = 0"
  shows "ref_dec D L n off cs ctp pt = ref_dec D L (n + 4 * i) off' cs' ctp' pt' \<and> ctp' = drop (64 * i) ctp
    \<and> bn' = of_nat (n + 4 * i)"
  using assms
proof (induction i arbitrary: n off cs ctp pt)
  case 0
  then show ?case by simp
next
  case (Suc i)
  note z = ntz_offsets [OF Suc.prems(3)]
  have len: "\<not> length ctp < 16" "\<not> length (drop 16 ctp) < 16" "\<not> length (drop 32 ctp) < 16"
    "\<not> length (drop 48 ctp) < 16"
    using Suc.prems(2) by simp_all
  have bn: "of_nat n + 4 = (of_nat (n + 4) :: u32)" by simp
  have "(n + 4) mod 4 = 0" "64 * i \<le> length (drop 64 ctp)"
    using Suc.prems(2,3) by auto
  note IH = Suc.IH [OF Suc.prems(1) [unfolded dec_loop.simps Let_def bn] this(2,1)]
  have four: "Suc (Suc (Suc (Suc n))) = n + 4" by simp
  show ?case
    apply (subst ref_dec.simps, subst ref_dec.simps, subst ref_dec.simps, subst ref_dec.simps)
    using IH len by (simp add: Let_def z four algebra_simps del: of_nat_Suc of_nat_add)
qed

lemma memcpy_unpad:
  assumes "length rest < 16"
  shows "(store_block (xor_block (load_block (memcpy (store_block pad) rest)) pad))[length rest := 0x80]
    = pad_block (map2 (XOR) rest (store_block pad))"
proof -
  have "store_block (load_block (memcpy (store_block pad) rest)) = memcpy (store_block pad) rest"
    using assms by (simp add: store_load_block memcpy_def)
  then show ?thesis
    using assms by (intro nth_equalityI)
      (auto simp: store_xor_block pad_block_def memcpy_def nth_append nth_list_update nth_Cons')
qed

lemma dec_final_ref:
  assumes n: "n mod 4 = 0" and len: "length ctp < 64"
    and ref: "ref_dec D (L_table ctx) n off cs ctp pt = (off', cs', rest, pt')"
    and fin: "dec_final E D ctx off cs ctp = (tail, tag)"
  shows "pt @ tail = pt' @ ref_partial E ctx off' rest
    \<and> tag = ref_tag E ctx off' cs' (ref_partial E ctx off' rest)"
proof -
  note z = ntz_offsets [OF n]
  have stop: "ref_dec D (L_table ctx) k o1 c1 p1 t1 = (o1, c1, p1, t1)" if "length p1 < 16" for k o1 c1 p1 t1
    using that by (subst ref_dec.simps) simp
  have pad: "(store_block (xor_block (load_block (memcpy (store_block q) p)) q))[m := 0x80]
      = pad_block (map2 (XOR) p (store_block q))" if "length p = m" "m < 16" for p m q
    using memcpy_unpad [of p q] that by simp
  have par: "take m (store_block (xor_block (load_block (memcpy (store_block q) p)) q))
      = map2 (XOR) p (store_block q)" if "length p = m" "m < 16" for p m q
    using arg_cong [OF pad [OF that], of "take m"] that by (simp add: pad_block_def)
  have emp: "map2 (XOR) p (store_block q) = [] \<longleftrightarrow> p = []" for p q
    by (cases p; cases "store_block q") (auto dest: arg_cong [of _ _ length])
  note facts = stop z dec_final_def Let_def pad par ref_partial_def ref_tag_def emp
  consider "length ctp < 16" | "16 \<le> length ctp" "length ctp < 32" | "32 \<le> length ctp" "length ctp < 48"
    | "48 \<le> length ctp" "length ctp < 64" using len by linarith
  then show ?thesis
  proof cases
    case 1
    then show ?thesis using ref fin
      by (auto simp: facts simp del: of_nat_Suc split: if_splits; simp add: xor_block_ac)
  next
    case 2
    then show ?thesis using ref fin
      apply (subst (asm) ref_dec.simps)
      by (auto simp: facts simp del: of_nat_Suc split: if_splits; simp add: xor_block_ac)
  next
    case 3
    then show ?thesis using ref fin
      apply (subst (asm) ref_dec.simps, subst (asm) ref_dec.simps)
      by (auto simp: facts simp del: of_nat_Suc split: if_splits; simp add: xor_block_ac)
  next
    case 4
    then show ?thesis using ref fin
      apply (subst (asm) ref_dec.simps, subst (asm) ref_dec.simps, subst (asm) ref_dec.simps)
      by (auto simp: facts simp del: of_nat_Suc split: if_splits; simp add: xor_block_ac)
  qed
qed

section \<open>Contexts\<close>

definition zero_ctx :: ae_ctx where
  "zero_ctx = \<lparr>ctx_offset = zero_block, ctx_checksum = zero_block, Lstar = zero_block, Ldollar = zero_block,
     L_table = [], ad_checksum = zero_block, ad_offset = zero_block, cached_Top = zero_block,
     KtopStr = (0, 0, 0), ad_blocks_processed = 0, blocks_processed = 0\<rparr>"

definition key_ctx :: "(block \<Rightarrow> block) \<Rightarrow> ae_ctx" where
  "key_ctx E = the (ae_init E zero_ctx 12)"

definition nonce_top :: "bytes \<Rightarrow> bytes" where
  "nonce_top nonce = ([0, 0, 0, 1] @ nonce)[15 := ([0, 0, 0, 1] @ nonce) ! 15 AND 0xc0]"

definition ktop :: "(block \<Rightarrow> block) \<Rightarrow> block \<Rightarrow> u64 \<times> u64 \<times> u64" where
  "ktop E t = (let K = swap_if_le (E t) in (bl K, br K, (bl K XOR push_bit 8 (bl K)) XOR drop_bit 56 (br K)))"

definition nonce_offset :: "(block \<Rightarrow> block) \<Rightarrow> bytes \<Rightarrow> block" where
  "nonce_offset E nonce =
     gen_offset (ktop E (load_block (nonce_top nonce))) (unat (([0, 0, 0, 1] @ nonce) ! 15 AND 0x3f))"

text \<open>What \<^verbatim>\<open>ae_init\<close> establishes and every message keeps: the key-dependent values are those of the
  key, and the cached nonce block, once set, goes with its encryption.\<close>

definition ctx_ok :: "(block \<Rightarrow> block) \<Rightarrow> ae_ctx \<Rightarrow> bool" where
  "ctx_ok E ctx \<longleftrightarrow>
     Lstar ctx = Lstar (key_ctx E) \<and> Ldollar ctx = Ldollar (key_ctx E) \<and> L_table ctx = L_table (key_ctx E)
     \<and> (cached_Top ctx = zero_block \<or> KtopStr ctx = ktop E (cached_Top ctx))"

lemma ae_init_ok: "ae_init E ctx 12 = Some ctx' \<Longrightarrow> ctx_ok E ctx'"
  by (auto simp: ctx_ok_def key_ctx_def ae_init_def Let_def)

lemma nonce_top_not_zero: "length nonce = 12 \<Longrightarrow> load_block (nonce_top nonce) \<noteq> zero_block"
proof
  assume len: "length nonce = 12" and "load_block (nonce_top nonce) = zero_block"
  then have "load_block (nonce_top nonce) = load_block (replicate 16 0)"
    using load_store_block' [of zero_block] by (simp add: store_zero_block)
  then have "nonce_top nonce = replicate 16 0"
    using len by (subst (asm) load_inject) (simp_all add: nonce_top_def)
  then have "nonce_top nonce ! 3 = 0" by simp
  then show False by (simp add: nonce_top_def)
qed

lemma gen_offset_from_nonce_ok:
  assumes "ctx_ok E ctx" "length nonce = 12"
  shows "\<exists>ctx'. gen_offset_from_nonce E ctx nonce = (ctx', nonce_offset E nonce) \<and> ctx_ok E ctx'"
proof (cases "load_block (nonce_top nonce) = cached_Top ctx")
  case True
  then have "KtopStr ctx = ktop E (load_block (nonce_top nonce))"
    using assms nonce_top_not_zero by (auto simp: ctx_ok_def)
  with True assms show ?thesis
    by (auto simp: gen_offset_from_nonce_def Let_def nonce_offset_def unequal_blocks_iff nonce_top_def)
next
  case False
  with assms show ?thesis
    by (auto simp: gen_offset_from_nonce_def Let_def nonce_offset_def unequal_blocks_iff nonce_top_def
      ctx_ok_def ktop_def)
qed

lemma start_message_ok:
  assumes "ctx_ok E ctx" "length nonce = 12"
  shows "ctx_ok E (start_message E ctx (Some nonce) 0)"
    "ctx_offset (start_message E ctx (Some nonce) 0) = nonce_offset E nonce"
    "ctx_checksum (start_message E ctx (Some nonce) 0) = zero_block"
    "ad_checksum (start_message E ctx (Some nonce) 0) = zero_block"
    "blocks_processed (start_message E ctx (Some nonce) 0) = of_nat 0"
  using gen_offset_from_nonce_ok [OF assms]
  by (auto simp: start_message_def Let_def ctx_ok_def split: prod.splits)

section \<open>Whole messages\<close>

definition ref_encrypt :: "(block \<Rightarrow> block) \<Rightarrow> bytes \<Rightarrow> bytes \<Rightarrow> bytes" where
  "ref_encrypt E nonce pt =
     (case ref_enc E (L_table (key_ctx E)) 0 (nonce_offset E nonce) zero_block pt [] of
        (off, cs, rest, ct) \<Rightarrow>
          ct @ ref_partial E (key_ctx E) off rest @ store_block (ref_tag E (key_ctx E) off cs rest))"

definition ref_decrypt :: "(block \<Rightarrow> block) \<Rightarrow> (block \<Rightarrow> block) \<Rightarrow> bytes \<Rightarrow> bytes \<Rightarrow> bytes \<times> bytes" where
  "ref_decrypt E D nonce ct =
     (case ref_dec D (L_table (key_ctx E)) 0 (nonce_offset E nonce) zero_block ct [] of
        (off, cs, rest, pt) \<Rightarrow>
          let part = ref_partial E (key_ctx E) off rest
          in (pt @ part, store_block (ref_tag E (key_ctx E) off cs part)))"

lemma ref_ctx_cong:
  assumes "ctx_ok E ctx" "ad_checksum ctx = zero_block"
  shows "ref_partial E ctx off rest = ref_partial E (key_ctx E) off rest"
    "ref_tag E ctx off cs rest = ref_tag E (key_ctx E) off cs rest"
  using assms by (auto simp: ctx_ok_def ref_partial_def ref_tag_def key_ctx_def ae_init_def Let_def zero_ctx_def)

lemma ae_encrypt_ref:
  assumes ok: "ctx_ok E ctx" and nonce: "length nonce = 12"
  shows "\<exists>ctx'. ae_encrypt E ctx (Some nonce) pt [] 0 False True
     = (ctx', ref_encrypt E nonce pt, None, int (length pt) + 16) \<and> ctx_ok E ctx'"
proof -
  let ?c = "start_message E ctx (Some nonce) 0"
  note st = start_message_ok [OF ok nonce]
  obtain n off cs ptp ct where lp: "enc_loop E (L_table ?c) (length pt div 64) (of_nat 0) (nonce_offset E nonce)
      zero_block pt [] = (n, off, cs, ptp, ct)"
    by (cases "enc_loop E (L_table ?c) (length pt div 64) (of_nat 0) (nonce_offset E nonce) zero_block pt []")
  define c3 where "c3 = (if length pt div 64 > 0
     then ?c\<lparr>ctx_offset := off, blocks_processed := n, ctx_checksum := cs\<rparr> else ?c)"
  have c3: "ctx_ok E c3" "ad_checksum c3 = zero_block" "L_table c3 = L_table ?c"
    using st by (auto simp: c3_def ctx_ok_def)
  have "ref_enc E (L_table ?c) 0 (nonce_offset E nonce) zero_block pt []
      = ref_enc E (L_table ?c) (0 + 4 * (length pt div 64)) off cs ptp ct \<and> ptp = drop (64 * (length pt div 64)) pt"
    using enc_loop_ref [OF lp] by simp
  moreover have "length (drop (64 * (length pt div 64)) pt) < 64"
    by (simp add: minus_mult_div_eq_mod)
  moreover obtain off' cs' rest ct' where
    "ref_enc E (L_table c3) (0 + 4 * (length pt div 64)) off cs ptp ct = (off', cs', rest, ct')"
    by (cases "ref_enc E (L_table c3) (0 + 4 * (length pt div 64)) off cs ptp ct")
  moreover obtain tail tag where "enc_final E c3 off cs ptp = (tail, tag)"
    by (cases "enc_final E c3 off cs ptp")
  ultimately have "ct @ tail @ store_block tag = ref_encrypt E nonce pt"
    using enc_final_ref [of "0 + 4 * (length pt div 64)" ptp E c3 off cs ct off' cs' rest ct' tail tag]
      ref_ctx_cong [OF c3(1,2)] c3 st(1)
    by (simp add: ref_encrypt_def ctx_ok_def)
  with lp c3(1) st \<open>enc_final E c3 off cs ptp = (tail, tag)\<close> show ?thesis
    by (auto simp: ae_encrypt_def Let_def c3_def [symmetric])
qed

lemma ae_decrypt_ref:
  assumes ok: "ctx_ok E ctx" and nonce: "length nonce = 12" and len: "16 \<le> length ct"
    and ref: "ref_decrypt E D nonce (take (length ct - 16) ct) = (pt, tag)"
  shows "\<exists>ctx'. ae_decrypt E D ctx (Some nonce) ct [] 0 None True
     = (ctx', pt, if drop (length ct - 16) ct = tag then int (length ct) - 16 else - 1) \<and> ctx_ok E ctx'"
proof -
  let ?c = "start_message E ctx (Some nonce) 0" 
  define ct0 where "ct0 = take (length ct - 16) ct"
  note st = start_message_ok [OF ok nonce]
  let ?k = "length ct0 div 64"
  obtain n off cs ctp p where lp: "dec_loop D (L_table ?c) ?k (of_nat 0) (nonce_offset E nonce)
      zero_block ct0 [] = (n, off, cs, ctp, p)"
    by (cases "dec_loop D (L_table ?c) ?k (of_nat 0) (nonce_offset E nonce) zero_block ct0 []")
  define c3 where "c3 = (if ?k > 0
     then ?c\<lparr>ctx_offset := off, blocks_processed := n, ctx_checksum := cs\<rparr> else ?c)"
  have c3: "ctx_ok E c3" "ad_checksum c3 = zero_block" "L_table c3 = L_table ?c"
    using st by (auto simp: c3_def ctx_ok_def)
  have "ref_dec D (L_table ?c) 0 (nonce_offset E nonce) zero_block ct0 []
      = ref_dec D (L_table ?c) (0 + 4 * ?k) off cs ctp p" and ctp: "ctp = drop (64 * ?k) ct0"
    using dec_loop_ref [OF lp] by simp_all
  moreover have "length (drop (64 * ?k) ct0) < 64"
    by (simp add: minus_mult_div_eq_mod)
  moreover obtain off' cs' rest p' where
    "ref_dec D (L_table c3) (0 + 4 * ?k) off cs ctp p = (off', cs', rest, p')"
    by (cases "ref_dec D (L_table c3) (0 + 4 * ?k) off cs ctp p")
  moreover obtain tail ftag where fin: "dec_final E D c3 off cs ctp = (tail, ftag)"
    by (cases "dec_final E D c3 off cs ctp")
  ultimately have "p @ tail = pt \<and> store_block ftag = tag"
    using dec_final_ref [of "0 + 4 * ?k" ctp D c3 off cs p off' cs' rest p' E tail ftag]
      ref_ctx_cong [OF c3(1,2)] c3 st(1) ref
    by (simp add: ref_decrypt_def ctx_ok_def Let_def ct0_def [symmetric])
  moreover have "constant_time_memcmp (drop (length ct - 16) ct) (store_block ftag) = 0
      \<longleftrightarrow> drop (length ct - 16) ct = store_block ftag"
    using len by (intro constant_time_memcmp_iff) simp
  moreover have "int (length ct0) = int (length ct) - 16" "length ct - 16 = length ct0"
      "take (length ct0) ct = ct0"
    using len by (simp_all add: ct0_def)
  ultimately show ?thesis
    using lp c3(1) st fin len
    by (auto simp: ae_decrypt_def Let_def c3_def [symmetric])
qed

section \<open>The reference mode inverts\<close>

lemma ref_dec_of_enc:
  assumes inv: "\<And>b. D (E b) = b"
    and "ref_enc E L n off cs pt ct = (off', cs', rest, ct')" and "length tail < 16"
  shows "\<exists>c p. ct' = ct @ c \<and> pt = p @ rest \<and> length rest < 16 \<and> length c = length p
    \<and> (\<forall>pt0. ref_dec D L n off cs (c @ tail) pt0 = (off', cs', tail, pt0 @ p))"
  using assms(2)
proof (induction pt arbitrary: n off cs ct rule: length_induct)
  case (1 pt)
  show ?case
  proof (cases "length pt < 16")
    case True
    with 1(2) assms(3) show ?thesis
      by (simp add: ref_enc.simps [of E L n] ref_dec.simps [of D L n])
  next
    case False
    define off1 where "off1 = xor_block off (L ! ntz (of_nat (Suc n)))"
    define b where "b = load_block pt"
    define c1 where "c1 = xor_block (E (xor_block off1 b)) off1"
    from 1(2) False have
      "ref_enc E L (Suc n) off1 (xor_block cs b) (drop 16 pt) (ct @ store_block c1) = (off', cs', rest, ct')"
      by (subst (asm) ref_enc.simps) (simp add: Let_def off1_def b_def c1_def)
    with 1(1) [rule_format, of "drop 16 pt"] False obtain c p where
      IH: "ct' = (ct @ store_block c1) @ c" "drop 16 pt = p @ rest" "length rest < 16" "length c = length p"
        "\<And>pt0. ref_dec D L (Suc n) off1 (xor_block cs b) (c @ tail) pt0 = (off', cs', tail, pt0 @ p)"
      by force
    have D: "xor_block (D (xor_block off1 c1)) off1 = b"
      by (simp add: c1_def xor_block_commute [of _ off1] inv)
    have "ref_dec D L n off cs ((store_block c1 @ c) @ tail) pt0 = (off', cs', tail, pt0 @ store_block b @ p)" for pt0
      using IH(5) D by (subst ref_dec.simps) (simp add: Let_def off1_def [symmetric] del: of_nat_Suc)
    moreover have "pt = store_block b @ drop 16 pt"
      using False by (simp add: b_def store_load_block)
    ultimately show ?thesis using IH
      by (intro exI [of _ "store_block c1 @ c"] exI [of _ "store_block b @ p"]) auto
  qed
qed

lemma ref_enc_of_dec:
  assumes inv: "\<And>b. E (D b) = b"
    and "ref_dec D L n off cs ct pt = (off', cs', rest, pt')" and "length tail < 16"
  shows "\<exists>c p. pt' = pt @ p \<and> ct = c @ rest \<and> length rest < 16 \<and> length c = length p
    \<and> (\<forall>ct0. ref_enc E L n off cs (p @ tail) ct0 = (off', cs', tail, ct0 @ c))"
  using assms(2)
proof (induction ct arbitrary: n off cs pt rule: length_induct)
  case (1 ct)
  show ?case
  proof (cases "length ct < 16")
    case True
    with 1(2) assms(3) show ?thesis
      by (simp add: ref_enc.simps [of E L n] ref_dec.simps [of D L n])
  next
    case False
    define off1 where "off1 = xor_block off (L ! ntz (of_nat (Suc n)))"
    define b where "b = xor_block (D (xor_block off1 (load_block ct))) off1"
    from 1(2) False have
      "ref_dec D L (Suc n) off1 (xor_block cs b) (drop 16 ct) (pt @ store_block b) = (off', cs', rest, pt')"
      by (subst (asm) ref_dec.simps) (simp add: Let_def off1_def b_def)
    with 1(1) [rule_format, of "drop 16 ct"] False obtain c p where
      IH: "pt' = (pt @ store_block b) @ p" "drop 16 ct = c @ rest" "length rest < 16" "length c = length p"
        "\<And>ct0. ref_enc E L (Suc n) off1 (xor_block cs b) (p @ tail) ct0 = (off', cs', tail, ct0 @ c)"
      by force
    have D: "xor_block (E (xor_block off1 b)) off1 = load_block ct"
      by (simp add: b_def xor_block_commute [of _ off1] inv)
    have "ref_enc E L n off cs ((store_block b @ p) @ tail) ct0 = (off', cs', tail, ct0 @ take 16 ct @ c)" for ct0
      using IH(5) D False
      by (subst ref_enc.simps) (simp add: Let_def off1_def [symmetric] store_load_block del: of_nat_Suc)
    moreover have "ct = take 16 ct @ drop 16 ct" "length (take 16 ct) = 16" using False by simp_all
    ultimately show ?thesis using IH
      by (intro exI [of _ "take 16 ct @ c"] exI [of _ "store_block b @ p"]) (auto simp del: append_take_drop_id)
  qed
qed

lemma ref_partial_inverse:
  "length rest < 16 \<Longrightarrow> ref_partial E ctx off (ref_partial E ctx off rest) = rest"
  by (intro nth_equalityI) (simp_all add: ref_partial_def xor.assoc)

lemma length_ref_partial [simp]: "length rest < 16 \<Longrightarrow> length (ref_partial E ctx off rest) = length rest"
  by (simp add: ref_partial_def)

lemma ref_decrypt_iff:
  assumes "\<And>b. D (E b) = b" "\<And>b. E (D b) = b" "length tag = 16"
  shows "ref_decrypt E D nonce body = (pt, tag) \<longleftrightarrow> ref_encrypt E nonce pt = body @ tag"
proof
  assume dec: "ref_decrypt E D nonce body = (pt, tag)"
  obtain off cs rest p0 where r: "ref_dec D (L_table (key_ctx E)) 0 (nonce_offset E nonce) zero_block body []
      = (off, cs, rest, p0)"
    by (cases "ref_dec D (L_table (key_ctx E)) 0 (nonce_offset E nonce) zero_block body []")
  with ref_enc_of_dec [OF assms(2) r, of "ref_partial E (key_ctx E) off rest"]
    ref_enc_of_dec [OF assms(2) r, of "[]"] dec
  show "ref_encrypt E nonce pt = body @ tag"
    by (auto simp: ref_encrypt_def ref_decrypt_def Let_def ref_partial_inverse)
next
  assume enc: "ref_encrypt E nonce pt = body @ tag"
  obtain off cs rest c0 where r: "ref_enc E (L_table (key_ctx E)) 0 (nonce_offset E nonce) zero_block pt []
      = (off, cs, rest, c0)"
    by (cases "ref_enc E (L_table (key_ctx E)) 0 (nonce_offset E nonce) zero_block pt []")
  with enc assms(3) have *: "body = c0 @ ref_partial E (key_ctx E) off rest"
    "tag = store_block (ref_tag E (key_ctx E) off cs rest)"
    by (auto simp: ref_encrypt_def append_eq_append_conv append_assoc [symmetric] simp del: append_assoc)
  with r ref_dec_of_enc [OF assms(1) r, of "ref_partial E (key_ctx E) off rest"]
    ref_dec_of_enc [OF assms(1) r, of "[]"]
  show "ref_decrypt E D nonce body = (pt, tag)"
    by (auto simp: ref_decrypt_def Let_def ref_partial_inverse)
qed

lemma ref_enc_length:
  "ref_enc E L n off cs pt ct = (off', cs', rest, ct') \<Longrightarrow> length ct' + length rest = length ct + length pt \<and> length rest < 16"
proof (induction E L n off cs pt ct rule: ref_enc.induct)
  case (1 E L n off cs pt ct)
  from 1(2) show ?case
    by (subst (asm) ref_enc.simps) (use 1(1) in \<open>force simp: Let_def split: if_splits\<close>)
qed

lemma length_ref_encrypt: "length (ref_encrypt E nonce pt) = length pt + 16"
proof -
  obtain off cs rest c0 where r: "ref_enc E (L_table (key_ctx E)) 0 (nonce_offset E nonce) zero_block pt []
      = (off, cs, rest, c0)"
    by (cases "ref_enc E (L_table (key_ctx E)) 0 (nonce_offset E nonce) zero_block pt []")
  from r have "length c0 + length rest = length pt \<and> length rest < 16"
    by (rule ref_enc_length [of _ _ _ _ _ _ "[]", simplified])
  with r show ?thesis by (simp add: ref_encrypt_def)
qed

lemma key_ctx_ok [simp]: "ctx_ok E (key_ctx E)"
  by (rule ae_init_ok [of E zero_ctx]) (simp add: key_ctx_def ae_init_def Let_def)

lemma bswap64_involution: "bswap64 (bswap64 x) = x"
proof -
  have "htobe64 (be64toh (rev (htobe64 x))) = rev (htobe64 x)"
    using htobe64_be64toh [of "rev (htobe64 x)"] by simp
  then show ?thesis using be64toh_htobe64 [of x "[]"] by (simp add: bswap64_def)
qed

lemma swap_if_le_involution: "swap_if_le (swap_if_le b) = b"
  by (simp add: swap_if_le_def bswap64_involution)

section \<open>The table is long enough\<close>

lemma ntz_less:
  assumes "bit x n" "n < 32"
  shows "ntz x \<le> n"
proof -
  have "length (takeWhile (\<lambda>k. \<not> bit x k) [0..<32]) \<le> n"
  proof (rule ccontr)
    assume "\<not> length (takeWhile (\<lambda>k. \<not> bit x k) [0..<32]) \<le> n"
    then have "n < length (takeWhile (\<lambda>k. \<not> bit x k) [0..<32])" by simp
    from nth_mem [OF this] takeWhile_nth [OF this] have "n \<in> set (takeWhile (\<lambda>k. \<not> bit x k) [0..<32])"
      using assms(2) by simp
    with set_takeWhileD [of n "\<lambda>k. \<not> bit x k" "[0..<32]"] assms(1) show False by simp
  qed
  then show ?thesis by (simp add: ntz_def)
qed

lemma ntz_in_table:
  assumes "0 < k" "k < 2 ^ 16"
  shows "ntz (of_nat k) < 16"
proof -
  have "\<exists>n < 16. bit k n"
  proof (rule ccontr)
    assume "\<not> (\<exists>n < 16. bit k n)"
    then have "take_bit 16 k = 0" by (intro bit_eqI) (auto simp: bit_take_bit_iff)
    with assms show False by (simp add: take_bit_nat_eq_self)
  qed
  then obtain n where "n < 16" "bit (of_nat k :: u32) n" by (auto simp: bit_of_nat_iff_bit bit_simps)
  with ntz_less [of "of_nat k" n] show ?thesis by simp
qed

lemma length_init_L [simp]: "length (init_L n b) = n"
  by (induction n arbitrary: b) (simp_all add: Let_def)

lemma length_L_table: "ctx_ok E ctx \<Longrightarrow> length (L_table ctx) = 16"
  by (simp add: ctx_ok_def key_ctx_def ae_init_def Let_def)

lemma lookups_in_table:
  assumes "ctx_ok E ctx" "len < 2 ^ 20" "0 < k" "k \<le> len div 16"
  shows "ntz (of_nat k) < length (L_table ctx)"
proof -
  have "len div 16 < 2 ^ 16" using assms(2) by (simp add: less_mult_imp_div_less)
  with assms show ?thesis using ntz_in_table [of k] length_L_table [OF assms(1)] by simp
qed

section \<open>Properties of the cipher\<close>

text \<open>C15. The unrolled four-blocks-at-a-time encryption of \<^verbatim>\<open>ocb_internal.cc\<close>, with its special cases for one, two or
  three left-over blocks and a partial block and with the cached encryption of the nonce's upper bits, computes the
  block-at-a-time OCB mode for every message shorter than 2 ^ 20 bytes (the bound the source sets for its table of
  L values), whatever messages the context has processed before, and leaves the context fit for the next message; at every
  block of such a message the unchecked table lookup stays inside the table's 16 entries.\<close>

theorem ae_encrypt_is_reference_ocb:
  assumes "ctx_ok E ctx" "length nonce = 12" "length pt < 2 ^ 20"
  shows "(\<exists>ctx'. ae_encrypt E ctx (Some nonce) pt [] 0 False True
     = (ctx', ref_encrypt E nonce pt, None, int (length pt) + 16) \<and> ctx_ok E ctx')
    \<and> (\<forall>k. 0 < k \<and> k \<le> length pt div 16 \<longrightarrow> ntz (of_nat k) < length (L_table ctx))"
  using ae_encrypt_ref [OF assms(1,2)] lookups_in_table [OF assms(1,3)] by blast

theorem ae_encrypt_is_reference_ocb_witness:
  "\<exists>ctx'. ae_encrypt swap_if_le (key_ctx swap_if_le) (Some (replicate 12 7)) [1, 2, 3] [] 0 False True
     = (ctx', ref_encrypt swap_if_le (replicate 12 7) [1, 2, 3], None, 19) \<and> ctx_ok swap_if_le ctx'"
  using ae_encrypt_is_reference_ocb [of swap_if_le "key_ctx swap_if_le" "replicate 12 7" "[1, 2, 3]"] by simp

text \<open>C13. Decryption authenticates: for texts shorter than 2 ^ 20 bytes (the bound the source sets for its table of L values)
  and whatever the two contexts have processed before, \<^verbatim>\<open>ae_decrypt\<close> accepts a ciphertext for a nonce and yields a plaintext
  exactly when \<^verbatim>\<open>ae_encrypt\<close> produces that ciphertext from that plaintext under that nonce; and a ciphertext that no such
  plaintext encrypts to is refused with -1.\<close>

theorem ae_decrypt_accepts_iff_encrypted:
  assumes "\<And>b. D (E b) = b" "\<And>b. E (D b) = b"
    and "ctx_ok E ctx" "ctx_ok E ctx2" "length nonce = 12" "16 \<le> length ct"
    and "length ct < 2 ^ 20 + 16" "length pt < 2 ^ 20"
  shows "((\<exists>ctx'. ae_decrypt E D ctx (Some nonce) ct [] 0 None True = (ctx', pt, int (length pt)))
      \<longleftrightarrow> (\<exists>ctx'. ae_encrypt E ctx2 (Some nonce) pt [] 0 False True = (ctx', ct, None, int (length pt) + 16)))
    \<and> ((\<nexists>q ctx'. length q < 2 ^ 20 \<and> ae_encrypt E ctx2 (Some nonce) q [] 0 False True = (ctx', ct, None, int (length q) + 16))
       \<longrightarrow> snd (snd (ae_decrypt E D ctx (Some nonce) ct [] 0 None True)) = - 1)"
proof -
  obtain q t where r: "ref_decrypt E D nonce (take (length ct - 16) ct) = (q, t)" by fastforce
  have "length (drop (length ct - 16) ct) = 16" using assms(6) by simp
  note iff = ref_decrypt_iff [OF assms(1,2) this, of nonce "take (length ct - 16) ct"]
  have refused: "snd (snd (ae_decrypt E D ctx (Some nonce) ct [] 0 None True)) = - 1" if "t \<noteq> drop (length ct - 16) ct"
    using ae_decrypt_ref [OF assms(3,5,6) r] that by auto
  have sealed: "\<exists>ctx'. length q < 2 ^ 20 \<and> ae_encrypt E ctx2 (Some nonce) q [] 0 False True = (ctx', ct, None, int (length q) + 16)"
    if "t = drop (length ct - 16) ct"
    using ae_encrypt_ref [OF assms(4,5), of q] iff [of q] r that assms(6,7) length_ref_encrypt [of E nonce q] by auto
  have "(\<exists>ctx'. ae_decrypt E D ctx (Some nonce) ct [] 0 None True = (ctx', pt, int (length pt)))
      \<longleftrightarrow> q = pt \<and> t = drop (length ct - 16) ct"
    using ae_decrypt_ref [OF assms(3,5,6) r] iff [of q] length_ref_encrypt [of E nonce q] r assms(6)
    by (auto split: if_splits)
  also have "\<dots> \<longleftrightarrow> ref_encrypt E nonce pt = ct"
    using iff [of pt] r by auto
  finally have "(\<exists>ctx'. ae_decrypt E D ctx (Some nonce) ct [] 0 None True = (ctx', pt, int (length pt)))
      \<longleftrightarrow> (\<exists>ctx'. ae_encrypt E ctx2 (Some nonce) pt [] 0 False True = (ctx', ct, None, int (length pt) + 16))"
    using ae_encrypt_ref [OF assms(4,5), of pt] by auto
  with refused sealed show ?thesis by blast
qed

theorem ae_decrypt_accepts_iff_encrypted_witness:
  "\<exists>ctx'. ae_decrypt swap_if_le swap_if_le (key_ctx swap_if_le) (Some (replicate 12 7))
     (ref_encrypt swap_if_le (replicate 12 7) [1, 2, 3, 4]) [] 0 None True = (ctx', [1, 2, 3, 4], 4)"
  using ae_decrypt_accepts_iff_encrypted [of swap_if_le swap_if_le "key_ctx swap_if_le" "key_ctx swap_if_le"
    "replicate 12 7" "ref_encrypt swap_if_le (replicate 12 7) [1, 2, 3, 4]" "[1, 2, 3, 4]"]
    ae_encrypt_ref [of swap_if_le "key_ctx swap_if_le" "replicate 12 7" "[1, 2, 3, 4]"]
  by (simp add: swap_if_le_involution length_ref_encrypt) blast

end
