(* ===== verification/Crypto_Session.thy ===== *)
theory Crypto_Session
  imports Base64 Ocb
begin

text \<open>
  The encrypted-session layer (src/mosh/src/crypto/crypto.cc and crypto.h): nonces, messages,
  the process-wide counter of \<^verbatim>\<open>unique\<close>, and \<^verbatim>\<open>Session\<close> with its \<^verbatim>\<open>encrypt\<close> and \<^verbatim>\<open>decrypt\<close>.

  A session's state is the OCB context and the count of encrypted blocks.  Its three aligned
  buffers are overwritten before every read, so only their length RECEIVE_MTU is part of the model.
  Both operations return the updated session beside the result, since a packet that fails the integrity
  check still leaves the context's nonce cache changed.  AES under the session's key
  is the pair of parameters \<open>E\<close>, \<open>D\<close> of theory Ocb.
\<close>

section \<open>Conversions between int and size_t\<close>

definition int_of_size :: "nat \<Rightarrow> int" where
  "int_of_size n = sint (of_nat n :: u32)"

definition size_of_int :: "int \<Rightarrow> nat" where
  "size_of_int i = unat (of_int i :: u64)"

lemma int_of_size_small [simp]: "n < 2 ^ 31 \<Longrightarrow> int_of_size n = int n"
  by (simp add: int_of_size_def signed_of_nat signed_take_bit_int_eq_self)

lemma size_of_int_small [simp]: "n < 2 ^ 31 \<Longrightarrow> size_of_int (int n) = n"
  by (simp add: size_of_int_def unsigned_of_nat take_bit_nat_eq_self)

section \<open>The counter\<close>

definition unique :: "u64 \<Rightarrow> u64 \<times> u64 result" where
  "unique counter =
     (let rv = counter; counter' = counter + 1
      in (counter', if counter' = 0 then Inl (CryptoException ''Counter wrapped'' True) else Inr rv))"

section \<open>Nonces and messages\<close>

type_synonym nonce = bytes

definition Nonce_val :: "u64 \<Rightarrow> nonce" where
  "Nonce_val v = replicate 4 0 @ htobe64 v"

definition nonce_val :: "nonce \<Rightarrow> u64" where
  "nonce_val n = be64toh (take 8 (drop 4 n))"

definition Nonce_bytes :: "bytes \<Rightarrow> nonce result" where
  "Nonce_bytes s =
     (if length s \<noteq> 8 then Inl (CryptoException ''Nonce representation must be 8 octets long.'' False)
      else Inr (replicate 4 0 @ s))"

definition cc_str :: "nonce \<Rightarrow> bytes" where
  "cc_str n = take 8 (drop 4 n)"

record message =
  msg_nonce :: nonce
  msg_text :: bytes

section \<open>Sessions\<close>

definition RECEIVE_MTU :: nat where
  "RECEIVE_MTU = 2048"

record session =
  ses_ctx :: ae_ctx
  blocks_encrypted :: u64

definition Session :: "(block \<Rightarrow> block) \<Rightarrow> ae_ctx \<Rightarrow> session result" where
  "Session E buf =
     (case ae_init E buf 12 of
        None \<Rightarrow> Inl (CryptoException ''Could not initialize AES-OCB context.'' False)
      | Some c \<Rightarrow> Inr \<lparr>ses_ctx = c, blocks_encrypted = 0\<rparr>)"

definition blocks_used :: "nat \<Rightarrow> u64" where
  "blocks_used pt_len = of_nat (drop_bit 4 pt_len) + (if pt_len AND 0xF \<noteq> 0 then 1 else 0)"

definition encrypt :: "(block \<Rightarrow> block) \<Rightarrow> session \<Rightarrow> message \<Rightarrow> session \<times> bytes result" where
  "encrypt E s plaintext =
     (let pt_len = length (msg_text plaintext); ciphertext_len = int_of_size (pt_len + 16)
      in if \<not> size_of_int ciphertext_len \<le> RECEIVE_MTU then (s, Inl AssertFailed)
         else if \<not> pt_len \<le> RECEIVE_MTU then (s, Inl AssertFailed)
         else
           (case ae_encrypt E (ses_ctx s) (Some (msg_nonce plaintext)) (msg_text plaintext) [] 0 False True of
              (c, text, _, rv) \<Rightarrow>
                let s1 = s\<lparr>ses_ctx := c\<rparr>
                in if ciphertext_len \<noteq> rv then (s1, Inl (CryptoException ''ae_encrypt() returned error.'' False))
                   else
                     (let blocks = blocks_encrypted s1 + blocks_used pt_len;
                          s2 = s1\<lparr>blocks_encrypted := blocks\<rparr>
                      in if drop_bit 47 blocks \<noteq> 0
                         then (s2, Inl (CryptoException ''Encrypted 2^47 blocks.'' True))
                         else (s2, Inr (cc_str (msg_nonce plaintext) @ take (nat ciphertext_len) text)))))"

definition decrypt :: "(block \<Rightarrow> block) \<Rightarrow> (block \<Rightarrow> block) \<Rightarrow> session \<Rightarrow> bytes \<Rightarrow> session \<times> message result" where
  "decrypt E D s str =
     (if length str < 24 then (s, Inl (CryptoException ''Ciphertext must contain nonce and tag.'' False))
      else
        (let body_len = int_of_size (length str - 8); pt_len = body_len - 16
         in if pt_len < 0 then (s, Inl (ProcessExit 1))
            else if \<not> size_of_int body_len \<le> RECEIVE_MTU then (s, Inl AssertFailed)
            else if \<not> size_of_int pt_len \<le> RECEIVE_MTU then (s, Inl AssertFailed)
            else
              (case Nonce_bytes (take 8 str) of
                 Inl e \<Rightarrow> (s, Inl e)
               | Inr nonce \<Rightarrow>
                   (case ae_decrypt E D (ses_ctx s) (Some nonce) (take (nat body_len) (drop 8 str)) [] 0 None True of
                      (c, pt, rv) \<Rightarrow>
                        let s1 = s\<lparr>ses_ctx := c\<rparr>
                        in if pt_len \<noteq> rv
                           then (s1, Inl (CryptoException ''Packet failed integrity check.'' False))
                           else (s1, Inr \<lparr>msg_nonce = nonce, msg_text = take (nat pt_len) pt\<rparr>)))))"

section \<open>Invariant and behaviour\<close>

definition session_ok :: "(block \<Rightarrow> block) \<Rightarrow> session \<Rightarrow> bool" where
  "session_ok E s \<longleftrightarrow> ctx_ok E (ses_ctx s)"

definition nonce_ok :: "nonce \<Rightarrow> bool" where
  "nonce_ok n \<longleftrightarrow> length n = 12 \<and> take 4 n = replicate 4 0"

definition blocks_of :: "nat \<Rightarrow> nat" where
  "blocks_of pt_len = (pt_len + 15) div 16"

text \<open>What a message looks like on the wire under a key.\<close>

definition sealed :: "(block \<Rightarrow> block) \<Rightarrow> message \<Rightarrow> bytes" where
  "sealed E m = cc_str (msg_nonce m) @ ref_encrypt E (msg_nonce m) (msg_text m)"

lemma Session_ok: "Session E buf = Inr s \<Longrightarrow> session_ok E s \<and> blocks_encrypted s = 0"
  by (auto simp: Session_def session_ok_def ae_init_ok split: option.splits)

lemma Session_total: "\<exists>s. Session E buf = Inr s"
  by (simp add: Session_def ae_init_def Let_def)

lemma nonce_ok_Nonce_val [simp]: "nonce_ok (Nonce_val v)"
  by (simp add: nonce_ok_def Nonce_val_def)

lemma nonce_val_Nonce_val [simp]: "nonce_val (Nonce_val v) = v"
  using be64toh_htobe64 [of v "[]"] by (simp add: nonce_val_def Nonce_val_def)

lemma nonce_ok_iff: "nonce_ok n \<longleftrightarrow> (\<exists>v. n = Nonce_val v)"
proof
  assume *: "nonce_ok n"
  then have "length (drop 4 n) = 8" by (simp add: nonce_ok_def)
  then have "n = replicate 4 0 @ htobe64 (be64toh (drop 4 n))"
    using * htobe64_be64toh [of "drop 4 n"] append_take_drop_id [of 4 n] by (metis nonce_ok_def)
  then have "n = Nonce_val (be64toh (drop 4 n))"
    by (simp add: Nonce_val_def)
  then show "\<exists>v. n = Nonce_val v" by blast
qed auto

lemma Nonce_bytes_cc_str: "nonce_ok n \<Longrightarrow> Nonce_bytes (cc_str n) = Inr n"
  by (auto simp: nonce_ok_iff Nonce_bytes_def cc_str_def Nonce_val_def)

lemma length_cc_str: "nonce_ok n \<Longrightarrow> length (cc_str n) = 8"
  by (simp add: nonce_ok_def cc_str_def)

lemma div_round_up: "(n + 15) div 16 = n div 16 + (if n mod 16 \<noteq> 0 then 1 else 0)" for n :: nat
proof -
  define q where "q = n div 16"
  define r where "r = n mod 16"
  have n: "n = r + 16 * q" "r < 16" by (simp_all add: q_def r_def)
  have "(n + 15) div 16 = ((r + 15) + 16 * q) div 16" unfolding n(1) by (simp add: ac_simps)
  also have "\<dots> = q + (r + 15) div 16" by (simp only: div_mult_self2)
  also have "(r + 15) div 16 = (if r \<noteq> 0 then 1 else 0)"
    using n(2) by (cases r) simp_all
  finally show ?thesis by (simp add: q_def r_def)
qed
lemma blocks_used_eq: "blocks_used n = of_nat (blocks_of n)"
proof -
  have mask: "n AND 0xF = n mod 16"
    using take_bit_eq_mask [of 4 n] by (simp add: take_bit_eq_mod mask_eq_exp_minus_1)
  have "drop_bit 4 n + (if n mod 16 \<noteq> 0 then 1 else 0) = blocks_of n"
    by (simp add: blocks_of_def drop_bit_eq_div div_round_up)
  from arg_cong [OF this, of "of_nat :: nat \<Rightarrow> u64"] show ?thesis
    by (simp add: blocks_used_def mask split: if_splits)
qed

lemma encrypt_ok: "session_ok E s \<Longrightarrow> length (msg_nonce m) = 12 \<Longrightarrow> session_ok E (fst (encrypt E s m))"
  using ae_encrypt_ref [of E "ses_ctx s" "msg_nonce m" "msg_text m"]
  by (auto simp: session_ok_def encrypt_def Let_def)

lemma encrypt_Inr_iff:
  assumes "session_ok E s" "length (msg_nonce m) = 12"
  shows "snd (encrypt E s m) = Inr str \<longleftrightarrow>
    length (msg_text m) + 16 \<le> RECEIVE_MTU
    \<and> drop_bit 47 (blocks_encrypted s + of_nat (blocks_of (length (msg_text m)))) = 0
    \<and> str = sealed E m"
proof (cases "length (msg_text m) \<le> RECEIVE_MTU")
  case True
  then have small: "length (msg_text m) + 16 < 2 ^ 31" by (simp add: RECEIVE_MTU_def)
  then have "int_of_size (length (msg_text m) + 16) = int (length (msg_text m)) + 16"
    "size_of_int (int (length (msg_text m)) + 16) = length (msg_text m) + 16"
    using int_of_size_small [OF small] size_of_int_small [OF small] by simp_all
  moreover obtain c where "ae_encrypt E (ses_ctx s) (Some (msg_nonce m)) (msg_text m) [] 0 False True
      = (c, ref_encrypt E (msg_nonce m) (msg_text m), None, int (length (msg_text m)) + 16)"
    using ae_encrypt_ref assms unfolding session_ok_def by blast
  moreover have "take (nat (int (length (msg_text m)) + 16)) (ref_encrypt E (msg_nonce m) (msg_text m))
      = ref_encrypt E (msg_nonce m) (msg_text m)"
    by (simp add: length_ref_encrypt nat_add_distrib)
  ultimately show ?thesis
    using True by (auto simp: encrypt_def Let_def sealed_def blocks_used_eq)
next
  case False
  then show ?thesis by (auto simp: encrypt_def Let_def)
qed

text \<open>A datagram as \<^verbatim>\<open>decrypt\<close> takes it apart: eight bytes of nonce, then body and tag.\<close>

definition wire_nonce :: "bytes \<Rightarrow> nonce" where
  "wire_nonce str = replicate 4 0 @ take 8 str"

lemma wire_nonce_ok: "8 \<le> length str \<Longrightarrow> nonce_ok (wire_nonce str)"
  by (simp add: wire_nonce_def nonce_ok_def)

lemma sealed_iff:
  assumes "nonce_ok (msg_nonce m)"
  shows "str = sealed E m \<longleftrightarrow> 8 \<le> length str \<and> msg_nonce m = wire_nonce str
    \<and> ref_encrypt E (wire_nonce str) (msg_text m) = drop 8 str"
proof -
  have len: "length (cc_str (msg_nonce m)) = 8" using assms by (rule length_cc_str)
  have "str = sealed E m \<longleftrightarrow> 8 \<le> length str \<and> take 8 str = cc_str (msg_nonce m)
      \<and> drop 8 str = ref_encrypt E (msg_nonce m) (msg_text m)"
    unfolding sealed_def append_eq_conv_conj
    by (metis append_eq_conv_conj append_take_drop_id len le_add1 length_append)
  moreover have "take 8 str = cc_str (msg_nonce m) \<longleftrightarrow> msg_nonce m = wire_nonce str" if "8 \<le> length str"
    using assms that by (auto simp: wire_nonce_def nonce_ok_iff cc_str_def Nonce_val_def)
  ultimately show ?thesis by metis
qed

lemma decrypt_too_short:
  "length str < 24 \<Longrightarrow> decrypt E D s str = (s, Inl (CryptoException ''Ciphertext must contain nonce and tag.'' False))"
  by (simp add: decrypt_def)

lemma decrypt_too_long:
  assumes "8 + RECEIVE_MTU < length str" "length str < 2 ^ 31"
  shows "decrypt E D s str = (s, Inl AssertFailed)"
proof -
  define b where "b = length str - 8"
  have b: "b < 2 ^ 31" "RECEIVE_MTU < b" "\<not> length str < 24"
    using assms by (auto simp: b_def RECEIVE_MTU_def)
  then have "int_of_size b = int b" "size_of_int (int b) = b" by simp_all
  with b show ?thesis by (simp add: decrypt_def Let_def RECEIVE_MTU_def flip: b_def)
qed

lemma decrypt_fits:
  assumes ok: "session_ok E s" and len: "24 \<le> length str" "length str \<le> 8 + RECEIVE_MTU"
    and r: "ref_decrypt E D (wire_nonce str) (take (length str - 24) (drop 8 str)) = (q, t)"
  shows "\<exists>c. ctx_ok E c \<and> decrypt E D s str = (s\<lparr>ses_ctx := c\<rparr>,
      if drop (length str - 16) str = t
      then Inr \<lparr>msg_nonce = wire_nonce str, msg_text = take (length str - 24) q\<rparr>
      else Inl (CryptoException ''Packet failed integrity check.'' False))"
proof -
  define b where "b = length str - 8"
  define k where "k = length str - 24"
  have b: "b < 2 ^ 31" "k < 2 ^ 31" "b \<le> RECEIVE_MTU" "k \<le> RECEIVE_MTU" "\<not> length str < 24" "int b - 16 = int k"
    "length (drop 8 str) = b" "length (drop 8 str) - 16 = k" "16 \<le> length (drop 8 str)"
    "drop k (drop 8 str) = drop (length str - 16) str"
    using len by (auto simp: b_def k_def RECEIVE_MTU_def)
  have conv: "int_of_size b = int b" "size_of_int (int b) = b" "size_of_int (int k) = k"
    using b(1,2) by simp_all
  have n: "Nonce_bytes (take 8 str) = Inr (wire_nonce str)"
    using len by (simp add: Nonce_bytes_def wire_nonce_def)
  have "length (wire_nonce str) = 12" using len by (simp add: wire_nonce_def)
  from ae_decrypt_ref [OF ok [unfolded session_ok_def] this b(9), of D q t] r b obtain c where
    "ctx_ok E c" "ae_decrypt E D (ses_ctx s) (Some (wire_nonce str)) (drop 8 str) [] 0 None True
      = (c, q, if drop (length str - 16) str = t then int k else - 1)"
    unfolding k_def [symmetric] by auto
  moreover have "take b (drop 8 str) = drop 8 str" using b by simp
  ultimately show ?thesis
    using b(3-6) conv n
    by (intro exI [of _ c]) (simp add: decrypt_def Let_def flip: b_def k_def)
qed

lemma decrypt_ok:
  assumes "session_ok E s" "length str < 2 ^ 31"
  shows "session_ok E (fst (decrypt E D s str))"
proof -
  consider "length str < 24" | "8 + RECEIVE_MTU < length str" | "24 \<le> length str" "length str \<le> 8 + RECEIVE_MTU"
    by linarith
  then show ?thesis
  proof cases
    case 3
    obtain q t where "ref_decrypt E D (wire_nonce str) (take (length str - 24) (drop 8 str)) = (q, t)"
      by fastforce
    from decrypt_fits [OF assms(1) 3 this] show ?thesis by (auto simp: session_ok_def)
  qed (use assms in \<open>simp_all add: decrypt_too_short decrypt_too_long\<close>)
qed

lemma decrypt_blocks [simp]: "blocks_encrypted (fst (decrypt E D s str)) = blocks_encrypted s"
  by (simp add: decrypt_def Let_def split: sum.splits prod.splits)

text \<open>Two sessions render the same service when every message is sealed alike and every datagram opened alike, refusals and
  exceptions included.  Under one key that needs the same count of encrypted blocks and nothing else: the rest of the
  context is set afresh for each message or caches what the nonce determines.\<close>

definition same_service :: "(block \<Rightarrow> block) \<Rightarrow> (block \<Rightarrow> block) \<Rightarrow> session \<Rightarrow> session \<Rightarrow> bool" where
  "same_service E D s s' \<longleftrightarrow> blocks_encrypted s = blocks_encrypted s'
     \<and> (\<forall>m. nonce_ok (msg_nonce m) \<longrightarrow> snd (encrypt E s m) = snd (encrypt E s' m))
     \<and> (\<forall>str. length str < 2 ^ 31 \<longrightarrow> snd (decrypt E D s str) = snd (decrypt E D s' str))"

lemma encrypt_cong:
  assumes "session_ok E s" "session_ok E s'" "blocks_encrypted s = blocks_encrypted s'" "length (msg_nonce m) = 12"
  shows "snd (encrypt E s m) = snd (encrypt E s' m)"
  using ae_encrypt_ref [of E "ses_ctx s" "msg_nonce m" "msg_text m"] ae_encrypt_ref [of E "ses_ctx s'" "msg_nonce m" "msg_text m"] assms
  by (auto simp: session_ok_def encrypt_def Let_def)

lemma decrypt_cong:
  assumes "session_ok E s" "session_ok E s'" "length str < 2 ^ 31"
  shows "snd (decrypt E D s str) = snd (decrypt E D s' str)"
proof -
  consider "length str < 24" | "8 + RECEIVE_MTU < length str" | "24 \<le> length str" "length str \<le> 8 + RECEIVE_MTU"
    by linarith
  then show ?thesis
  proof cases
    case 3
    obtain q t where "ref_decrypt E D (wire_nonce str) (take (length str - 24) (drop 8 str)) = (q, t)"
      by fastforce
    from decrypt_fits [OF assms(1) 3 this] decrypt_fits [OF assms(2) 3 this] show ?thesis by auto
  qed (use assms in \<open>simp_all add: decrypt_too_short decrypt_too_long\<close>)
qed

lemma same_serviceI:
  assumes "session_ok E s" "session_ok E s'" "blocks_encrypted s = blocks_encrypted s'"
  shows "same_service E D s s'"
  using assms encrypt_cong [OF assms] decrypt_cong [OF assms(1,2)] by (simp add: same_service_def nonce_ok_def)

text \<open>On datagrams of any length below 2 GiB the conversions are exact, and \<^verbatim>\<open>decrypt\<close> accepts the sealed messages and
  nothing else.\<close>

lemma decrypt_Inr_iff:
  assumes ok: "session_ok E s" and len: "length str < 2 ^ 31"
    and inv: "\<And>b. D (E b) = b" "\<And>b. E (D b) = b"
  shows "snd (decrypt E D s str) = Inr m \<longleftrightarrow>
    nonce_ok (msg_nonce m) \<and> length (msg_text m) + 16 \<le> RECEIVE_MTU \<and> str = sealed E m"
    (is "_ \<longleftrightarrow> ?S")
proof -
  have lens: "length str = length (msg_text m) + 24" if ?S
    using that length_ref_encrypt [of E "msg_nonce m" "msg_text m"] length_cc_str [of "msg_nonce m"]
    by (auto simp: sealed_def)
  consider "length str < 24" | "8 + RECEIVE_MTU < length str" | "24 \<le> length str" "length str \<le> 8 + RECEIVE_MTU"
    by linarith
  then show ?thesis
  proof cases
    case 1
    then show ?thesis using lens by (auto simp: decrypt_too_short)
  next
    case 2
    then show ?thesis using lens by (auto simp: decrypt_too_long [OF _ len])
  next
    case 3
    define n where "n = wire_nonce str"
    define k where "k = length str - 24"
    define body where "body = take k (drop 8 str)"
    define tag where "tag = drop (length str - 16) str"
    have split: "drop 8 str = body @ tag" "length tag = 16" and n: "nonce_ok n"
      using 3 append_take_drop_id [of k "drop 8 str"]
      by (auto simp: body_def tag_def k_def n_def intro: wire_nonce_ok)
    note iff = ref_decrypt_iff [OF inv split(2), of n body]
    obtain q t where r: "ref_decrypt E D n body = (q, t)" by fastforce
    have "snd (decrypt E D s str) = Inr m \<longleftrightarrow> tag = t \<and> m = \<lparr>msg_nonce = n, msg_text = take k q\<rparr>"
      using decrypt_fits [OF ok 3, of D q t] r by (auto simp: n_def body_def tag_def k_def split: if_splits)
    moreover have "length p = k" if "ref_encrypt E n p = body @ tag" for p
      using length_ref_encrypt [of E n p] that split(2) 3 by (simp add: k_def body_def)
    moreover have "?S \<longleftrightarrow> msg_nonce m = n \<and> ref_encrypt E n (msg_text m) = body @ tag"
      using sealed_iff [of m str E] n lens 3 split(1) calculation(2) by (auto simp: n_def k_def)
    ultimately show ?thesis
      using iff [of q] iff [of "msg_text m"] r by (cases m) auto
  qed
qed

section \<open>The channel interface\<close>

text \<open>What the datagram layer relies on: two endpoints of one key, each sealing and unsealing in any order.  A message
  has one form on the wire, every endpoint accepts that form and accepts nothing else.\<close>

datatype session_op = Encrypt message | Decrypt bytes

fun op_ok :: "session_op \<Rightarrow> bool" where
  "op_ok (Encrypt m) \<longleftrightarrow> nonce_ok (msg_nonce m)"
| "op_ok (Decrypt str) \<longleftrightarrow> length str < 2 ^ 31"

locale sealed_channel =
  fixes seal :: "'s \<Rightarrow> message \<Rightarrow> 's \<times> bytes result"
    and unseal :: "'s \<Rightarrow> bytes \<Rightarrow> 's \<times> message result"
    and ok :: "'s \<Rightarrow> bool"
    and wire :: "message \<Rightarrow> bytes"
  assumes seal_keeps: "ok s \<Longrightarrow> nonce_ok (msg_nonce m) \<Longrightarrow> ok (fst (seal s m))"
    and unseal_keeps: "ok s \<Longrightarrow> length str < 2 ^ 31 \<Longrightarrow> ok (fst (unseal s str))"
    and seal_wire: "ok s \<Longrightarrow> nonce_ok (msg_nonce m) \<Longrightarrow> snd (seal s m) = Inr str
      \<Longrightarrow> str = wire m \<and> length (msg_text m) + 16 \<le> RECEIVE_MTU"
    and unseal_iff: "ok s \<Longrightarrow> length str < 2 ^ 31 \<Longrightarrow> snd (unseal s str) = Inr m \<longleftrightarrow>
      nonce_ok (msg_nonce m) \<and> length (msg_text m) + 16 \<le> RECEIVE_MTU \<and> str = wire m"
    and length_wire: "nonce_ok (msg_nonce m) \<Longrightarrow> length (wire m) = length (msg_text m) + 24"
begin

fun run :: "'s \<Rightarrow> session_op list \<Rightarrow> 's" where
  "run s [] = s"
| "run s (Encrypt m # ops) = run (fst (seal s m)) ops"
| "run s (Decrypt str # ops) = run (fst (unseal s str)) ops"

lemma run_keeps: "ok s \<Longrightarrow> list_all op_ok ops \<Longrightarrow> ok (run s ops)"
  by (induction s ops rule: run.induct) (auto simp: seal_keeps unseal_keeps)

lemma delivered:
  assumes "ok s" "ok r" "nonce_ok (msg_nonce m)" "snd (seal s m) = Inr str"
  shows "snd (unseal r str) = Inr m"
proof -
  from seal_wire [OF assms(1,3,4)] have *: "str = wire m" "length (msg_text m) + 16 \<le> RECEIVE_MTU" by auto
  then have "length str < 2 ^ 31" using length_wire [OF assms(3)] by (simp add: RECEIVE_MTU_def)
  with unseal_iff [OF assms(2) this, of m] * assms(3) show ?thesis by blast
qed

lemma accepted_once_accepted_always:
  assumes "ok s" "ok r" "length str < 2 ^ 31" "snd (unseal s str) = Inr m"
  shows "snd (unseal r str) = Inr m"
  using assms unseal_iff by auto

end

interpretation aes_ocb: sealed_channel "encrypt E" "\<lambda>s str. decrypt E D s str"
    "\<lambda>s. session_ok E s \<and> (\<forall>b. D (E b) = b) \<and> (\<forall>b. E (D b) = b)" "sealed E"
  for E D
proof unfold_locales
  fix m :: message assume "nonce_ok (msg_nonce m)"
  then show "length (sealed E m) = length (msg_text m) + 24"
    by (simp add: sealed_def length_cc_str length_ref_encrypt)
qed (auto simp: encrypt_ok decrypt_ok decrypt_Inr_iff encrypt_Inr_iff nonce_ok_def)

section \<open>Properties of sessions\<close>

lemma drop_bit_47_zero: "drop_bit 47 (w :: u64) = 0 \<longleftrightarrow> unat w < 2 ^ 47"
proof -
  have "drop_bit 47 w = 0 \<longleftrightarrow> unat (drop_bit 47 w) = 0" by (simp only: unat_eq_zero)
  also have "unat (drop_bit 47 w) = unat w div 2 ^ 47" by (subst unat_drop_bit_eq) (rule drop_bit_eq_div)
  finally show ?thesis by (simp add: div_eq_0_iff)
qed

lemma unat_of_nat_u64: "n < 2 ^ 64 \<Longrightarrow> unat (of_nat n :: u64) = n"
  by (simp add: unsigned_of_nat take_bit_nat_eq_self)

lemma fresh_encrypt_iff:
  assumes "Session E buf = Inr s0" "nonce_ok (msg_nonce m)"
  shows "snd (encrypt E s0 m) = Inr str \<longleftrightarrow> length (msg_text m) + 16 \<le> RECEIVE_MTU \<and> str = sealed E m"
proof -
  have budget: "drop_bit 47 (of_nat (blocks_of (length (msg_text m))) :: u64) = 0"
    if "length (msg_text m) + 16 \<le> RECEIVE_MTU"
  proof -
    have "blocks_of (length (msg_text m)) < 2 ^ 47"
      using that by (simp add: blocks_of_def RECEIVE_MTU_def)
    then show ?thesis by (simp add: drop_bit_47_zero unat_of_nat_u64)
  qed
  then show ?thesis
    using encrypt_Inr_iff [of E s0 m str] Session_ok [OF assms(1)] assms(2) by (auto simp: nonce_ok_def)
qed

text \<open>C9. Confidential channel, end to end: a session that was set up for a key and has since encrypted and decrypted any
  number of datagrams, genuine or not, accepts a datagram as a message exactly when a session of the same key
  produces that datagram for that message.  Tampering, truncation and corruption of the datagram are all refused.\<close>

theorem decrypt_accepts_exactly_encrypt:
  assumes "\<forall>b. D (E b) = b" "\<forall>b. E (D b) = b"
    and "Session E buf = Inr r0" "list_all op_ok ops" "Session E buf2 = Inr s0" "length str < 2 ^ 31"
  shows "snd (decrypt E D (aes_ocb.run E D r0 ops) str) = Inr m
    \<longleftrightarrow> nonce_ok (msg_nonce m) \<and> snd (encrypt E s0 m) = Inr str"
proof -
  have "session_ok E (aes_ocb.run E D r0 ops)"
    using aes_ocb.run_keeps [of E r0 D ops] Session_ok assms by blast
  with assms show ?thesis
    using decrypt_Inr_iff [of E _ str D m] fresh_encrypt_iff [OF assms(5), of m str] by blast
qed

theorem decrypt_accepts_exactly_encrypt_witness:
  "\<exists>r0 s0. Session swap_if_le zero_ctx = Inr r0 \<and> Session swap_if_le zero_ctx = Inr s0 \<and>
     snd (decrypt swap_if_le swap_if_le
            (aes_ocb.run swap_if_le swap_if_le r0 [Decrypt [1, 2], Encrypt \<lparr>msg_nonce = Nonce_val 4, msg_text = [5]\<rparr>])
            (sealed swap_if_le \<lparr>msg_nonce = Nonce_val 9, msg_text = [1, 2, 3]\<rparr>))
       = Inr \<lparr>msg_nonce = Nonce_val 9, msg_text = [1, 2, 3]\<rparr>"
proof -
  let ?m = "\<lparr>msg_nonce = Nonce_val 9, msg_text = [1, 2, 3]\<rparr>"
  obtain r0 where r0: "Session swap_if_le zero_ctx = Inr r0" using Session_total by blast
  have "length (sealed swap_if_le ?m) = 27" using aes_ocb.length_wire [of ?m] by simp
  moreover have "snd (encrypt swap_if_le r0 ?m) = Inr (sealed swap_if_le ?m)"
    using fresh_encrypt_iff [OF r0, of ?m] by (simp add: RECEIVE_MTU_def)
  ultimately show ?thesis
    using decrypt_accepts_exactly_encrypt [of swap_if_le swap_if_le zero_ctx r0
        "[Decrypt [1, 2], Encrypt \<lparr>msg_nonce = Nonce_val 4, msg_text = [5]\<rparr>]" zero_ctx r0 "sealed swap_if_le ?m" ?m] r0
    by (simp add: swap_if_le_involution)
qed

text \<open>Encrypting a list of messages with one session, stopping at the first exception.\<close>

fun encrypt_all :: "(block \<Rightarrow> block) \<Rightarrow> session \<Rightarrow> message list \<Rightarrow> session \<times> bytes list result" where
  "encrypt_all E s [] = (s, Inr [])"
| "encrypt_all E s (m # ms) =
     (case encrypt E s m of
        (s1, Inl e) \<Rightarrow> (s1, Inl e)
      | (s1, Inr str) \<Rightarrow>
          (case encrypt_all E s1 ms of (s2, Inl e) \<Rightarrow> (s2, Inl e) | (s2, Inr strs) \<Rightarrow> (s2, Inr (str # strs))))"

lemma encrypt_blocks:
  assumes "snd (encrypt E s m) = Inr str"
  shows "blocks_encrypted (fst (encrypt E s m)) = blocks_encrypted s + of_nat (blocks_of (length (msg_text m)))
    \<and> drop_bit 47 (blocks_encrypted s + of_nat (blocks_of (length (msg_text m)))) = 0
    \<and> length (msg_text m) \<le> RECEIVE_MTU"
  using assms by (auto simp: encrypt_def Let_def blocks_used_eq split: if_splits prod.splits)

text \<open>C29. The key's block budget: as long as every encryption of a sequence of messages succeeds, the session has
  encrypted fewer than 2^47 blocks in all, and its 64-bit count is the exact number, without wrap-around; the
  message that would exceed the budget raises the fatal exception.\<close>

theorem encrypt_all_within_budget:
  assumes "snd (encrypt_all E s ms) = Inr strs" "unat (blocks_encrypted s) < 2 ^ 47"
  shows "unat (blocks_encrypted (fst (encrypt_all E s ms)))
      = unat (blocks_encrypted s) + (\<Sum>m\<leftarrow>ms. blocks_of (length (msg_text m)))
    \<and> unat (blocks_encrypted s) + (\<Sum>m\<leftarrow>ms. blocks_of (length (msg_text m))) < 2 ^ 47"
  using assms
proof (induction E s ms arbitrary: strs rule: encrypt_all.induct)
  case (1 E s)
  then show ?case by simp
next
  case (2 E s m ms)
  obtain s1 str where s1: "encrypt E s m = (s1, Inr str)"
    using 2(2) by (auto split: prod.splits sum.splits)
  note b = encrypt_blocks [of E s m str, unfolded s1, simplified]
  have "unat (blocks_encrypted s1) = unat (blocks_encrypted s) + blocks_of (length (msg_text m))"
  proof -
    have small: "blocks_of (length (msg_text m)) \<le> 129"
      using b by (auto simp: blocks_of_def RECEIVE_MTU_def)
    then have "unat (of_nat (blocks_of (length (msg_text m))) :: u64) = blocks_of (length (msg_text m))"
      by (intro unat_of_nat_u64) simp
    with small 2(3) b show ?thesis by (simp add: unat_word_ariths(1))
  qed
  moreover have "unat (blocks_encrypted s1) < 2 ^ 47" using b by (simp add: drop_bit_47_zero)
  moreover obtain strs' where "snd (encrypt_all E s1 ms) = Inr strs'"
    using 2(2) s1 by (auto split: prod.splits sum.splits)
  moreover have "fst (encrypt_all E s (m # ms)) = fst (encrypt_all E s1 ms)"
    using s1 by (simp split: prod.splits sum.splits)
  ultimately show ?case using 2(1) [OF s1 [symmetric] refl] by (simp add: add.assoc)
qed

theorem encrypt_all_within_budget_witness:
  "\<exists>s. Session swap_if_le zero_ctx = Inr s
    \<and> unat (blocks_encrypted (fst (encrypt_all swap_if_le s [\<lparr>msg_nonce = Nonce_val 0, msg_text = replicate 20 1\<rparr>]))) = 2"
proof -
  let ?m = "\<lparr>msg_nonce = Nonce_val 0, msg_text = replicate 20 1\<rparr>"
  obtain s where s: "Session swap_if_le zero_ctx = Inr s" using Session_total by blast
  then have "snd (encrypt swap_if_le s ?m) = Inr (sealed swap_if_le ?m)"
    using fresh_encrypt_iff [OF s, of ?m] by (simp add: RECEIVE_MTU_def)
  then have "snd (encrypt_all swap_if_le s [?m]) = Inr [sealed swap_if_le ?m]"
    by (cases "encrypt swap_if_le s ?m") simp
  with encrypt_all_within_budget [of swap_if_le s "[?m]"] Session_ok [OF s] s show ?thesis
    by (auto simp: blocks_of_def)
qed

end
