(* ===== verification/Fragments.thy ===== *)
theory Fragments
  imports Byte_Order
begin

text \<open>
  Instructions, their compression, and fragmentation to the MTU and reassembly
  (src/mosh/src/network/compressor.cc, transportfragment.h, transportfragment.cc;
  src/mosh/src/protobufs/transportinstruction.proto).

  zlib and the generated protobuf code are parameters: \<open>z\<close> and \<open>uz\<close> are zlib's compress and uncompress with the
  size of the output buffer (None stands for any result other than Z_OK), \<open>ser\<close> and \<open>parse\<close> are
  SerializeAsString and ParseFromString.  An instruction is the tuple of its fields as the getters return them.
\<close>

section \<open>Instructions\<close>

record instruction =
  protocol_version :: u32
  old_num :: u64
  new_num :: u64
  ack_num :: u64
  throwaway_num :: u64
  inst_diff :: bytes
  chaff :: bytes

section \<open>Compression\<close>

definition BUFFER_SIZE :: nat where
  "BUFFER_SIZE = 2048 * 2048"

definition dos_assert :: "bool \<Rightarrow> unit result" where
  "dos_assert b = assertE b (CryptoException ''Illegal counterparty input (possible denial of service)'' False)"

definition compress_str :: "(nat \<Rightarrow> bytes \<Rightarrow> bytes option) \<Rightarrow> bytes \<Rightarrow> bytes result" where
  "compress_str z input = bindE (dos_assert (z BUFFER_SIZE input \<noteq> None)) (\<lambda>_. Inr (the (z BUFFER_SIZE input)))"

definition uncompress_str :: "(nat \<Rightarrow> bytes \<Rightarrow> bytes option) \<Rightarrow> bytes \<Rightarrow> bytes result" where
  "uncompress_str uz input = bindE (dos_assert (uz BUFFER_SIZE input \<noteq> None)) (\<lambda>_. Inr (the (uz BUFFER_SIZE input)))"

section \<open>Fragments on the wire\<close>

record fragment =
  frag_id :: u64
  fragment_num :: u16
  final :: bool
  initialized :: bool
  contents :: bytes

definition frag_header_len :: nat where
  "frag_header_len = 8 + 2"

definition no_fragment :: fragment where
  "no_fragment = \<lparr>frag_id = - 1, fragment_num = - 1, final = False, initialized = False, contents = []\<rparr>"

definition Fragment :: "u64 \<Rightarrow> u16 \<Rightarrow> bool \<Rightarrow> bytes \<Rightarrow> fragment" where
  "Fragment s_id s_fragment_num s_final s_contents =
     \<lparr>frag_id = s_id, fragment_num = s_fragment_num, final = s_final, initialized = True, contents = s_contents\<rparr>"

definition tostring :: "fragment \<Rightarrow> bytes result" where
  "tostring f =
     bindE (assertE (initialized f) AssertFailed) (\<lambda>_.
     let ret = network_order_string64 (frag_id f)
     in bindE (assertE (fragment_num f AND 0x8000 = 0) FatalAssert) (\<lambda>_.
        let combined_fragment_num = push_bit 15 (of_bool (final f)) OR fragment_num f;
            ret' = ret @ network_order_string16 combined_fragment_num
        in bindE (assertE (length ret' = frag_header_len) AssertFailed) (\<lambda>_. Inr (ret' @ contents f))))"

definition Fragment_of_string :: "bytes \<Rightarrow> fragment result" where
  "Fragment_of_string x =
     bindE (assertE (length x \<ge> frag_header_len) FatalAssert) (\<lambda>_.
     let data16 = be16toh (take 2 (drop 8 x))
     in Inr \<lparr>frag_id = be64toh (take 8 x), fragment_num = data16 AND 0x7FFF,
             final = (drop_bit 15 (data16 AND 0x8000) \<noteq> 0), initialized = True,
             contents = drop frag_header_len x\<rparr>)"

section \<open>Reassembly\<close>

record assembly =
  fragments :: "fragment list"
  current_id :: u64
  fragments_arrived :: int
  fragments_total :: int

definition FragmentAssembly :: assembly where
  "FragmentAssembly = \<lparr>fragments = [], current_id = - 1, fragments_arrived = 0, fragments_total = - 1\<rparr>"

definition resize :: "nat \<Rightarrow> fragment list \<Rightarrow> fragment list" where
  "resize n fs = take n fs @ replicate (n - length fs) no_fragment"

definition store_fragment :: "assembly \<Rightarrow> fragment \<Rightarrow> assembly result" where
  "store_fragment a frag =
     (let k = unat (fragment_num frag) in
      if current_id a \<noteq> frag_id frag
      then Inr (a\<lparr>fragments := (resize (k + 1) [])[k := frag], fragments_arrived := 1, fragments_total := - 1,
                  current_id := frag_id frag\<rparr>)
      else if length (fragments a) > k \<and> initialized (fragments a ! k)
      then bindE (assertE (fragments a ! k = frag) AssertFailed) (\<lambda>_. Inr a)
      else
        (let fs = (if length (fragments a) < k + 1 then resize (k + 1) (fragments a) else fragments a)
         in Inr (a\<lparr>fragments := fs[k := frag], fragments_arrived := fragments_arrived a + 1\<rparr>)))"

definition add_fragment :: "assembly \<Rightarrow> fragment \<Rightarrow> (assembly \<times> bool) result" where
  "add_fragment a frag =
     bindE (store_fragment a frag) (\<lambda>a1.
     bindE (if final frag
            then (let total = int (unat (fragment_num frag)) + 1
                  in bindE (assertE (int (length (fragments a1)) \<le> total) AssertFailed) (\<lambda>_.
                     Inr (a1\<lparr>fragments_total := total, fragments := resize (nat total) (fragments a1)\<rparr>)))
            else Inr a1) (\<lambda>a2.
     bindE (if fragments_total a2 \<noteq> - 1
            then assertE (fragments_arrived a2 \<le> fragments_total a2) AssertFailed else Inr ()) (\<lambda>_.
     Inr (a2, fragments_arrived a2 = fragments_total a2))))"

fun collect :: "fragment list \<Rightarrow> bytes result" where
  "collect [] = Inr []"
| "collect (f # fs) =
     bindE (assertE (initialized f) AssertFailed) (\<lambda>_. bindE (collect fs) (\<lambda>rest. Inr (contents f @ rest)))"

definition get_assembly :: "(nat \<Rightarrow> bytes \<Rightarrow> bytes option) \<Rightarrow> (bytes \<Rightarrow> instruction option) \<Rightarrow> assembly
    \<Rightarrow> (assembly \<times> instruction) result" where
  "get_assembly uz parse a =
     bindE (assertE (fragments_arrived a = fragments_total a) AssertFailed) (\<lambda>_.
     bindE (collect (take (nat (fragments_total a)) (fragments a))) (\<lambda>encoded.
     bindE (uncompress_str uz encoded) (\<lambda>s.
     case parse s of
       None \<Rightarrow> Inl FatalAssert
     | Some ret \<Rightarrow> Inr (a\<lparr>fragments := [], fragments_arrived := 0, fragments_total := - 1\<rparr>, ret))))"

section \<open>Fragmentation\<close>

record fragmenter =
  next_instruction_id :: u64
  last_instruction :: instruction
  last_MTU :: u64

definition Fragmenter :: fragmenter where
  "Fragmenter = \<lparr>next_instruction_id = 0,
     last_instruction = \<lparr>protocol_version = 0, old_num = - 1, new_num = - 1, ack_num = 0, throwaway_num = 0,
                         inst_diff = [], chaff = []\<rparr>,
     last_MTU = - 1\<rparr>"

text \<open>The loop that cuts the payload; it does not end when \<open>MTU\<close> is 0 and the payload is not empty.\<close>

partial_function (option) cut_payload :: "u64 \<Rightarrow> nat \<Rightarrow> u16 \<Rightarrow> bytes \<Rightarrow> fragment list option" where
  "cut_payload i MTU num payload =
     (if payload = [] then Some []
      else if length payload > MTU
      then Option.bind (cut_payload i MTU (num + 1) (drop MTU payload))
             (\<lambda>fs. Some (Fragment i num False (take MTU payload) # fs))
      else Some [Fragment i num True payload])"

definition same_instruction :: "instruction \<Rightarrow> instruction \<Rightarrow> bool" where
  "same_instruction inst l \<longleftrightarrow>
     old_num inst = old_num l \<and> new_num inst = new_num l \<and> ack_num inst = ack_num l
     \<and> throwaway_num inst = throwaway_num l \<and> chaff inst = chaff l \<and> protocol_version inst = protocol_version l"

text \<open>The state comes back beside the result, since it survives a non-fatal exception of the compressor.
  A result \<open>Inr None\<close> is a loop that does not end.\<close>

definition make_fragments :: "(nat \<Rightarrow> bytes \<Rightarrow> bytes option) \<Rightarrow> (instruction \<Rightarrow> bytes) \<Rightarrow> fragmenter \<Rightarrow> instruction \<Rightarrow> u64
    \<Rightarrow> fragmenter \<times> fragment list option result" where
  "make_fragments z ser g inst MTU0 =
     (let MTU = MTU0 - of_nat frag_header_len;
          l = last_instruction g;
          i = (if \<not> same_instruction inst l \<or> last_MTU g \<noteq> MTU then next_instruction_id g + 1
               else next_instruction_id g)
      in if old_num inst = old_num l \<and> new_num inst = new_num l \<and> inst_diff inst \<noteq> inst_diff l
         then (g\<lparr>next_instruction_id := i\<rparr>, Inl AssertFailed)
         else (\<lparr>next_instruction_id = i, last_instruction = inst, last_MTU = MTU\<rparr>,
               bindE (compress_str z (ser inst)) (\<lambda>payload. Inr (cut_payload i (unat MTU) 0 payload))))"

definition last_ack_sent :: "fragmenter \<Rightarrow> u64" where
  "last_ack_sent g = ack_num (last_instruction g)"

section \<open>Chunks: what fragmentation should do\<close>

function chunks :: "nat \<Rightarrow> 'a list \<Rightarrow> 'a list list" where
  "chunks n xs =
     (if xs = [] then [] else if n = 0 \<or> length xs \<le> n then [xs] else take n xs # chunks n (drop n xs))"
  by pat_completeness auto
termination
  by (relation "measure (\<lambda>(n, xs). length xs)") auto

declare chunks.simps [simp del]

lemma concat_chunks: "concat (chunks n xs) = xs"
  by (induction n xs rule: chunks.induct) (subst chunks.simps, auto)

lemma chunks_eq_Nil [simp]: "chunks n xs = [] \<longleftrightarrow> xs = []"
  by (subst chunks.simps) auto

lemma chunks_bound: "0 < n \<Longrightarrow> c \<in> set (chunks n xs) \<Longrightarrow> c \<noteq> [] \<and> length c \<le> n"
proof (induction n xs rule: chunks.induct)
  case (1 n xs)
  from 1(3) show ?case
    by (subst (asm) chunks.simps) (use 1(1,2) in \<open>auto split: if_splits\<close>)
qed

fun number :: "u64 \<Rightarrow> u16 \<Rightarrow> bytes list \<Rightarrow> fragment list" where
  "number i num [] = []"
| "number i num (c # cs) = Fragment i num (cs = []) c # number i (num + 1) cs"

lemma length_number [simp]: "length (number i num cs) = length cs"
  by (induction i num cs rule: number.induct) auto

lemma nth_number:
  "k < length cs \<Longrightarrow> number i num cs ! k = Fragment i (num + of_nat k) (Suc k = length cs) (cs ! k)"
proof (induction i num cs arbitrary: k rule: number.induct)
  case (2 i num c cs)
  then show ?case by (cases k) (auto simp: add.assoc)
qed simp

lemma cut_payload_terminates:
  "0 < MTU \<Longrightarrow> cut_payload i MTU num payload = Some (number i num (chunks MTU payload))"
proof (induction MTU payload arbitrary: num rule: chunks.induct)
  case (1 MTU payload)
  consider "payload = []" | "payload \<noteq> []" "length payload \<le> MTU" | "payload \<noteq> []" "MTU < length payload"
    by linarith
  then show ?case
  proof cases
    case 3
    then have "chunks MTU payload = take MTU payload # chunks MTU (drop MTU payload)"
      using 1(2) by (subst chunks.simps) simp
    with 3 1 show ?thesis by (subst cut_payload.simps) (simp add: not_le)
  qed (subst cut_payload.simps, subst chunks.simps, simp)+
qed

lemma cut_payload_diverges: "payload \<noteq> [] \<Longrightarrow> cut_payload i 0 num payload = None"
proof (rule ccontr)
  assume "payload \<noteq> []" "cut_payload i 0 num payload \<noteq> None"
  moreover have "MTU = 0 \<longrightarrow> payload = []" if "cut_payload i MTU num payload = Some fs" for i MTU num payload fs
    using that by (rule cut_payload.raw_induct [rotated]) (force split: if_splits bind_splits)
  ultimately show False by blast
qed

section \<open>Wire format round trip\<close>

lemma bit_final: "bit (0x8000 :: int) n \<longleftrightarrow> n = 15" "bit (0x7FFF :: int) n \<longleftrightarrow> n < 15"
proof -
  have "(0x8000 :: int) = 2 ^ 15" "(0x7FFF :: int) = mask 15" by (simp_all add: mask_eq_exp_minus_1)
  then show "bit (0x8000 :: int) n \<longleftrightarrow> n = 15" "bit (0x7FFF :: int) n \<longleftrightarrow> n < 15"
    by (simp_all only: bit_exp_iff bit_mask_iff) auto
qed

lemma u16_final_clear: "(f :: u16) AND 0x8000 = 0 \<longleftrightarrow> \<not> bit f 15"
  unfolding bit_eq_iff bit_and_iff by (auto simp: bit_final dest: spec [of _ 15])

lemma u16_final_set: "drop_bit 15 ((f :: u16) AND 0x8000) \<noteq> 0 \<longleftrightarrow> bit f 15"
  unfolding bit_eq_iff bit_and_iff bit_drop_bit_eq o_def by (auto simp: bit_final intro: exI [of _ 0])

lemma fifteen_or_less: "(n :: nat) < 16 \<Longrightarrow> n < 15 \<or> n = 15"
  by auto

lemma u16_number: "\<not> bit (f :: u16) 15 \<Longrightarrow> (push_bit 15 (of_bool b) OR f) AND 0x7FFF = f"
  by (rule bit_word_eqI) (auto simp: bit_and_iff bit_or_iff bit_push_bit_iff bit_of_bool_iff bit_final
    dest: fifteen_or_less)

lemma u16_flag: "bit (push_bit 15 (of_bool b) OR f :: u16) 15 \<longleftrightarrow> b \<or> bit f 15"
  by (simp add: bit_or_iff bit_push_bit_iff bit_of_bool_iff)

lemma u16_joined: "push_bit 15 (of_bool (bit f 15)) OR (f AND 0x7FFF) = (f :: u16)"
  by (rule bit_word_eqI) (auto simp: bit_and_iff bit_or_iff bit_push_bit_iff bit_of_bool_iff bit_final
    dest: fifteen_or_less)

lemma take_2_nth: "2 \<le> length xs \<Longrightarrow> be16toh (take 2 xs) = be16toh xs"
  by (simp add: be16toh_def)

lemma htobe16_be16toh: "length bs = 2 \<Longrightarrow> htobe16 (be16toh bs) = bs"
proof -
  assume "length bs = 2"
  then obtain x y where bs: "bs = [x, y]" by (auto simp: length_Suc_conv numeral_eq_Suc)
  have "ucast (drop_bit 8 (push_bit 8 (ucast x) OR ucast y :: u16)) = x"
    by (rule bit_word_eqI) (use bit_byte_less in \<open>fastforce simp: bit_simps\<close>)
  moreover have "ucast (push_bit 8 (ucast x) OR ucast y :: u16) = y"
    by (rule bit_word_eqI) (use bit_byte_less in \<open>fastforce simp: bit_simps\<close>)
  ultimately show ?thesis by (simp add: bs be16toh_def htobe16_def)
qed

lemma tostring_eq_Inr: "tostring f = Inr x \<longleftrightarrow> initialized f \<and> \<not> bit (fragment_num f) 15
    \<and> x = htobe64 (frag_id f) @ htobe16 (push_bit 15 (of_bool (final f)) OR fragment_num f) @ contents f"
  by (auto simp: tostring_def result_simps Let_def frag_header_len_def network_order_string64_def
    network_order_string16_def u16_final_clear)

lemma Fragment_of_string_eq_Inr: "Fragment_of_string x = Inr f \<longleftrightarrow> 10 \<le> length x \<and> f =
    \<lparr>frag_id = be64toh (take 8 x), fragment_num = be16toh (take 2 (drop 8 x)) AND 0x7FFF,
     final = bit (be16toh (take 2 (drop 8 x))) 15, initialized = True, contents = drop 10 x\<rparr>"
  unfolding Fragment_of_string_def Let_def u16_final_set
  by (auto simp: result_simps frag_header_len_def)

lemma Fragment_of_string_tostring:
  "tostring f = Inr x \<Longrightarrow> Fragment_of_string x = Inr f"
  using be64toh_htobe64 [of "frag_id f" "[]"] be16toh_htobe16 [of "push_bit 15 (of_bool (final f)) OR fragment_num f" "[]"]
  by (cases f) (auto simp: tostring_eq_Inr Fragment_of_string_eq_Inr u16_number u16_flag)

lemma tostring_Fragment_of_string:
  assumes "Fragment_of_string x = Inr f"
  shows "tostring f = Inr x"
proof -
  let ?w = "be16toh (take 2 (drop 8 x))"
  have f: "10 \<le> length x" "frag_id f = be64toh (take 8 x)" "fragment_num f = ?w AND 0x7FFF" "final f = bit ?w 15"
    "initialized f" "contents f = drop 10 x"
    using assms by (simp_all add: Fragment_of_string_eq_Inr)
  have "\<not> bit (?w AND 0x7FFF) 15" by (simp add: bit_and_iff bit_final)
  moreover have "htobe64 (be64toh (take 8 x)) = take 8 x" "htobe16 ?w = take 2 (drop 8 x)"
    using f(1) by (simp_all add: htobe64_be64toh htobe16_be16toh)
  moreover have "take 8 x @ take 2 (drop 8 x) @ drop 10 x = x"
    using append_take_drop_id [of 2 "drop 8 x"] by simp
  ultimately show ?thesis by (simp add: tostring_eq_Inr f u16_joined)
qed

section \<open>Reassembly refines collecting a set of indices\<close>

text \<open>\<open>cs\<close> are the chunks of the instruction whose fragments are being collected; \<open>arrived a\<close> are the
  indices that have arrived.\<close>

definition ready :: "fragment list \<Rightarrow> nat set" where
  "ready fs = {k. k < length fs \<and> initialized (fs ! k)}"

abbreviation arrived :: "assembly \<Rightarrow> nat set" where
  "arrived a \<equiv> ready (fragments a)"

lemma initialized_simps [simp]: "\<not> initialized no_fragment" "initialized (Fragment i n f c)"
  "frag_id (Fragment i n f c) = i" "fragment_num (Fragment i n f c) = n" "final (Fragment i n f c) = f"
  "contents (Fragment i n f c) = c"
  by (simp_all add: no_fragment_def Fragment_def)

lemma length_resize [simp]: "length (resize n fs) = n"
  by (simp add: resize_def)

lemma nth_resize: "k < n \<Longrightarrow> resize n fs ! k = (if k < length fs then fs ! k else no_fragment)"
  by (simp add: resize_def nth_append)

lemma resize_same: "length fs = n \<Longrightarrow> resize n fs = fs"
  by (simp add: resize_def)

lemma finite_ready [simp]: "finite (ready fs)"
  by (simp add: ready_def)

lemma ready_resize: "length fs \<le> n \<Longrightarrow> ready (resize n fs) = ready fs"
  by (auto simp: ready_def nth_resize split: if_splits)

lemma ready_update: "k < length fs \<Longrightarrow> initialized f \<Longrightarrow> ready (fs[k := f]) = insert k (ready fs)"
  by (auto simp: ready_def nth_list_update)

lemma ready_Nil [simp]: "ready [] = {}"
  by (simp add: ready_def)

text \<open>Growing the vector and storing a genuine fragment keeps every slot genuine.\<close>

definition slots_ok :: "fragment list \<Rightarrow> fragment list \<Rightarrow> bool" where
  "slots_ok gs fs \<longleftrightarrow> length fs \<le> length gs \<and> (\<forall>k < length fs. fs ! k = no_fragment \<or> fs ! k = gs ! k)"

lemma slots_ok_Nil [simp]: "slots_ok gs []"
  by (simp add: slots_ok_def)

lemma slots_ok_resize: "slots_ok gs fs \<Longrightarrow> length fs \<le> n \<Longrightarrow> n \<le> length gs \<Longrightarrow> slots_ok gs (resize n fs)"
  by (simp add: slots_ok_def nth_resize)

lemma slots_ok_update: "slots_ok gs fs \<Longrightarrow> slots_ok gs (fs[k := gs ! k])"
  by (cases "k < length fs") (auto simp: slots_ok_def nth_list_update)

lemma slots_ok_ready: "slots_ok gs fs \<Longrightarrow> k \<in> ready fs \<Longrightarrow> fs ! k = gs ! k"
  by (auto simp: slots_ok_def ready_def)

definition part_of :: "u64 \<Rightarrow> bytes list \<Rightarrow> assembly \<Rightarrow> bool" where
  "part_of i cs a \<longleftrightarrow>
     slots_ok (number i 0 cs) (fragments a)
     \<and> fragments_arrived a = int (card (arrived a))
     \<and> fragments_total a = (if cs \<noteq> [] \<and> length cs - 1 \<in> arrived a then int (length cs) else - 1)"

lemma arrived_le: "part_of i cs a \<Longrightarrow> arrived a \<subseteq> {..<length cs}"
  by (auto simp: part_of_def ready_def slots_ok_def)

lemma complete_iff:
  assumes "part_of i cs a" "cs \<noteq> []"
  shows "fragments_arrived a = fragments_total a \<longleftrightarrow> arrived a = {..<length cs}"
proof -
  have tot: "fragments_total a = (if length cs - 1 \<in> arrived a then int (length cs) else - 1)"
    "fragments_arrived a = int (card (arrived a))"
    using assms by (simp_all add: part_of_def)
  have card: "card (arrived a) = length cs \<longleftrightarrow> arrived a = {..<length cs}"
    using card_subset_eq [OF finite_lessThan arrived_le [OF assms(1)]] by (metis card_lessThan)
  have "length cs - 1 \<in> {..<length cs}" using assms(2) by simp
  then show ?thesis
    unfolding tot card [symmetric] using card by (cases "length cs - 1 \<in> arrived a") auto
qed

lemma arrived_bound: "part_of i cs a \<Longrightarrow> card (arrived a) \<le> length cs"
  using card_mono [OF _ arrived_le] by fastforce

text \<open>The fragment with index \<open>k\<close> arrives: it is stored, once, and the total becomes known with the last index.\<close>

lemma unat_u16: "k < 0x8000 \<Longrightarrow> unat (of_nat k :: u16) = k"
  by (simp add: unsigned_of_nat take_bit_nat_eq_self)

lemma nth_number_0: "k < length cs \<Longrightarrow> number i 0 cs ! k = Fragment i (of_nat k) (Suc k = length cs) (cs ! k)"
  by (simp add: nth_number)

definition filled :: "u64 \<Rightarrow> bytes list \<Rightarrow> assembly \<Rightarrow> bool" where
  "filled i cs a \<longleftrightarrow> slots_ok (number i 0 cs) (fragments a)
    \<and> fragments_arrived a = int (card (arrived a))"

lemma part_of_filled: "part_of i cs a \<longleftrightarrow> filled i cs a
    \<and> fragments_total a = (if cs \<noteq> [] \<and> length cs - 1 \<in> arrived a then int (length cs) else - 1)"
  by (auto simp: part_of_def filled_def)

lemma store_fragment_new:
  assumes "current_id a \<noteq> i" "k < length cs" "length cs \<le> 0x8000"
  shows "\<exists>a'. store_fragment a (number i 0 cs ! k) = Inr a' \<and> current_id a' = i \<and> arrived a' = {k}
    \<and> filled i cs a' \<and> k < length (fragments a') \<and> fragments_total a' = - 1"
proof -
  let ?F = "number i 0 cs ! k" and ?fs = "(resize (k + 1) [])[k := number i 0 cs ! k]"
  have "store_fragment a ?F = Inr (a\<lparr>fragments := ?fs, fragments_arrived := 1, fragments_total := - 1, current_id := i\<rparr>)"
    using assms by (simp add: store_fragment_def nth_number_0 unat_u16)
  moreover have "ready ?fs = {k}"
    using assms(2) by (simp add: ready_update nth_number_0 ready_resize)
  moreover have "slots_ok (number i 0 cs) ?fs"
    using assms(2) by (intro slots_ok_update slots_ok_resize) simp_all
  ultimately show ?thesis by (simp add: filled_def)
qed

lemma store_fragment_same:
  assumes part: "part_of i cs a" "current_id a = i" "k < length cs" "length cs \<le> 0x8000"
  shows "\<exists>a'. store_fragment a (number i 0 cs ! k) = Inr a' \<and> current_id a' = i \<and> arrived a' = insert k (arrived a)
    \<and> filled i cs a' \<and> k < length (fragments a') \<and> fragments_total a' = fragments_total a"
proof (cases "k \<in> arrived a")
  case True
  moreover from this have "k < length (fragments a)" "initialized (fragments a ! k)" by (auto simp: ready_def)
  moreover from True part have "fragments a ! k = number i 0 cs ! k" by (auto simp: part_of_def slots_ok_ready)
  ultimately show ?thesis
    using part by (simp add: store_fragment_def nth_number_0 unat_u16 part_of_filled insert_absorb)
next
  case False
  let ?F = "number i 0 cs ! k"
  define fs where "fs = (if length (fragments a) < k + 1 then resize (k + 1) (fragments a) else fragments a)"
  have "store_fragment a ?F = Inr (a\<lparr>fragments := fs[k := ?F], fragments_arrived := fragments_arrived a + 1\<rparr>)"
    using part False by (auto simp: store_fragment_def nth_number_0 unat_u16 fs_def ready_def Let_def)
  moreover have "k < length fs" "ready fs = arrived a" "slots_ok (number i 0 cs) fs"
    using part by (auto simp: fs_def ready_resize part_of_def intro: slots_ok_resize)
  moreover from this part(3) have "ready (fs[k := ?F]) = insert k (arrived a)" "slots_ok (number i 0 cs) (fs[k := ?F])"
    by (simp add: ready_update nth_number_0, intro slots_ok_update)
  ultimately show ?thesis using part False by (simp add: filled_def part_of_def)
qed

lemma add_fragment_part:
  assumes "part_of i cs a \<and> current_id a = i \<or> current_id a \<noteq> i" "k < length cs" "length cs \<le> 0x8000"
  defines "new \<equiv> insert k (if current_id a = i then arrived a else {})"
  shows "\<exists>a'. add_fragment a (number i 0 cs ! k) = Inr (a', new = {..<length cs})
    \<and> current_id a' = i \<and> part_of i cs a' \<and> arrived a' = new"
proof -
  let ?F = "number i 0 cs ! k"
  obtain a1 where a1: "store_fragment a ?F = Inr a1" "current_id a1 = i" "arrived a1 = new" "filled i cs a1"
      "k < length (fragments a1)"
    and tot: "k \<noteq> length cs - 1 \<Longrightarrow> fragments_total a1 = (if length cs - 1 \<in> new then int (length cs) else - 1)"
  proof (cases "current_id a = i")
    case True
    then have p: "part_of i cs a" and new: "new = insert k (arrived a)" using assms(1) by (auto simp: new_def)
    have tot: "fragments_total a = (if length cs - 1 \<in> arrived a then int (length cs) else - 1)"
      using p assms(2) by (auto simp: part_of_def)
    from store_fragment_same [OF p True assms(2,3)] obtain a1 where
      "store_fragment a ?F = Inr a1" "current_id a1 = i" "arrived a1 = new" "filled i cs a1"
      "k < length (fragments a1)" "fragments_total a1 = fragments_total a" unfolding new by blast
    with tot new show ?thesis by (intro that [of a1]) simp_all
  next
    case False
    then have new: "new = {k}" by (simp add: new_def)
    from store_fragment_new [OF False assms(2,3)] obtain a1 where
      "store_fragment a ?F = Inr a1" "current_id a1 = i" "arrived a1 = new" "filled i cs a1"
      "k < length (fragments a1)" "fragments_total a1 = - 1" unfolding new by blast
    with new show ?thesis by (intro that [of a1]) simp_all
  qed
  define a2 where "a2 = (if Suc k = length cs then a1\<lparr>fragments_total := int (length cs)\<rparr> else a1)"
  have arr: "arrived a2 = new" and cur: "current_id a2 = i" and fil: "filled i cs a2"
    using a1 by (simp_all add: a2_def filled_def)
  have "length cs - 1 \<in> new" if "Suc k = length cs" using that by (auto simp: new_def)
  then have part: "part_of i cs a2"
    unfolding part_of_filled arr using fil tot assms(2) by (cases "Suc k = length cs") (auto simp: a2_def)
  have fin: "length (fragments a1) = length cs" if "Suc k = length cs"
    using a1(4,5) that by (auto simp: filled_def slots_ok_def)
  have "fragments_total a2 = - 1 \<or> fragments_arrived a2 \<le> fragments_total a2"
    using part arrived_bound [OF part] by (simp add: part_of_def)
  moreover have "unat (fragment_num ?F) = k" "final ?F \<longleftrightarrow> Suc k = length cs"
    using assms(2,3) by (simp_all add: nth_number_0 unat_u16)
  moreover have "int k + 1 = int (length cs)" if "Suc k = length cs" using that by simp
  ultimately have "add_fragment a ?F = Inr (a2, fragments_arrived a2 = fragments_total a2)"
    unfolding add_fragment_def a1(1) using fin
    by (cases "Suc k = length cs") (auto simp add: a2_def resize_same Let_def)
  moreover have "fragments_arrived a2 = fragments_total a2 \<longleftrightarrow> new = {..<length cs}"
    using complete_iff [OF part] arr assms(2) by (metis list.size(3) not_less_zero)
  ultimately show ?thesis using cur part arr by simp
qed

lemma collect_nth:
  "(\<And>k. k < length fs \<Longrightarrow> initialized (fs ! k)) \<Longrightarrow> collect fs = Inr (concat (map contents fs))"
proof (induction fs)
  case (Cons f fs)
  from Cons.prems [of 0] have "initialized f" by simp
  moreover have "collect fs = Inr (concat (map contents fs))"
    using Cons.prems [of "Suc _"] by (intro Cons.IH) auto
  ultimately show ?case by simp
qed simp

lemma get_assembly_part:
  assumes "part_of i cs a" "cs \<noteq> []" "arrived a = {..<length cs}"
    and "uz BUFFER_SIZE (concat cs) = Some s" "parse s = Some inst"
  shows "\<exists>a'. get_assembly uz parse a = Inr (a', inst) \<and> current_id a' = current_id a
    \<and> part_of i cs a' \<and> arrived a' = {}"
proof -
  have all: "k < length (fragments a) \<and> initialized (fragments a ! k)" if "k < length cs" for k
    using assms(3) that by (auto simp: ready_def)
  have len: "length (fragments a) = length cs"
    using assms(1,2) all [of "length cs - 1"] by (auto simp: part_of_def slots_ok_def)
  have "fragments a = number i 0 cs"
    using assms(1) all len by (intro nth_equalityI) (simp_all add: part_of_def slots_ok_ready assms(3))
  then have "map contents (fragments a) = cs"
    by (intro nth_equalityI) (auto simp: nth_number)
  moreover have "fragments_total a = int (length cs)" "fragments_arrived a = fragments_total a"
    using complete_iff assms(1-3) by (auto simp: part_of_def)
  ultimately have "get_assembly uz parse a
      = Inr (a\<lparr>fragments := [], fragments_arrived := 0, fragments_total := - 1\<rparr>, inst)"
    using assms(4,5) all len
    by (simp add: get_assembly_def collect_nth uncompress_str_def dos_assert_def)
  then show ?thesis by (auto simp: part_of_def ready_def)
qed

section \<open>Streams of fragments\<close>

text \<open>The receiver's loop body: add each fragment and take the instruction out when it is complete.\<close>

fun assemble :: "(nat \<Rightarrow> bytes \<Rightarrow> bytes option) \<Rightarrow> (bytes \<Rightarrow> instruction option) \<Rightarrow> assembly \<Rightarrow> fragment list
    \<Rightarrow> (assembly \<times> instruction list) result" where
  "assemble uz parse a [] = Inr (a, [])"
| "assemble uz parse a (f # fs) =
     bindE (add_fragment a f) (\<lambda>(a1, complete).
     if complete
     then bindE (get_assembly uz parse a1) (\<lambda>(a2, inst).
          bindE (assemble uz parse a2 fs) (\<lambda>(a3, insts). Inr (a3, inst # insts)))
     else assemble uz parse a1 fs)"

text \<open>The specification keeps an id and the set of indices that have arrived for it; \<open>H i\<close> are the chunks the
  sender cut under id \<open>i\<close>.\<close>

fun deliver :: "(u64 \<Rightarrow> bytes list) \<Rightarrow> u64 \<times> nat set \<Rightarrow> (u64 \<times> nat) list \<Rightarrow> u64 list" where
  "deliver H (cur, got) [] = []"
| "deliver H (cur, got) ((i, k) # fs) =
     (let got' = insert k (if i = cur then got else {})
      in if got' = {..<length (H i)} then i # deliver H (i, {}) fs else deliver H (i, got') fs)"

definition genuine :: "(u64 \<Rightarrow> bytes list) \<Rightarrow> u64 \<times> nat \<Rightarrow> bool" where
  "genuine H = (\<lambda>(i, k). k < length (H i) \<and> length (H i) \<le> 0x8000)"

lemma assemble_deliver:
  assumes "list_all (genuine H) fs"
    and "part_of (current_id a) (H (current_id a)) a"
    and "\<And>i. i \<in> fst ` set fs \<Longrightarrow> \<exists>s. uz BUFFER_SIZE (concat (H i)) = Some s \<and> parse s = Some (I i)"
  shows "\<exists>a'. assemble uz parse a (map (\<lambda>(i, k). number i 0 (H i) ! k) fs)
    = Inr (a', map I (deliver H (current_id a, arrived a) fs)) \<and> part_of (current_id a') (H (current_id a')) a'"
  using assms
proof (induction fs arbitrary: a)
  case (Cons f fs)
  obtain i k where f: "f = (i, k)" by (cases f)
  have k: "k < length (H i)" "length (H i) \<le> 0x8000" and fs: "list_all (genuine H) fs"
    using Cons.prems(1) by (simp_all add: f genuine_def)
  let ?new = "insert k (if current_id a = i then arrived a else {})"
  have "part_of i (H i) a \<and> current_id a = i \<or> current_id a \<noteq> i" using Cons.prems(2) by auto
  from add_fragment_part [OF this k] obtain a1 where a1: "add_fragment a (number i 0 (H i) ! k)
      = Inr (a1, ?new = {..<length (H i)})" "current_id a1 = i" "part_of i (H i) a1" "arrived a1 = ?new"
    by blast
  have codec: "\<exists>s. uz BUFFER_SIZE (concat (H j)) = Some s \<and> parse s = Some (I j)" if "j \<in> fst ` set fs" for j
    using Cons.prems(3) [of j] that by simp
  let ?wire = "map (\<lambda>(i, k). number i 0 (H i) ! k)"
  show ?case
  proof (cases "?new = {..<length (H i)}")
    case True
    have ne: "H i \<noteq> []" using k by auto
    obtain s where s: "uz BUFFER_SIZE (concat (H i)) = Some s" "parse s = Some (I i)"
      using Cons.prems(3) [of i] by (auto simp: f)
    have "arrived a1 = {..<length (H i)}" using a1(4) True by (rule trans)
    from get_assembly_part [where uz = uz and parse = parse, OF a1(3) ne this s] a1(2) obtain a2
      where a2: "get_assembly uz parse a1 = Inr (a2, I i)" "current_id a2 = i" "part_of i (H i) a2" "arrived a2 = {}"
      by blast
    from Cons.IH [OF fs _ codec, of a2, unfolded a2(2,4)] a2(3) obtain a' where a':
      "assemble uz parse a2 (?wire fs) = Inr (a', map I (deliver H (i, {}) fs))"
      "part_of (current_id a') (H (current_id a')) a'" by blast
    have "assemble uz parse a (?wire (f # fs)) = Inr (a', I i # map I (deliver H (i, {}) fs))"
      by (simp add: f a1(1) a2(1) a'(1) True)
    moreover have "deliver H (current_id a, arrived a) (f # fs) = i # deliver H (i, {}) fs"
      using True by (simp add: f Let_def eq_commute [of i])
    ultimately show ?thesis using a'(2) by simp
  next
    case False
    from Cons.IH [OF fs _ codec, of a1, unfolded a1(2,4)] a1(3) obtain a' where a':
      "assemble uz parse a1 (?wire fs) = Inr (a', map I (deliver H (i, ?new) fs))"
      "part_of (current_id a') (H (current_id a')) a'" by blast
    have "assemble uz parse a (?wire (f # fs)) = Inr (a', map I (deliver H (i, ?new) fs))"
      by (simp add: f a1(1) a'(1) False)
    moreover have "deliver H (current_id a, arrived a) (f # fs) = deliver H (i, ?new) fs"
      using False by (simp add: f Let_def eq_commute [of i])
    ultimately show ?thesis using a'(2) by simp
  qed
qed simp

lemma part_of_initial: "part_of i cs FragmentAssembly"
  by (simp add: part_of_def FragmentAssembly_def)

lemma deliver_one:
  assumes "ks \<noteq> []" "got \<union> set ks = {..<length (H i)}" "got \<union> set (butlast ks) \<noteq> {..<length (H i)}"
  shows "deliver H (i, got) (map (Pair i) ks) = [i]"
  using assms
proof (induction ks arbitrary: got)
  case (Cons k ks)
  show ?case
  proof (cases "ks = []")
    case True
    with Cons.prems show ?thesis by (simp add: Let_def)
  next
    case False
    have "insert k got \<noteq> {..<length (H i)}"
    proof
      assume eq: "insert k got = {..<length (H i)}"
      with False Cons.prems have "set (butlast ks) \<subseteq> insert k got"
        by (metis Un_upper2 in_set_butlastD list.set_intros(2) subsetI subset_iff)
      with eq False Cons.prems(3) show False by auto
    qed
    with False Cons show ?thesis by (simp add: Let_def)
  qed
qed simp

lemma deliver_fresh: "cur \<noteq> i \<Longrightarrow> ks \<noteq> [] \<Longrightarrow> deliver H (cur, got) (map (Pair i) ks) = deliver H (i, {}) (map (Pair i) ks)"
  by (cases ks) (simp_all add: Let_def)

lemma make_fragments_Inr:
  assumes "make_fragments z ser g inst MTU = (g', Inr fs)"
  shows "last_instruction g' = inst \<and> last_MTU g' = MTU - 10
    \<and> (\<exists>payload. z BUFFER_SIZE (ser inst) = Some payload \<and> fs = cut_payload (next_instruction_id g') (unat (MTU - 10)) 0 payload)
    \<and> (next_instruction_id g' = next_instruction_id g + 1
       \<or> next_instruction_id g' = next_instruction_id g \<and> inst = last_instruction g \<and> MTU - 10 = last_MTU g)"
  using assms
  by (cases "z BUFFER_SIZE (ser inst)"; cases inst; cases "last_instruction g")
    (auto simp: make_fragments_def Let_def compress_str_def dos_assert_def frag_header_len_def same_instruction_def
      result_simps split: if_splits)

text \<open>A stream of one instruction's fragments is a stream of indices.\<close>

lemma number_inj: "length cs \<le> 0x8000 \<Longrightarrow> inj_on ((!) (number i 0 cs)) {..<length cs}"
  by (rule inj_onI) (metis initialized_simps(4) lessThan_iff less_le_trans nth_number_0 unat_u16)

lemma set_number: "set (number i 0 cs) = (!) (number i 0 cs) ` {..<length cs}"
  by (auto simp: set_conv_nth)

lemma fragments_as_indices:
  assumes "set xs = set (number i 0 cs)" "set (butlast xs) \<noteq> set (number i 0 cs)" "length cs \<le> 0x8000"
  shows "\<exists>ks. xs = map ((!) (number i 0 cs)) ks \<and> set ks = {..<length cs} \<and> set (butlast ks) \<noteq> {..<length cs}"
proof -
  let ?F = "number i 0 cs"
  have "\<forall>x \<in> set xs. \<exists>k. k < length cs \<and> x = ?F ! k" using assms(1) by (auto simp: in_set_conv_nth)
  then obtain idx where idx: "\<forall>x \<in> set xs. idx x < length cs \<and> x = ?F ! idx x" by metis
  define ks where "ks = map idx xs"
  have xs: "xs = map ((!) ?F) ks" using idx by (simp add: ks_def map_idI)
  have sub: "set ks \<subseteq> {..<length cs}" using idx by (auto simp: ks_def)
  have "(!) ?F ` set ks = (!) ?F ` {..<length cs}" using assms(1) by (simp add: xs set_number)
  then have "set ks = {..<length cs}" using inj_on_image_eq_iff [OF number_inj [OF assms(3)] sub] by blast
  moreover have "set (butlast ks) \<noteq> {..<length cs}"
  proof
    assume "set (butlast ks) = {..<length cs}"
    then have "set (butlast xs) = set ?F" by (simp add: xs set_number flip: map_butlast)
    with assms(2) show False by simp
  qed
  ultimately show ?thesis using xs by blast
qed

section \<open>Properties of fragmentation\<close>

text \<open>C17. Wire format: a fragment serialises to a byte string exactly when that byte string parses to the fragment.
  So every fragment that can be written (initialised, number below 2^15) is read back unchanged, and every string of at
  least ten bytes is the serialisation of what it parses to.\<close>

theorem fragment_wire_format: "tostring f = Inr x \<longleftrightarrow> Fragment_of_string x = Inr f"
  using Fragment_of_string_tostring tostring_Fragment_of_string by blast

text \<open>C10. Reassembly refines its specification: on any stream of genuine fragments, whatever was lost, duplicated,
  reordered or interleaved, the assembly never trips an assertion, and the instructions that come out are exactly
  those for which the specification has collected every index since the id last changed.\<close>

theorem assembly_refines_deliver:
  assumes "list_all (genuine H) fs"
    and "\<forall>i \<in> fst ` set fs. \<exists>s. uz BUFFER_SIZE (concat (H i)) = Some s \<and> parse s = Some (I i)"
  shows "\<exists>a'. assemble uz parse FragmentAssembly (map (\<lambda>(i, k). number i 0 (H i) ! k) fs)
    = Inr (a', map I (deliver H (- 1, {}) fs))"
proof -
  have init: "current_id FragmentAssembly = - 1" "arrived FragmentAssembly = {}"
    by (simp_all add: FragmentAssembly_def)
  from assemble_deliver [OF assms(1) part_of_initial, of uz parse I, unfolded init] assms(2) show ?thesis by blast
qed

definition example_chunks :: "u64 \<Rightarrow> bytes list" where
  "example_chunks i = (if i = 7 then [[1], [2]] else if i = 8 then [[3]] else [])"

definition example_parse :: "bytes \<Rightarrow> instruction option" where
  "example_parse b = Some \<lparr>protocol_version = 2, old_num = 0, new_num = 1, ack_num = 0, throwaway_num = 0,
     inst_diff = b, chaff = []\<rparr>"

theorem assembly_refines_deliver_witness:
  "\<exists>a'. assemble (\<lambda>n b. Some b) example_parse FragmentAssembly
      (map (\<lambda>(i, k). number i 0 (example_chunks i) ! k) [(7, 1), (7, 1), (8, 0), (7, 0), (7, 1)])
    = Inr (a', [the (example_parse [3]), the (example_parse [1, 2])])"
  using assembly_refines_deliver [of example_chunks "[(7, 1), (7, 1), (8, 0), (7, 0), (7, 1)]" "\<lambda>n b. Some b"
      example_parse "\<lambda>i. the (example_parse (concat (example_chunks i)))"]
  by (simp add: genuine_def example_chunks_def example_parse_def Let_def lessThan_Suc insert_commute)

text \<open>C11. From sender to receiver: when the sender cuts an instruction for an MTU that leaves room for at least one byte,
  the loop ends, and if there are at most 0x8000 fragments, a receiver that gets them in any order, with any repetitions,
  in whatever state it is (of another instruction's id), produces exactly that instruction when the last missing fragment
  arrives.  The serialised instruction must fit the receiver's buffer of 4 MiB, into which zlib uncompresses; what is
  assumed of zlib is that it restores whatever fits there, and of protobuf that it parses what it serialised.\<close>

theorem fragments_deliver_instruction:
  assumes make: "make_fragments z ser g inst MTU = (g', Inr r)" and mtu: "10 < MTU"
    and codec: "\<forall>b c. z BUFFER_SIZE b = Some c \<and> length b \<le> BUFFER_SIZE \<longrightarrow> uz BUFFER_SIZE c = Some b"
      "parse (ser inst) = Some inst"
    and fits: "length (ser inst) \<le> BUFFER_SIZE"
  shows "\<exists>fs. r = Some fs \<and> (length fs \<le> 0x8000 \<longrightarrow>
    (\<forall>a cs xs. part_of (current_id a) cs a \<and> current_id a \<noteq> next_instruction_id g'
        \<and> set xs = set fs \<and> set (butlast xs) \<noteq> set fs
      \<longrightarrow> (\<exists>a'. assemble uz parse a xs = Inr (a', [inst]))))"
proof -
  define i where "i = next_instruction_id g'"
  obtain payload where p: "z BUFFER_SIZE (ser inst) = Some payload" "r = cut_payload i (unat (MTU - 10)) 0 payload"
    using make_fragments_Inr [OF make] by (auto simp: i_def)
  define ch where "ch = chunks (unat (MTU - 10)) payload"
  have "0 < unat (MTU - 10)" using mtu by (auto simp: unat_gt_0)
  then have r: "r = Some (number i 0 ch)" by (simp add: p(2) cut_payload_terminates ch_def)
  have "\<exists>a'. assemble uz parse a xs = Inr (a', [inst])"
    if few: "length ch \<le> 0x8000" and a: "part_of (current_id a) cs a" "current_id a \<noteq> i"
      and xs: "set xs = set (number i 0 ch)" "set (butlast xs) \<noteq> set (number i 0 ch)" for a cs xs
  proof -
    define H where "H = (\<lambda>j. if j = i then ch else cs)"
    obtain ks where ks: "xs = map ((!) (number i 0 ch)) ks" "set ks = {..<length ch}" "set (butlast ks) \<noteq> {..<length ch}"
      using fragments_as_indices [OF xs few] by (elim exE conjE)
    have ne: "ks \<noteq> []" using ks(2,3) by (metis butlast.simps(1))
    have gen: "list_all (genuine H) (map (Pair i) ks)"
      using few by (simp add: genuine_def H_def list_all_iff ks(2))
    have part: "part_of (current_id a) (H (current_id a)) a" using a by (simp add: H_def)
    have "uz BUFFER_SIZE (concat ch) = Some (ser inst)" using codec(1) p(1) fits by (simp add: ch_def concat_chunks)
    then have "\<exists>s. uz BUFFER_SIZE (concat (H j)) = Some s \<and> parse s = Some inst"
      if "j \<in> fst ` set (map (Pair i) ks)" for j
      using that codec(2) by (auto simp: H_def)
    from assemble_deliver [where I = "\<lambda>_. inst" and uz = uz and parse = parse, OF gen part this]
    have "\<exists>a'. assemble uz parse a (map (\<lambda>(i, k). number i 0 (H i) ! k) (map (Pair i) ks))
        = Inr (a', map (\<lambda>_. inst) (deliver H (current_id a, arrived a) (map (Pair i) ks)))"
      by blast
    moreover have "deliver H (current_id a, arrived a) (map (Pair i) ks) = [i]"
      using deliver_one [of ks "{}" H i] ks(2,3) ne deliver_fresh [OF a(2) ne] by (simp add: H_def)
    moreover have "map (\<lambda>(i, k). number i 0 (H i) ! k) (map (Pair i) ks) = xs"
      by (simp add: ks(1) H_def comp_def)
    ultimately show ?thesis by simp
  qed
  with r show ?thesis unfolding i_def [symmetric] by auto
qed

theorem fragments_deliver_instruction_witness:
  "\<exists>g' fs. make_fragments (\<lambda>n b. Some b) inst_diff Fragmenter (the (example_parse [1, 2, 3])) 12 = (g', Inr (Some fs))
    \<and> (\<exists>a'. assemble (\<lambda>n b. if length b \<le> n then Some b else None) example_parse FragmentAssembly [fs ! 1, fs ! 1, fs ! 0]
        = Inr (a', [the (example_parse [1, 2, 3])]))"
proof -
  let ?inst = "the (example_parse [1, 2, 3])"
  define g' where "g' = fst (make_fragments (\<lambda>n b. Some b) inst_diff Fragmenter ?inst 12)"
  define fs where "fs = [Fragment 1 0 False [1, 2], Fragment 1 1 True [3]]"
  have mk: "make_fragments (\<lambda>n b. Some b) inst_diff Fragmenter ?inst 12 = (g', Inr (Some fs))"
    and id: "next_instruction_id g' = 1"
    by (simp_all add: g'_def fs_def make_fragments_def Let_def example_parse_def Fragmenter_def same_instruction_def
      compress_str_def dos_assert_def frag_header_len_def cut_payload.simps)
  have ser: "example_parse (inst_diff ?inst) = Some ?inst" by (simp add: example_parse_def)
  have cur: "current_id FragmentAssembly \<noteq> next_instruction_id g'" by (simp add: id FragmentAssembly_def)
  have xs: "set [fs ! 1, fs ! 1, fs ! 0] = set fs" "set (butlast [fs ! 1, fs ! 1, fs ! 0]) \<noteq> set fs"
    by (auto simp: fs_def Fragment_def)
  have "length fs \<le> 0x8000" "length (inst_diff ?inst) \<le> BUFFER_SIZE" by (simp_all add: fs_def example_parse_def BUFFER_SIZE_def)
  with fragments_deliver_instruction [where uz = "\<lambda>n b. if length b \<le> n then Some b else None" and parse = example_parse, OF mk _ _ ser]
  have "\<forall>a cs xs. part_of (current_id a) cs a \<and> current_id a \<noteq> next_instruction_id g'
        \<and> set xs = set fs \<and> set (butlast xs) \<noteq> set fs
      \<longrightarrow> (\<exists>a'. assemble (\<lambda>n b. if length b \<le> n then Some b else None) example_parse a xs = Inr (a', [?inst]))"
    by simp
  with part_of_initial [of "current_id FragmentAssembly" "[]"] cur xs mk show ?thesis by blast
qed

text \<open>A sequence of calls of \<^verbatim>\<open>make_fragments\<close> on one fragmenter, with the id, the instruction and the fragments of
  each call.\<close>

fun fragment_all :: "(nat \<Rightarrow> bytes \<Rightarrow> bytes option) \<Rightarrow> (instruction \<Rightarrow> bytes) \<Rightarrow> fragmenter \<Rightarrow> (instruction \<times> u64) list
    \<Rightarrow> (u64 \<times> instruction \<times> u64 \<times> fragment list option) list result" where
  "fragment_all z ser g [] = Inr []"
| "fragment_all z ser g ((inst, MTU) # calls) =
     (case make_fragments z ser g inst MTU of
        (g', Inl e) \<Rightarrow> Inl e
      | (g', Inr fs) \<Rightarrow>
          bindE (fragment_all z ser g' calls) (\<lambda>outs. Inr ((next_instruction_id g', inst, MTU, fs) # outs)))"

lemma fragment_all_ConsE:
  assumes "fragment_all z ser g (call # calls) = Inr outs" "unat (next_instruction_id g) + length (call # calls) < 2 ^ 64"
  obtains g' inst MTU fs outs' where
    "fragment_all z ser g' calls = Inr outs'" "outs = (next_instruction_id g', inst, MTU, fs) # outs'"
    "unat (next_instruction_id g') + length calls < 2 ^ 64" "last_instruction g' = inst" "last_MTU g' = MTU - 10"
    "fs = cut_payload (next_instruction_id g') (unat (MTU - 10)) 0 (the (z BUFFER_SIZE (ser inst)))"
    "unat (next_instruction_id g') = unat (next_instruction_id g) + 1
       \<or> next_instruction_id g' = next_instruction_id g \<and> inst = last_instruction g \<and> MTU - 10 = last_MTU g"
proof -
  obtain inst MTU where call: "call = (inst, MTU)" by (cases call)
  from assms(1) obtain g' fs outs' where g': "make_fragments z ser g inst MTU = (g', Inr fs)"
      "fragment_all z ser g' calls = Inr outs'" "outs = (next_instruction_id g', inst, MTU, fs) # outs'"
    by (auto simp: call result_simps split: prod.splits sum.splits)
  have inc: "unat (next_instruction_id g + 1) = unat (next_instruction_id g) + 1"
    using assms(2) by (simp add: unat_word_ariths)
  from make_fragments_Inr [OF g'(1)] inc assms(2) show ?thesis
    by (intro that [OF g'(2,3)]) auto
qed

lemma fragment_all_ids:
  assumes "fragment_all z ser g calls = Inr outs" "unat (next_instruction_id g) + length calls < 2 ^ 64"
    and "(i, inst, MTU, fs) \<in> set outs"
  shows "i = next_instruction_id g \<and> inst = last_instruction g \<and> MTU - 10 = last_MTU g
    \<or> unat (next_instruction_id g) < unat i"
  using assms
proof (induction calls arbitrary: g outs)
  case (Cons call calls)
  from Cons.prems(1,2) show ?case
  proof (rule fragment_all_ConsE)
    fix g' inst0 MTU0 fs0 outs'
    assume *: "fragment_all z ser g' calls = Inr outs'" "outs = (next_instruction_id g', inst0, MTU0, fs0) # outs'"
      "unat (next_instruction_id g') + length calls < 2 ^ 64" "last_instruction g' = inst0" "last_MTU g' = MTU0 - 10"
      "unat (next_instruction_id g') = unat (next_instruction_id g) + 1
       \<or> next_instruction_id g' = next_instruction_id g \<and> inst0 = last_instruction g \<and> MTU0 - 10 = last_MTU g"
    from Cons.prems(3) *(2) consider "(i, inst, MTU, fs) = (next_instruction_id g', inst0, MTU0, fs0)"
      | "(i, inst, MTU, fs) \<in> set outs'" by auto
    then show ?thesis
      using * Cons.IH [OF *(1,3)] by cases auto
  qed
qed simp

lemma fragment_all_fragments:
  assumes "fragment_all z ser g calls = Inr outs" "unat (next_instruction_id g) + length calls < 2 ^ 64"
    and "(i, inst, MTU, fs) \<in> set outs"
  shows "fs = cut_payload i (unat (MTU - 10)) 0 (the (z BUFFER_SIZE (ser inst)))"
  using assms
proof (induction calls arbitrary: g outs)
  case (Cons call calls)
  from Cons.prems(1,2) Cons.prems(3) Cons.IH show ?case by (elim fragment_all_ConsE) auto
qed simp

text \<open>C19. Ids identify fragments: over any sequence of calls of the sender's fragmenter (short of wrapping its 64-bit
  counter), two calls that used the same id cut the same instruction into the same fragments.  So the fragments that
  carry one id all belong together, which is what reassembly relies on.\<close>

theorem fragment_ids_unambiguous:
  assumes "fragment_all z ser g calls = Inr outs" "unat (next_instruction_id g) + length calls < 2 ^ 64"
    and "(i, inst, MTU, fs) \<in> set outs" "(i, inst', MTU', fs') \<in> set outs"
  shows "inst = inst' \<and> MTU = MTU' \<and> fs = fs'"
proof -
  have "inst = inst' \<and> MTU = MTU'"
    using assms
  proof (induction calls arbitrary: g outs)
    case (Cons call calls)
    from Cons.prems(1,2) show ?case
    proof (rule fragment_all_ConsE)
      fix g' inst0 MTU0 fs0 outs'
      assume *: "fragment_all z ser g' calls = Inr outs'" "outs = (next_instruction_id g', inst0, MTU0, fs0) # outs'"
        "unat (next_instruction_id g') + length calls < 2 ^ 64" "last_instruction g' = inst0" "last_MTU g' = MTU0 - 10"
      note head = fragment_all_ids [OF *(1,3)]
      consider "(i, inst, MTU, fs) \<in> set outs'" "(i, inst', MTU', fs') \<in> set outs'"
        | "(i, inst, MTU, fs) \<notin> set outs' \<or> (i, inst', MTU', fs') \<notin> set outs'" by blast
      then show ?thesis
      proof cases
        case 1
        then show ?thesis by (rule Cons.IH [OF *(1,3)])
      next
        case 2
        then show ?thesis
          using Cons.prems(3,4) *(2,4,5) head [of i inst MTU fs] head [of i inst' MTU' fs'] by auto
      qed
    qed
  qed simp
  with fragment_all_fragments [OF assms(1-3)] fragment_all_fragments [OF assms(1,2,4)] show ?thesis by simp
qed

theorem fragment_ids_unambiguous_witness:
  "\<exists>outs. fragment_all (\<lambda>n b. Some b) inst_diff Fragmenter
      [(the (example_parse [1, 2]), 12), (the (example_parse [1, 2]), 12)] = Inr outs
    \<and> snd (outs ! 0) = snd (outs ! 1) \<and> fst (outs ! 0) = 1"
proof -
  let ?inst = "the (example_parse [1, 2])"
  let ?o = "(1 :: u64, ?inst, 12 :: u64, Some [Fragment 1 0 True [1, 2]])"
  have all: "fragment_all (\<lambda>n b. Some b) inst_diff Fragmenter [(?inst, 12), (?inst, 12)] = Inr [?o, ?o]"
    by (simp add: make_fragments_def Let_def example_parse_def Fragmenter_def same_instruction_def
      compress_str_def dos_assert_def frag_header_len_def cut_payload.simps)
  with fragment_ids_unambiguous [OF all, of 1 ?inst 12 _ ?inst 12] show ?thesis
    by (simp add: Fragmenter_def)
qed

end
