(* ===== verification/C_Library.thy ===== *)
theory C_Library
  imports Prelude
begin

text \<open>
  The functions of the C library on strings that the sources call: \<^verbatim>\<open>strtol\<close> in base 10 and the conversion \<^verbatim>\<open>%d\<close> of
  \<^verbatim>\<open>snprintf\<close>, with the fact that the first reads back what the second writes.
\<close>

section \<open>Reading numbers\<close>

text \<open>\<^verbatim>\<open>strtol\<close> in base 10 on a 64-bit machine: leading white space, an optional sign, digits; a value out of range is
  clipped and sets errno to ERANGE; without digits nothing is consumed and the value is 0.  The result is the value, whether
  errno was set, and the rest of the string (the empty rest is the terminating zero).\<close>

definition is_space :: "char \<Rightarrow> bool" where
  "is_space ch \<longleftrightarrow> of_char ch \<in> {9, 10, 11, 12, 13, 32 :: nat}"

definition is_digit :: "char \<Rightarrow> bool" where
  "is_digit ch \<longleftrightarrow> 48 \<le> (of_char ch :: nat) \<and> (of_char ch :: nat) \<le> 57"

definition digits_value :: "string \<Rightarrow> int" where
  "digits_value ds = foldl (\<lambda>v ch. 10 * v + (int (of_char ch) - 48)) 0 ds"

definition strtol :: "string \<Rightarrow> int \<times> bool \<times> string" where
  "strtol s =
     (let s1 = dropWhile is_space s;
          neg = (s1 \<noteq> [] \<and> hd s1 = CHR ''-'');
          s2 = (if s1 \<noteq> [] \<and> (hd s1 = CHR ''-'' \<or> hd s1 = CHR ''+'') then tl s1 else s1);
          ds = takeWhile is_digit s2
      in if ds = [] then (0, False, s)
         else
           (let v = (if neg then - digits_value ds else digits_value ds);
                rest = dropWhile is_digit s2
            in if v > 2 ^ 63 - 1 then (2 ^ 63 - 1, True, rest)
               else if v < - (2 ^ 63) then (- (2 ^ 63), True, rest)
               else (v, False, rest)))"

definition numeral_string :: "string \<Rightarrow> bool" where
  "numeral_string ds \<longleftrightarrow> ds \<noteq> [] \<and> list_all is_digit ds"

section \<open>Writing numbers\<close>

definition digit_char :: "nat \<Rightarrow> char" where
  "digit_char d = char_of (48 + d)"

fun show_nat :: "nat \<Rightarrow> string" where
  "show_nat n = (if n < 10 then [digit_char n] else show_nat (n div 10) @ [digit_char (n mod 10)])"

declare show_nat.simps [simp del]

definition show_int :: "int \<Rightarrow> string" where
  "show_int i = (if i < 0 then CHR ''-'' # show_nat (nat (- i)) else show_nat (nat i))"

section \<open>Laws\<close>

lemma digit_not_space: "is_digit ch \<Longrightarrow> \<not> is_space ch \<and> ch \<noteq> CHR ''-'' \<and> ch \<noteq> CHR ''+''"
  by (auto simp: is_digit_def is_space_def)

lemma digits_value_nonneg:
  "list_all is_digit ds \<Longrightarrow> 0 \<le> v \<Longrightarrow> 0 \<le> foldl (\<lambda>v ch. 10 * v + (int (of_char ch) - 48)) v ds"
proof (induction ds arbitrary: v)
  case (Cons ch ds)
  then have "48 \<le> (of_char ch :: nat)" by (simp add: is_digit_def)
  then have "0 \<le> 10 * v + (int (of_char ch) - 48)" using Cons.prems(2) by linarith
  with Cons.IH [OF _ this] Cons.prems(1) show ?case by simp
qed simp

lemma strtol_numeral:
  assumes "numeral_string ds" "rest = [] \<or> \<not> is_digit (hd rest)"
  shows "strtol (ds @ rest) = (if digits_value ds > 2 ^ 63 - 1 then (2 ^ 63 - 1, True, rest) else (digits_value ds, False, rest))"
proof -
  obtain d ds' where ds: "ds = d # ds'" "is_digit d" "list_all is_digit ds'"
    using assms(1) by (cases ds) (auto simp: numeral_string_def)
  have d: "dropWhile is_space (ds @ rest) = ds @ rest" "hd (ds @ rest) \<noteq> CHR ''-''" "hd (ds @ rest) \<noteq> CHR ''+''"
    using digit_not_space [OF ds(2)] by (simp_all add: ds(1))
  have all: "\<forall>x \<in> set ds. is_digit x" using assms(1) by (simp add: numeral_string_def list_all_iff)
  have "takeWhile is_digit rest = []" "dropWhile is_digit rest = rest"
    using assms(2) by (cases rest; simp)+
  then have "takeWhile is_digit (ds @ rest) = ds" "dropWhile is_digit (ds @ rest) = rest"
    using all by (simp_all add: takeWhile_append dropWhile_append)
  moreover have "0 \<le> digits_value ds"
    using digits_value_nonneg [of ds 0] assms(1) by (simp add: digits_value_def numeral_string_def)
  ultimately show ?thesis
    using d ds(1) by (simp add: strtol_def Let_def)
qed

lemma digit_char_digit: "d < 10 \<Longrightarrow> is_digit (digit_char d) \<and> of_char (digit_char d) = (48 + d :: nat)"
  by (simp add: digit_char_def is_digit_def)

lemma show_nat_numeral: "numeral_string (show_nat n)"
proof (induction n rule: show_nat.induct)
  case (1 n)
  then show ?case
    by (subst show_nat.simps) (auto simp: numeral_string_def digit_char_digit)
qed

lemma digits_value_show_nat: "digits_value (show_nat n) = int n"
proof (induction n rule: show_nat.induct)
  case (1 n)
  show ?case
  proof (cases "n < 10")
    case True
    then show ?thesis by (subst show_nat.simps) (simp add: digits_value_def digit_char_digit)
  next
    case False
    have "digits_value (show_nat n) = 10 * digits_value (show_nat (n div 10)) + int (n mod 10)"
      using False digit_char_digit [of "n mod 10"] by (subst show_nat.simps) (simp add: digits_value_def)
    also have "\<dots> = 10 * int (n div 10) + int (n mod 10)" using 1 False by simp
    also have "\<dots> = int (10 * (n div 10) + n mod 10)" by (simp only: of_nat_add of_nat_mult of_nat_numeral)
    also have "\<dots> = int n" by simp
    finally show ?thesis .
  qed
qed

lemma strtol_show_nat:
  assumes "int n \<le> 2 ^ 63 - 1" "rest = [] \<or> \<not> is_digit (hd rest)"
  shows "strtol (show_nat n @ rest) = (int n, False, rest)"
  using strtol_numeral [OF show_nat_numeral assms(2)] assms(1) by (simp add: digits_value_show_nat)

end
