(* ===== verification/Doubles.thy ===== *)
theory Doubles
  imports Prelude "HOL-Library.Log_Nat"
begin

text \<open>
  The \<^verbatim>\<open>double\<close> arithmetic of the program (IEEE 754 binary64, round to nearest with ties to even).  A finite double is the
  rational it denotes; every operation computes the exact rational result and rounds it once.  The rounding follows the
  standard for normal and subnormal results.  The program's quantities stay below 2 ^ 15, so overflow to an infinity is
  not represented, and an operation is rounded where the source writes it: a compiler that fuses a multiplication with
  an addition is outside the model.
\<close>

section \<open>Rounding\<close>

definition pow2 :: "int \<Rightarrow> rat" where
  "pow2 k = (if 0 \<le> k then 2 ^ nat k else 1 / 2 ^ nat (- k))"

text \<open>The binary exponent of a non-zero number: \<open>2 ^ e \<le> \<bar>x\<bar> < 2 ^ (e + 1)\<close>.\<close>

definition binary_exponent :: "rat \<Rightarrow> int" where
  "binary_exponent x =
     (if 1 \<le> \<bar>x\<bar> then int (floorlog 2 (nat \<lfloor>\<bar>x\<bar>\<rfloor>)) - 1 else - int (floorlog 2 (nat (\<lceil>1 / \<bar>x\<bar>\<rceil> - 1))))"

definition nearest_even :: "rat \<Rightarrow> int" where
  "nearest_even q =
     (let n = \<lfloor>q\<rfloor>; r = q - of_int n
      in if r < 1 / 2 then n else if 1 / 2 < r then n + 1 else if even n then n else n + 1)"

text \<open>The distance of neighbouring doubles around \<open>x\<close>: 52 bits below the exponent, which is at least -1022.\<close>

definition ulp :: "rat \<Rightarrow> rat" where
  "ulp x = pow2 (max (binary_exponent x) (- 1022) - 52)"

definition dbl :: "rat \<Rightarrow> rat" where
  "dbl x = (if x = 0 then 0 else of_int (nearest_even (x / ulp x)) * ulp x)"

definition dadd :: "rat \<Rightarrow> rat \<Rightarrow> rat" where "dadd x y = dbl (x + y)"
definition dsub :: "rat \<Rightarrow> rat \<Rightarrow> rat" where "dsub x y = dbl (x - y)"
definition dmul :: "rat \<Rightarrow> rat \<Rightarrow> rat" where "dmul x y = dbl (x * y)"
definition ddiv :: "rat \<Rightarrow> rat \<Rightarrow> rat" where "ddiv x y = dbl (x / y)"

section \<open>Properties of rounding\<close>

lemma pow2_pos [simp]: "0 < pow2 k"
  by (simp add: pow2_def)

lemma pow2_Suc: "pow2 (k + 1) = 2 * pow2 k"
proof (cases "0 \<le> k")
  case True
  then show ?thesis by (simp add: pow2_def nat_add_distrib)
next
  case False
  then have "nat (- k) = Suc (nat (- (k + 1)))" by arith
  with False show ?thesis by (cases "k = - 1") (simp_all add: pow2_def)
qed

lemma pow2_of_nat: "pow2 (int n) = 2 ^ n"
  by (simp add: pow2_def)

lemma pow2_minus: "pow2 (- int n) = 1 / 2 ^ n"
  by (cases n) (simp_all add: pow2_def nat_add_distrib)

lemma pow2_add_nat: "pow2 (k + int n) = 2 ^ n * pow2 k"
proof (induction n)
  case (Suc n)
  have "pow2 (k + int (Suc n)) = pow2 (k + int n + 1)" by (simp add: ac_simps)
  with Suc.IH show ?case by (simp only: pow2_Suc power_Suc mult.assoc)
qed simp

lemma pow2_mono: "j \<le> k \<Longrightarrow> pow2 j \<le> pow2 k"
proof -
  assume "j \<le> k"
  then have "pow2 k = 2 ^ nat (k - j) * pow2 j" using pow2_add_nat [of j "nat (k - j)"] by simp
  with pow2_pos [of j] show ?thesis by (simp add: mult_le_cancel_right1 del: pow2_pos)
qed

lemma nearest_even_error: "\<bar>of_int (nearest_even q) - q\<bar> \<le> 1 / 2"
  using of_int_floor_le [of q] floor_correct [of q] by (auto simp: nearest_even_def Let_def abs_le_iff)

lemma nearest_even_le: "q \<le> of_int k \<Longrightarrow> nearest_even q \<le> k"
  using floor_correct [of q] by (auto simp: nearest_even_def Let_def) linarith+

lemma nearest_even_ge: "of_int k \<le> q \<Longrightarrow> k \<le> nearest_even q"
  using le_floor_iff [of k q] by (auto simp: nearest_even_def Let_def)

lemma nearest_even_int [simp]: "nearest_even (of_int k) = k"
  by (simp add: nearest_even_def)

lemma binary_length:
  assumes "0 < m"
  shows "2 ^ (floorlog 2 m - 1) \<le> m \<and> m + 1 \<le> 2 ^ floorlog 2 m \<and> 0 < floorlog 2 m"
proof -
  have "2 ^ (floorlog 2 m - 1) \<le> m \<and> m < 2 ^ floorlog 2 m" using floorlog_bounds [of m 2] assms by simp
  moreover from this have "floorlog 2 m \<noteq> 0" using assms by (intro notI) simp
  ultimately show ?thesis by simp
qed

lemma binary_exponent_bounds:
  assumes "x \<noteq> 0"
  shows "pow2 (binary_exponent x) \<le> \<bar>x\<bar> \<and> \<bar>x\<bar> < pow2 (binary_exponent x + 1)"
proof (cases "1 \<le> \<bar>x\<bar>")
  case True
  define m where "m = nat \<lfloor>\<bar>x\<bar>\<rfloor>"
  have m: "0 < m" "of_nat m \<le> \<bar>x\<bar>" "\<bar>x\<bar> < of_nat (m + 1)"
    using True floor_correct [of "\<bar>x\<bar>"] by (auto simp: m_def)
  define l where "l = floorlog 2 m"
  have l: "2 ^ (l - 1) \<le> m" "m + 1 \<le> 2 ^ l" "0 < l" using binary_length [OF m(1)] by (simp_all add: l_def)
  have "(of_nat (2 ^ (l - 1)) :: rat) \<le> \<bar>x\<bar>" "\<bar>x\<bar> < of_nat (2 ^ l)"
    using m l(1,2) of_nat_mono [OF l(1), where ?'a = rat] of_nat_mono [OF l(2), where ?'a = rat] by linarith+
  moreover have "pow2 (binary_exponent x) = 2 ^ (l - 1)" "pow2 (binary_exponent x + 1) = 2 ^ l"
    using pow2_of_nat [of "l - 1"] pow2_of_nat [of l] True l(3) by (simp_all add: binary_exponent_def m_def l_def of_nat_diff)
  ultimately show ?thesis by simp
next
  case False
  define y where "y = 1 / \<bar>x\<bar>"
  have y: "1 < y" "\<bar>x\<bar> = 1 / y" using False assms by (simp_all add: y_def)
  define m where "m = nat (\<lceil>y\<rceil> - 1)"
  have "1 < \<lceil>y\<rceil>" using y(1) by (simp add: less_ceiling_iff)
  then have m: "0 < m" "of_nat m < y" "y \<le> of_nat (m + 1)"
    using ceiling_correct [of y] by (auto simp: m_def)
  define l where "l = floorlog 2 m"
  have l: "2 ^ (l - 1) \<le> m" "m + 1 \<le> 2 ^ l" "0 < l" using binary_length [OF m(1)] by (simp_all add: l_def)
  have "(of_nat (2 ^ (l - 1)) :: rat) < y" "y \<le> of_nat (2 ^ l)"
    using m l(1,2) of_nat_mono [OF l(1), where ?'a = rat] of_nat_mono [OF l(2), where ?'a = rat] by linarith+
  then have "1 / 2 ^ l \<le> \<bar>x\<bar>" "\<bar>x\<bar> < 1 / 2 ^ (l - 1)"
    using y by (simp_all add: frac_le frac_less2)
  moreover have "pow2 (binary_exponent x) = 1 / 2 ^ l" "pow2 (binary_exponent x + 1) = 1 / 2 ^ (l - 1)"
    using pow2_minus [of "l - 1"] pow2_minus [of l] False l(3) by (simp_all add: binary_exponent_def m_def l_def of_nat_diff y_def)
  ultimately show ?thesis by simp
qed

lemma ulp_pos [simp]: "0 < ulp x"
  by (simp add: ulp_def)

text \<open>The rounded value is within half a unit in the last place, and rounding keeps every bound that is a double: here, the
  multiples of \<open>1 / 2 ^ j\<close> up to \<open>2 ^ (53 - j)\<close>.\<close>

lemma dbl_error: "\<bar>dbl x - x\<bar> \<le> ulp x / 2"
proof (cases "x = 0")
  case False
  have "dbl x - x = (of_int (nearest_even (x / ulp x)) - x / ulp x) * ulp x"
    using False ulp_pos [of x] by (simp add: dbl_def left_diff_distrib del: ulp_pos)
  then have "\<bar>dbl x - x\<bar> = \<bar>of_int (nearest_even (x / ulp x)) - x / ulp x\<bar> * ulp x"
    using ulp_pos [of x] by (simp add: abs_mult del: ulp_pos)
  with nearest_even_error [of "x / ulp x"] ulp_pos [of x] show ?thesis
    using mult_right_mono [of "\<bar>of_int (nearest_even (x / ulp x)) - x / ulp x\<bar>" "1 / 2" "ulp x"] by simp
qed (simp add: dbl_def less_imp_le)

lemma ulp_divides:
  assumes "x \<noteq> 0" "\<bar>x\<bar> < 2 ^ n" "n + j \<le> 53"
  shows "\<exists>d. (1 :: rat) / 2 ^ j = 2 ^ d * ulp x"
proof -
  have "pow2 (binary_exponent x) < pow2 (int n)"
    using binary_exponent_bounds [OF assms(1)] assms(2) by (simp add: pow2_of_nat)
  then have "binary_exponent x < int n" using pow2_mono [of "int n" "binary_exponent x"] by linarith
  then have "- int j = max (binary_exponent x) (- 1022) - 52 + int (nat (- int j - (max (binary_exponent x) (- 1022) - 52)))"
    using assms(3) by (simp add: max_def)
  then show ?thesis
    by (metis pow2_minus pow2_add_nat ulp_def)
qed

lemma dbl_le:
  assumes "x \<le> of_int k / 2 ^ j" "\<bar>x\<bar> < 2 ^ n" "n + j \<le> 53"
  shows "dbl x \<le> of_int k / 2 ^ j"
proof (cases "x = 0")
  case False
  obtain d where d: "(1 :: rat) / 2 ^ j = 2 ^ d * ulp x" using ulp_divides [OF False assms(2,3)] by blast
  have k: "of_int k / 2 ^ j = of_int (k * 2 ^ d) * ulp x"
    using arg_cong [OF d, of "\<lambda>t. of_int k * t"] by (simp add: mult.assoc)
  have "x / ulp x \<le> of_int (k * 2 ^ d)" using assms(1) unfolding k by (simp add: divide_le_eq)
  then have "nearest_even (x / ulp x) \<le> k * 2 ^ d" by (rule nearest_even_le)
  then have "of_int (nearest_even (x / ulp x)) * ulp x \<le> of_int (k * 2 ^ d) * ulp x"
    by (intro mult_right_mono) (simp_all only: of_int_le_iff less_imp_le ulp_pos)
  with False show ?thesis by (simp only: dbl_def k if_False)
qed (use assms(1) in \<open>simp add: dbl_def\<close>)

lemma dbl_ge:
  assumes "of_int k / 2 ^ j \<le> x" "\<bar>x\<bar> < 2 ^ n" "n + j \<le> 53"
  shows "of_int k / 2 ^ j \<le> dbl x"
proof (cases "x = 0")
  case False
  obtain d where d: "(1 :: rat) / 2 ^ j = 2 ^ d * ulp x" using ulp_divides [OF False assms(2,3)] by blast
  have k: "of_int k / 2 ^ j = of_int (k * 2 ^ d) * ulp x"
    using arg_cong [OF d, of "\<lambda>t. of_int k * t"] by (simp add: mult.assoc)
  have "of_int (k * 2 ^ d) \<le> x / ulp x" using assms(1) unfolding k by (simp add: le_divide_eq)
  then have "k * 2 ^ d \<le> nearest_even (x / ulp x)" by (rule nearest_even_ge)
  then have "of_int (k * 2 ^ d) * ulp x \<le> of_int (nearest_even (x / ulp x)) * ulp x"
    by (intro mult_right_mono) (simp_all only: of_int_le_iff less_imp_le ulp_pos)
  with False show ?thesis by (simp only: dbl_def k if_False)
qed (use assms(1) in \<open>simp add: dbl_def\<close>)

lemma dbl_exact:
  assumes "x = of_int k / 2 ^ j" "\<bar>x\<bar> < 2 ^ n" "n + j \<le> 53"
  shows "dbl x = x"
  using dbl_le [of x k j n] dbl_ge [of k j x n] assms by simp

lemma dbl_range:
  assumes "of_int a / 2 ^ j \<le> x" "x \<le> of_int b / 2 ^ j" "\<bar>x\<bar> < 2 ^ 15" "j \<le> 38"
  shows "of_int a / 2 ^ j \<le> dbl x \<and> dbl x \<le> of_int b / 2 ^ j"
  using dbl_ge [OF assms(1,3)] dbl_le [OF assms(2,3)] assms(4) by simp

lemma dbl_of_nat: "n < 2 ^ 53 \<Longrightarrow> dbl (of_nat n) = of_nat n"
  using dbl_exact [of "of_nat n" "int n" 0 53] of_nat_less_iff [of n "2 ^ 53", where ?'a = rat] by simp

end
