(* ===== verification/Connection.thy ===== *)
theory Connection
  imports Crypto_Session Fragments C_Library Doubles Complex_Main
begin

text \<open>
  The datagram layer (src/mosh/src/network/network.h and network.cc): packets, the \<^verbatim>\<open>Connection\<close> class with
  sending, receiving, roaming, port hopping and round-trip-time estimation, and the parser of port ranges.

  System calls are inputs of the operations: the clock is the argument \<open>now\<close> (the frozen timestamp of the event loop),
  the descriptor of a new socket is an argument, and \<open>sendto\<close>, \<open>recvmsg\<close>, \<open>bind\<close> and \<open>getnameinfo\<close> are given by
  their outcomes.  A socket is its descriptor, an address the bytes of its structure.  The doubles of the estimator are
  the rationals they denote, rounded after every operation (\<open>Doubles\<close>).  AES under the session's key is the pair \<open>E\<close>, \<open>D\<close>.
\<close>

section \<open>Packets\<close>

datatype direction = TO_SERVER | TO_CLIENT

record packet =
  seq :: u64
  pkt_direction :: direction
  pkt_timestamp :: u16
  timestamp_reply :: u16
  payload :: bytes

definition DIRECTION_MASK :: u64 where
  "DIRECTION_MASK = push_bit 63 1"

definition SEQUENCE_MASK :: u64 where
  "SEQUENCE_MASK = - 1 XOR DIRECTION_MASK"

definition Packet :: "u64 \<Rightarrow> direction \<Rightarrow> u16 \<Rightarrow> u16 \<Rightarrow> bytes \<Rightarrow> u64 \<times> packet result" where
  "Packet counter s_direction s_timestamp s_timestamp_reply s_payload =
     (case unique counter of
        (counter', Inl e) \<Rightarrow> (counter', Inl e)
      | (counter', Inr n) \<Rightarrow>
          (counter', Inr \<lparr>seq = n, pkt_direction = s_direction, pkt_timestamp = s_timestamp,
                          timestamp_reply = s_timestamp_reply, payload = s_payload\<rparr>))"

definition Packet_of_message :: "message \<Rightarrow> packet result" where
  "Packet_of_message message =
     bindE (dos_assert (length (msg_text message) \<ge> 2 * 2)) (\<lambda>_.
     let v = nonce_val (msg_nonce message); data = msg_text message
     in Inr \<lparr>seq = v AND SEQUENCE_MASK,
             pkt_direction = (if v AND DIRECTION_MASK \<noteq> 0 then TO_CLIENT else TO_SERVER),
             pkt_timestamp = be16toh (take 2 data), timestamp_reply = be16toh (take 2 (drop 2 data)),
             payload = drop 4 data\<rparr>)"

definition toMessage :: "packet \<Rightarrow> message" where
  "toMessage p =
     (let direction_seq = push_bit 63 (of_bool (pkt_direction p = TO_CLIENT)) OR (seq p AND SEQUENCE_MASK)
      in \<lparr>msg_nonce = Nonce_val direction_seq,
          msg_text = (htobe16 (pkt_timestamp p) @ htobe16 (timestamp_reply p)) @ payload p\<rparr>)"

section \<open>Time\<close>

definition timestamp16 :: "u64 \<Rightarrow> u16" where
  "timestamp16 now = (let ts = ucast (now mod 65536) :: u16 in if ts = - 1 then ts + 1 else ts)"

definition timestamp_diff :: "u16 \<Rightarrow> u16 \<Rightarrow> u16 result" where
  "timestamp_diff tsnew tsold =
     (let diff0 = int (unat tsnew) - int (unat tsold);
          diff = (if diff0 < 0 then diff0 + 65536 else diff0)
      in bindE (assertE (diff \<ge> 0) AssertFailed) (\<lambda>_.
         bindE (assertE (diff \<le> 65535) AssertFailed) (\<lambda>_. Inr (of_int diff))))"

section \<open>Connections\<close>

definition DEFAULT_SEND_MTU :: int where "DEFAULT_SEND_MTU = 500"
definition IPV4_HEADER_LEN :: int where "IPV4_HEADER_LEN = 20 + 8"
definition IPV6_HEADER_LEN :: int where "IPV6_HEADER_LEN = 40 + 16 + 8"
definition DEFAULT_IPV4_MTU :: int where "DEFAULT_IPV4_MTU = 1280"
definition DEFAULT_IPV6_MTU :: int where "DEFAULT_IPV6_MTU = 1280"
definition MIN_RTO :: u64 where "MIN_RTO = 50"
definition MAX_RTO :: u64 where "MAX_RTO = 1000"
definition PORT_RANGE_LOW :: int where "PORT_RANGE_LOW = 60001"
definition PORT_RANGE_HIGH :: int where "PORT_RANGE_HIGH = 60999"
definition SERVER_ASSOCIATION_TIMEOUT :: u64 where "SERVER_ASSOCIATION_TIMEOUT = 40000"
definition PORT_HOP_INTERVAL :: u64 where "PORT_HOP_INTERVAL = 10000"
definition MAX_PORTS_OPEN :: nat where "MAX_PORTS_OPEN = 10"
definition MAX_OLD_SOCKET_AGE :: u64 where "MAX_OLD_SOCKET_AGE = 60000"
definition CONGESTION_TIMESTAMP_PENALTY :: u16 where "CONGESTION_TIMESTAMP_PENALTY = 500"
definition ADDED_BYTES :: nat where "ADDED_BYTES = 8 + 4"
definition SESSION_ADDED_BYTES :: nat where "SESSION_ADDED_BYTES = 16"

record connection =
  socks :: "int list"
  has_remote_addr :: bool
  remote_addr :: bytes
  remote_addr_len :: nat
  server :: bool
  MTU :: int
  conn_session :: session
  conn_direction :: direction
  saved_timestamp :: u16
  saved_timestamp_received_at :: u64
  expected_receiver_seq :: u64
  last_heard :: u64
  last_port_choice :: u64
  last_roundtrip_success :: u64
  RTT_hit :: bool
  SRTT :: rat
  RTTVAR :: rat
  send_error :: string

datatype family = AF_INET | AF_INET6 | AF_OTHER

definition set_MTU :: "connection \<Rightarrow> family \<Rightarrow> connection result" where
  "set_MTU c fam =
     (case fam of
        AF_INET \<Rightarrow> Inr (c\<lparr>MTU := DEFAULT_IPV4_MTU - IPV4_HEADER_LEN\<rparr>)
      | AF_INET6 \<Rightarrow> Inr (c\<lparr>MTU := DEFAULT_IPV6_MTU - IPV6_HEADER_LEN\<rparr>)
      | AF_OTHER \<Rightarrow> Inl (NetworkException ''Unknown address family'' 0))"

definition conn_setup :: "u64 \<Rightarrow> connection \<Rightarrow> connection" where
  "conn_setup now c = c\<lparr>last_port_choice := now\<rparr>"

text \<open>The fields as both constructors initialise them.\<close>

definition initial_connection :: "bool \<Rightarrow> session \<Rightarrow> connection" where
  "initial_connection is_server s =
     \<lparr>socks = [], has_remote_addr = False, remote_addr = [], remote_addr_len = 0, server = is_server,
      MTU = DEFAULT_SEND_MTU, conn_session = s, conn_direction = (if is_server then TO_CLIENT else TO_SERVER),
      saved_timestamp = - 1, saved_timestamp_received_at = 0, expected_receiver_seq = 0, last_heard = - 1,
      last_port_choice = - 1, last_roundtrip_success = - 1, RTT_hit = False, SRTT = 1000, RTTVAR = 500,
      send_error = []\<rparr>"

definition client_Connection :: "session \<Rightarrow> u64 \<Rightarrow> bytes \<Rightarrow> family \<Rightarrow> int \<Rightarrow> connection result" where
  "client_Connection s now addr fam fd =
     set_MTU ((conn_setup now (initial_connection False s))\<lparr>remote_addr := addr, remote_addr_len := length addr,
                has_remote_addr := True, socks := [fd]\<rparr>) fam"

text \<open>Binding a server socket: \<open>binds i\<close> tells whether \<^verbatim>\<open>bind\<close> succeeds on port \<open>i\<close>.\<close>

fun bind_loop :: "(int \<Rightarrow> bool) \<Rightarrow> int list \<Rightarrow> int option" where
  "bind_loop binds [] = None"
| "bind_loop binds (i # is) = (if binds i then Some i else bind_loop binds is)"

definition try_bind :: "connection \<Rightarrow> family \<Rightarrow> int \<Rightarrow> (int \<Rightarrow> bool) \<Rightarrow> int \<Rightarrow> string option \<Rightarrow> int \<Rightarrow> int
    \<Rightarrow> connection \<times> int result" where
  "try_bind c fam fd binds bind_errno name_error port_low port_high =
     (let search_low = (if port_low \<noteq> - 1 then port_low else PORT_RANGE_LOW);
          search_high = (if port_high \<noteq> - 1 then port_high else PORT_RANGE_HIGH);
          c1 = c\<lparr>socks := socks c @ [fd]\<rparr>
      in if search_low \<le> search_high \<and> fam = AF_OTHER
         then (c1, Inl (NetworkException ''Unknown address family'' 0))
         else
           (case bind_loop binds [search_low..search_high] of
              Some i \<Rightarrow>
                (case set_MTU c1 fam of Inl e \<Rightarrow> (c1, Inl e) | Inr c2 \<Rightarrow> (c2, Inr i))
            | None \<Rightarrow>
                (c1\<lparr>socks := butlast (socks c1)\<rparr>,
                 case name_error of
                   Some e \<Rightarrow> Inl (NetworkException (''bind: getnameinfo: '' @ e) 0)
                 | None \<Rightarrow> Inl (NetworkException ''bind'' bind_errno))))"

text \<open>The server constructor: the requested address first, then any local interface.  \<open>any\<close> and \<open>ip\<close> bundle the
  outcomes of the system calls for the two attempts; \<open>range\<close> is the parsed port range, None for a malformed one.\<close>

record bind_env =
  be_family :: family
  be_fd :: int
  be_binds :: "int \<Rightarrow> bool"
  be_errno :: int
  be_name_error :: "string option"

definition try_bind_env :: "connection \<Rightarrow> bind_env \<Rightarrow> int \<times> int \<Rightarrow> connection \<times> int result" where
  "try_bind_env c e r = try_bind c (be_family e) (be_fd e) (be_binds e) (be_errno e) (be_name_error e) (fst r) (snd r)"

definition server_Connection :: "session \<Rightarrow> u64 \<Rightarrow> (int \<times> int) option option \<Rightarrow> bind_env option \<Rightarrow> bind_env
    \<Rightarrow> (connection \<times> int) result" where
  "server_Connection s now desired_port ip any =
     (let c = conn_setup now (initial_connection True s)
      in if desired_port = Some None then Inl (NetworkException ''Invalid port range'' 0)
         else
           (let r = (case desired_port of Some (Some r) \<Rightarrow> r | _ \<Rightarrow> (- 1, - 1));
                first = (case ip of None \<Rightarrow> (c, None) | Some e \<Rightarrow>
                           (case try_bind_env c e r of
                              (c1, Inr i) \<Rightarrow> (c1, Some i)
                            | (c1, Inl _) \<Rightarrow> (c1, None)))
            in case first of
                 (c1, Some i) \<Rightarrow> Inr (c1, i)
               | (c1, None) \<Rightarrow>
                   (case try_bind_env c1 any r of (c2, Inr i) \<Rightarrow> Inr (c2, i) | (c2, Inl e) \<Rightarrow> Inl e)))"

definition prune_sockets :: "u64 \<Rightarrow> connection \<Rightarrow> connection" where
  "prune_sockets now c =
     (if length (socks c) > 1
      then
        (let s1 = (if now - last_port_choice c > MAX_OLD_SOCKET_AGE
                   then drop (length (socks c) - 1) (socks c) else socks c);
             s2 = (if length s1 > MAX_PORTS_OPEN then drop (length s1 - MAX_PORTS_OPEN) s1 else s1)
         in c\<lparr>socks := s2\<rparr>)
      else c)"

text \<open>\<open>new_sock\<close> is the outcome of \<^verbatim>\<open>socket\<close>: an errno or a descriptor.\<close>

definition hop_port :: "u64 \<Rightarrow> (int + int) \<Rightarrow> connection \<Rightarrow> connection \<times> unit result" where
  "hop_port now new_sock c =
     (if server c then (c, Inl AssertFailed)
      else
        (let c1 = conn_setup now c
         in if remote_addr_len c1 = 0 then (c1, Inl AssertFailed)
            else
              (case new_sock of
                 Inl errno \<Rightarrow> (c1, Inl (NetworkException ''socket'' errno))
               | Inr fd \<Rightarrow> (prune_sockets now (c1\<lparr>socks := socks c1 @ [fd]\<rparr>), Inr ()))))"

definition new_packet :: "u64 \<Rightarrow> u64 \<Rightarrow> connection \<Rightarrow> bytes \<Rightarrow> u64 \<times> connection \<times> packet result" where
  "new_packet counter now c s_payload =
     (let recent = (now - saved_timestamp_received_at c < 1000);
          outgoing_timestamp_reply =
            (if recent then saved_timestamp c + ucast (now - saved_timestamp_received_at c) else - 1);
          c1 = (if recent then c\<lparr>saved_timestamp := - 1, saved_timestamp_received_at := 0\<rparr> else c)
      in case Packet counter (conn_direction c1) (timestamp16 now) outgoing_timestamp_reply s_payload of
           (counter', r) \<Rightarrow> (counter', c1, r))"

datatype send_outcome = SendOk | SendError int string

definition EMSGSIZE :: int where "EMSGSIZE = 90"

text \<open>After \<^verbatim>\<open>sendto\<close>: record a failure, then let a server forget a silent client and a client hop ports.\<close>

definition note_sendto :: "send_outcome \<Rightarrow> connection \<Rightarrow> connection" where
  "note_sendto outcome c =
     (case outcome of
        SendOk \<Rightarrow> c
      | SendError errno msg \<Rightarrow>
          let c' = c\<lparr>send_error := ''sendto: '' @ msg\<rparr>
          in if errno = EMSGSIZE then c'\<lparr>MTU := DEFAULT_SEND_MTU\<rparr> else c')"

definition maintain :: "u64 \<Rightarrow> (int + int) \<Rightarrow> connection \<Rightarrow> connection \<times> unit result" where
  "maintain now new_sock c =
     (if server c
      then (if now - last_heard c > SERVER_ASSOCIATION_TIMEOUT then c\<lparr>has_remote_addr := False\<rparr> else c, Inr ())
      else if now - last_port_choice c > PORT_HOP_INTERVAL \<and> now - last_roundtrip_success c > PORT_HOP_INTERVAL
      then hop_port now new_sock c
      else (c, Inr ()))"

text \<open>\<open>send\<close> returns the counter, the connection and the datagram handed to \<^verbatim>\<open>sendto\<close> (None when it returns early).
  The argument \<^verbatim>\<open>sock()\<close> of \<^verbatim>\<open>sendto\<close> asserts that a socket is open.\<close>

definition send :: "(block \<Rightarrow> block) \<Rightarrow> u64 \<Rightarrow> u64 \<Rightarrow> send_outcome \<Rightarrow> (int + int) \<Rightarrow> connection \<Rightarrow> bytes
    \<Rightarrow> u64 \<times> connection \<times> bytes option result" where
  "send E counter now outcome new_sock c s =
     (if \<not> has_remote_addr c then (counter, c, Inr None)
      else
        (case new_packet counter now c s of
           (counter', c1, Inl e) \<Rightarrow> (counter', c1, Inl e)
         | (counter', c1, Inr px) \<Rightarrow>
             (case encrypt E (conn_session c1) (toMessage px) of
                (ses, Inl e) \<Rightarrow> (counter', c1\<lparr>conn_session := ses\<rparr>, Inl e)
              | (ses, Inr p) \<Rightarrow>
                  if socks c1 = [] then (counter', c1\<lparr>conn_session := ses\<rparr>, Inl AssertFailed)
                  else
                  (case maintain now new_sock (note_sendto outcome (c1\<lparr>conn_session := ses\<rparr>)) of
                     (c4, Inl e) \<Rightarrow> (counter', c4, Inl e)
                   | (c4, Inr _) \<Rightarrow> (counter', c4, Inr (Some p))))))"

text \<open>What \<^verbatim>\<open>recvmsg\<close> delivers: the datagram, its source, the ECN octet if there is one, for a truncated datagram the
  errno of the moment (which the code reports), and the error of \<^verbatim>\<open>getnameinfo\<close> on the source if it has one.\<close>

record datagram =
  dg_data :: bytes
  dg_from :: bytes
  dg_trunc :: "int option"
  dg_ecn :: "byte option"
  dg_name_error :: "string option"

definition update_RTT :: "u64 \<Rightarrow> packet \<Rightarrow> connection \<Rightarrow> connection result" where
  "update_RTT now p c =
     (if timestamp_reply p \<noteq> - 1
      then bindE (timestamp_diff (timestamp16 now) (timestamp_reply p)) (\<lambda>d.
             let R = dbl (of_nat (unat d))
             in if R < 5000
                then if \<not> RTT_hit c then Inr (c\<lparr>SRTT := R, RTTVAR := ddiv R 2, RTT_hit := True\<rparr>)
                     else
                       (let alpha = ddiv 1 8; beta = ddiv 1 4
                        in Inr (c\<lparr>RTTVAR := dadd (dmul (dsub 1 beta) (RTTVAR c)) (dmul beta \<bar>dsub (SRTT c) R\<bar>),
                                  SRTT := dadd (dmul (dsub 1 alpha) (SRTT c)) (dmul alpha R)\<rparr>))
                else Inr c)
      else Inr c)"

definition save_timestamp :: "u64 \<Rightarrow> bool \<Rightarrow> packet \<Rightarrow> connection \<Rightarrow> connection" where
  "save_timestamp now congestion_experienced p c =
     (if pkt_timestamp p \<noteq> - 1
      then c\<lparr>saved_timestamp := pkt_timestamp p - (if congestion_experienced then CONGESTION_TIMESTAMP_PENALTY else 0),
             saved_timestamp_received_at := now\<rparr>
      else c)"

definition recv_one :: "(block \<Rightarrow> block) \<Rightarrow> (block \<Rightarrow> block) \<Rightarrow> u64 \<Rightarrow> (int + datagram) \<Rightarrow> connection \<Rightarrow> connection \<times> bytes result" where
  "recv_one E D now dg c =
     (case dg of
        Inl errno \<Rightarrow> (c, Inl (NetworkException ''recvmsg'' errno))
      | Inr d \<Rightarrow>
          (case dg_trunc d of
             Some errno \<Rightarrow> (c, Inl (NetworkException ''Received oversize datagram'' errno))
           | None \<Rightarrow>
            let congestion_experienced = (case dg_ecn d of Some octet \<Rightarrow> octet AND 0x03 = 0x03 | None \<Rightarrow> False)
             in case decrypt E D (conn_session c) (dg_data d) of
                  (ses, r) \<Rightarrow>
                    let c1 = c\<lparr>conn_session := ses\<rparr>
                    in case bindE r Packet_of_message of
                         Inl e \<Rightarrow> (c1, Inl e)
                       | Inr p \<Rightarrow>
                           case dos_assert (pkt_direction p = (if server c1 then TO_SERVER else TO_CLIENT)) of
                             Inl e \<Rightarrow> (c1, Inl e)
                           | Inr _ \<Rightarrow>
                               if seq p < expected_receiver_seq c1 then (c1, Inr (payload p))
                               else
                                 (let c2 = save_timestamp now congestion_experienced p
                                             (c1\<lparr>expected_receiver_seq := seq p + 1\<rparr>)
                                  in case update_RTT now p c2 of
                                       Inl e \<Rightarrow> (c2, Inl e)
                                     | Inr c3 \<Rightarrow>
                                         let c4 = c3\<lparr>has_remote_addr := True, last_heard := now\<rparr>
                                         in if server c4
                                               \<and> (remote_addr_len c4 \<noteq> length (dg_from d) \<or> remote_addr c4 \<noteq> dg_from d)
                                            then (c4\<lparr>remote_addr := dg_from d, remote_addr_len := length (dg_from d)\<rparr>,
                                                  case dg_name_error d of
                                                    Some e \<Rightarrow> Inl (NetworkException (''recv_one: getnameinfo: '' @ e) 0)
                                                  | None \<Rightarrow> Inr (payload p))
                                            else (c4, Inr (payload p)))))"

definition EAGAIN :: int where "EAGAIN = 11"

text \<open>\<open>recv\<close> polls the sockets in order; \<open>poll fd\<close> is what \<^verbatim>\<open>recvmsg\<close> yields on a descriptor.  EWOULDBLOCK is EAGAIN.\<close>

fun recv_loop :: "(block \<Rightarrow> block) \<Rightarrow> (block \<Rightarrow> block) \<Rightarrow> u64 \<Rightarrow> (int \<Rightarrow> int + datagram) \<Rightarrow> int list \<Rightarrow> connection
    \<Rightarrow> connection \<times> bytes result" where
  "recv_loop E D now poll [] c = (c, Inl (NetworkException ''No packet received'' 0))"
| "recv_loop E D now poll (fd # fds) c =
     (case recv_one E D now (poll fd) c of
        (c1, Inl (NetworkException f errno)) \<Rightarrow>
          if errno = EAGAIN then recv_loop E D now poll fds c1 else (c1, Inl (NetworkException f errno))
      | (c1, Inl e) \<Rightarrow> (c1, Inl e)
      | (c1, Inr pl) \<Rightarrow> (prune_sockets now c1, Inr pl))"

definition conn_recv :: "(block \<Rightarrow> block) \<Rightarrow> (block \<Rightarrow> block) \<Rightarrow> u64 \<Rightarrow> (int \<Rightarrow> int + datagram) \<Rightarrow> connection
    \<Rightarrow> connection \<times> bytes result" where
  "conn_recv E D now poll c =
     (if socks c = [] then (c, Inl AssertFailed) else recv_loop E D now poll (socks c) c)"

definition timeout :: "connection \<Rightarrow> u64" where
  "timeout c =
     (let RTO = of_int \<lceil>dadd (SRTT c) (dmul 4 (RTTVAR c))\<rceil> :: u64
      in if RTO < MIN_RTO then MIN_RTO else if RTO > MAX_RTO then MAX_RTO else RTO)"

section \<open>Port ranges\<close>

definition parse_portrange :: "string \<Rightarrow> (int \<times> int) option" where
  "parse_portrange desired_port =
     (case strtol desired_port of (value1, err, end1) \<Rightarrow>
        if err \<or> (end1 \<noteq> [] \<and> hd end1 \<noteq> CHR '':'') then None
        else if value1 < 0 \<or> value1 > 65535 then None
        else if end1 = [] then Some (value1, value1)
        else
          (case strtol (tl end1) of (value2, err2, end2) \<Rightarrow>
             if err2 \<or> end2 \<noteq> [] then None
             else if value2 < 0 \<or> value2 > 65535 then None
             else if value1 > value2 then None
             else if value1 = 0 then None
             else Some (value1, value2)))"

section \<open>Packets on the wire\<close>

lemma bit_DIRECTION_MASK: "bit DIRECTION_MASK n \<longleftrightarrow> n = 63"
  unfolding DIRECTION_MASK_def bit_push_bit_iff by (auto simp: bit_1_iff)

lemma bit_SEQUENCE_MASK: "bit SEQUENCE_MASK n \<longleftrightarrow> n < 63"
  unfolding SEQUENCE_MASK_def bit_xor_iff bit_DIRECTION_MASK bit_minus_1_iff by auto

lemma and_SEQUENCE_MASK: "v AND SEQUENCE_MASK = take_bit 63 v"
  by (rule bit_word_eqI) (auto simp: bit_and_iff bit_SEQUENCE_MASK bit_take_bit_iff)

lemma and_DIRECTION_MASK: "v AND DIRECTION_MASK \<noteq> 0 \<longleftrightarrow> bit v 63"
  unfolding bit_eq_iff bit_and_iff by (auto simp: bit_DIRECTION_MASK dest: spec [of _ 63])

lemma take_bit_63_id: "take_bit 63 (v :: u64) = v \<longleftrightarrow> unat v < 2 ^ 63"
  by (simp only: word_unat_eq_iff unsigned_take_bit_eq take_bit_nat_eq_self_iff)

definition direction_seq :: "direction \<Rightarrow> u64 \<Rightarrow> u64" where
  "direction_seq d n = push_bit 63 (of_bool (d = TO_CLIENT)) OR take_bit 63 n"

lemma bit_direction_seq [simp]: "bit (direction_seq d n) 63 \<longleftrightarrow> d = TO_CLIENT"
  unfolding direction_seq_def bit_or_iff bit_push_bit_iff bit_take_bit_iff bit_of_bool_iff by simp

lemma take_bit_direction_seq [simp]: "take_bit 63 (direction_seq d n) = take_bit 63 n"
  unfolding direction_seq_def
  by (rule bit_word_eqI) (auto simp: bit_or_iff bit_push_bit_iff bit_take_bit_iff bit_of_bool_iff)

lemma direction_seq_join: "direction_seq (if bit v 63 then TO_CLIENT else TO_SERVER) (take_bit 63 v) = v"
proof (rule bit_word_eqI)
  fix k assume "k < LENGTH(64)"
  then have "k < 63 \<or> k = 63" by auto
  then show "bit (direction_seq (if bit v 63 then TO_CLIENT else TO_SERVER) (take_bit 63 v)) k = bit v k"
    by (auto simp: direction_seq_def bit_or_iff bit_push_bit_iff bit_take_bit_iff bit_of_bool_iff)
qed

lemma Packet_of_message_eq:
  "Packet_of_message m = Inr p \<longleftrightarrow> 4 \<le> length (msg_text m) \<and>
    p = \<lparr>seq = take_bit 63 (nonce_val (msg_nonce m)),
         pkt_direction = (if bit (nonce_val (msg_nonce m)) 63 then TO_CLIENT else TO_SERVER),
         pkt_timestamp = be16toh (take 2 (msg_text m)), timestamp_reply = be16toh (take 2 (drop 2 (msg_text m))),
         payload = drop 4 (msg_text m)\<rparr>"
  by (auto simp: Packet_of_message_def dos_assert_def result_simps Let_def and_SEQUENCE_MASK and_DIRECTION_MASK)

lemma toMessage_simps:
  "msg_nonce (toMessage p) = Nonce_val (direction_seq (pkt_direction p) (seq p))"
  "msg_text (toMessage p) = htobe16 (pkt_timestamp p) @ htobe16 (timestamp_reply p) @ payload p"
  by (simp_all add: toMessage_def and_SEQUENCE_MASK direction_seq_def)

lemma nonce_ok_toMessage [simp]: "nonce_ok (msg_nonce (toMessage p))"
  by (simp add: toMessage_simps)

lemma length_toMessage [simp]: "length (msg_text (toMessage p)) = length (payload p) + 4"
  by (simp add: toMessage_simps)

lemma Packet_of_toMessage: "unat (seq p) < 2 ^ 63 \<Longrightarrow> Packet_of_message (toMessage p) = Inr p"
  using be16toh_htobe16 [of "pkt_timestamp p" "[]"] be16toh_htobe16 [of "timestamp_reply p" "[]"]
  by (cases p; cases "pkt_direction p") (auto simp: Packet_of_message_eq toMessage_simps take_bit_63_id [THEN iffD2])

lemma toMessage_of_Packet:
  assumes "nonce_ok (msg_nonce m)" "Packet_of_message m = Inr p"
  shows "toMessage p = m \<and> unat (seq p) < 2 ^ 63"
proof -
  obtain v where v: "msg_nonce m = Nonce_val v" using assms(1) by (auto simp: nonce_ok_iff)
  note p = assms(2) [unfolded Packet_of_message_eq v nonce_val_Nonce_val]
  have "toMessage p = m"
  proof (cases m)
    case (fields n t)
    have "take 2 t @ take 2 (drop 2 t) @ drop 4 t = t"
      using append_take_drop_id [of 2 "drop 2 t"] by simp
    moreover have "htobe16 (be16toh (take 2 t)) = take 2 t" "htobe16 (be16toh (take 2 (drop 2 t))) = take 2 (drop 2 t)"
      using p fields by (intro htobe16_be16toh; simp)+
    moreover have "direction_seq (pkt_direction p) (seq p) = v"
      using p direction_seq_join [of v] by simp
    ultimately show ?thesis
      using p v fields by (intro message.equality) (simp_all add: toMessage_simps)
  qed
  moreover have "take_bit 63 (seq p) = seq p" using p by simp
  ultimately show ?thesis by (simp add: take_bit_63_id)
qed

section \<open>Receiving\<close>

lemma timestamp_diff_eq: "timestamp_diff a b = Inr (a - b)"
proof -
  have "uint a < 65536" "uint b < 65536" "0 \<le> uint a" "0 \<le> uint b"
    using uint_lt2p [of a] uint_lt2p [of b] by simp_all
  then have "0 \<le> uint a - uint b + 65536" "uint a - uint b \<le> 65535" by linarith+
  moreover have "(65536 :: u16) = 0" by simp
  ultimately show ?thesis
    by (cases "uint a < uint b") (simp_all add: timestamp_diff_def Let_def)
qed

lemma update_RTT_total: "\<exists>hit srtt var. update_RTT now p c = Inr (c\<lparr>RTT_hit := hit, SRTT := srtt, RTTVAR := var\<rparr>)"
proof -
  have "c = c\<lparr>RTT_hit := RTT_hit c, SRTT := SRTT c, RTTVAR := RTTVAR c\<rparr>" by simp
  moreover have "c\<lparr>RTTVAR := v, SRTT := s\<rparr> = c\<lparr>RTT_hit := RTT_hit c, SRTT := s, RTTVAR := v\<rparr>"
    "c\<lparr>SRTT := s, RTTVAR := v, RTT_hit := True\<rparr> = c\<lparr>RTT_hit := True, SRTT := s, RTTVAR := v\<rparr>" for s v
    by simp_all
  ultimately show ?thesis
    unfolding update_RTT_def timestamp_diff_eq bindE_Inr Let_def by (metis (full_types))
qed

definition inbound :: "connection \<Rightarrow> direction" where
  "inbound c = (if server c then TO_SERVER else TO_CLIENT)"

text \<open>A datagram is authentic for a connection when it is the sealed form of a packet in the connection's inbound
  direction.\<close>

definition authentic :: "(block \<Rightarrow> block) \<Rightarrow> connection \<Rightarrow> bytes \<Rightarrow> packet \<Rightarrow> bool" where
  "authentic E c data p \<longleftrightarrow> unat (seq p) < 2 ^ 63 \<and> pkt_direction p = inbound c
     \<and> length (payload p) + 20 \<le> RECEIVE_MTU \<and> data = sealed E (toMessage p)"

definition conn_ok :: "(block \<Rightarrow> block) \<Rightarrow> (block \<Rightarrow> block) \<Rightarrow> connection \<Rightarrow> bool" where
  "conn_ok E D c \<longleftrightarrow> session_ok E (conn_session c) \<and> (\<forall>b. D (E b) = b) \<and> (\<forall>b. E (D b) = b)"

lemma decrypt_packet_iff:
  assumes "conn_ok E D c" "length data < 2 ^ 31"
  shows "(\<exists>ses m. decrypt E D (conn_session c) data = (ses, Inr m) \<and> Packet_of_message m = Inr p \<and> pkt_direction p = inbound c)
    \<longleftrightarrow> authentic E c data p"
proof -
  have iff: "snd (decrypt E D (conn_session c) data) = Inr m \<longleftrightarrow>
      nonce_ok (msg_nonce m) \<and> length (msg_text m) + 16 \<le> RECEIVE_MTU \<and> data = sealed E m" for m
    using decrypt_Inr_iff [of E "conn_session c" data D m] assms by (simp add: conn_ok_def)
  show ?thesis (is "?L \<longleftrightarrow> _")
  proof
    assume ?L
    then obtain m where m: "snd (decrypt E D (conn_session c) data) = Inr m" "Packet_of_message m = Inr p"
      "pkt_direction p = inbound c" by force
    with iff [of m] toMessage_of_Packet [OF _ m(2)] show "authentic E c data p"
      by (auto simp: authentic_def)
  next
    assume "authentic E c data p"
    then have "snd (decrypt E D (conn_session c) data) = Inr (toMessage p)" "Packet_of_message (toMessage p) = Inr p"
      "pkt_direction p = inbound c"
      using iff [of "toMessage p"] by (auto simp: authentic_def Packet_of_toMessage)
    then show ?L by (metis prod.collapse)
  qed
qed

text \<open>The three outcomes of receiving a datagram that was not truncated.\<close>

lemma recv_one_not_authentic:
  assumes "conn_ok E D c" "length (dg_data d) < 2 ^ 31" "dg_trunc d = None" "\<nexists>p. authentic E c (dg_data d) p"
  shows "\<exists>ses e. session_ok E ses \<and> recv_one E D now (Inr d) c = (c\<lparr>conn_session := ses\<rparr>, Inl e)"
proof -
  obtain ses r where dec: "decrypt E D (conn_session c) (dg_data d) = (ses, r)" by fastforce
  have "session_ok E ses"
    using decrypt_ok [of E "conn_session c" "dg_data d" D] assms(1,2) dec by (simp add: conn_ok_def)
  moreover have "\<exists>e. recv_one E D now (Inr d) c = (c\<lparr>conn_session := ses\<rparr>, Inl e)"
  proof (cases "bindE r Packet_of_message")
    case (Inl e)
    then show ?thesis using assms(3) dec by (simp add: recv_one_def Let_def)
  next
    case (Inr p)
    then have "pkt_direction p \<noteq> inbound c"
      using decrypt_packet_iff [OF assms(1,2)] assms(4) dec by (auto simp: result_simps)
    then have "dos_assert (pkt_direction p = (if server c then TO_SERVER else TO_CLIENT)) = Inl
        (CryptoException ''Illegal counterparty input (possible denial of service)'' False)"
      by (simp add: dos_assert_def inbound_def)
    with Inr show ?thesis using assms(3) dec by (simp add: recv_one_def Let_def)
  qed
  ultimately show ?thesis by blast
qed

lemma recv_one_authentic:
  assumes "conn_ok E D c" "length (dg_data d) < 2 ^ 31" "dg_trunc d = None" "authentic E c (dg_data d) p"
  shows "\<exists>ses. session_ok E ses \<and> blocks_encrypted ses = blocks_encrypted (conn_session c) \<and>
    (if seq p < expected_receiver_seq c
     then recv_one E D now (Inr d) c = (c\<lparr>conn_session := ses\<rparr>, Inr (payload p))
     else \<exists>c'. fst (recv_one E D now (Inr d) c) = c' \<and> expected_receiver_seq c' = seq p + 1
        \<and> conn_session c' = ses \<and> server c' = server c \<and> socks c' = socks c \<and> MTU c' = MTU c
        \<and> conn_direction c' = conn_direction c \<and> has_remote_addr c' \<and> last_heard c' = now
        \<and> remote_addr c' = (if server c then dg_from d else remote_addr c)
        \<and> (snd (recv_one E D now (Inr d) c) = Inr (payload p)
            \<or> dg_name_error d \<noteq> None \<and> (\<exists>e. snd (recv_one E D now (Inr d) c) = Inl e)))"
proof -
  obtain ses m where dec: "decrypt E D (conn_session c) (dg_data d) = (ses, Inr m)"
      "Packet_of_message m = Inr p" "pkt_direction p = inbound c"
    using decrypt_packet_iff [OF assms(1,2)] assms(4) by blast
  have ok: "session_ok E ses" "blocks_encrypted ses = blocks_encrypted (conn_session c)"
    using decrypt_ok [of E "conn_session c" "dg_data d" D] decrypt_blocks [of E D "conn_session c" "dg_data d"] assms(1,2) dec
    by (simp_all add: conn_ok_def)
  let ?c1 = "c\<lparr>conn_session := ses\<rparr>"
  define ce where "ce = (case dg_ecn d of Some octet \<Rightarrow> octet AND 0x03 = 0x03 | None \<Rightarrow> False)"
  define c2 where "c2 = save_timestamp now ce p (?c1\<lparr>expected_receiver_seq := seq p + 1\<rparr>)"
  obtain hit srtt var where upd: "update_RTT now p c2 = Inr (c2\<lparr>RTT_hit := hit, SRTT := srtt, RTTVAR := var\<rparr>)"
    using update_RTT_total by blast
  have "recv_one E D now (Inr d) c =
      (if seq p < expected_receiver_seq c then (?c1, Inr (payload p))
       else
         (let c4 = c2\<lparr>RTT_hit := hit, SRTT := srtt, RTTVAR := var, has_remote_addr := True, last_heard := now\<rparr>
          in if server c4 \<and> (remote_addr_len c4 \<noteq> length (dg_from d) \<or> remote_addr c4 \<noteq> dg_from d)
             then (c4\<lparr>remote_addr := dg_from d, remote_addr_len := length (dg_from d)\<rparr>,
                   case dg_name_error d of
                     Some e \<Rightarrow> Inl (NetworkException (''recv_one: getnameinfo: '' @ e) 0)
                   | None \<Rightarrow> Inr (payload p))
             else (c4, Inr (payload p))))"
    using dec assms(3) upd
    by (cases "seq p < expected_receiver_seq c")
      (simp_all add: recv_one_def dos_assert_def inbound_def ce_def [symmetric] c2_def [symmetric] Let_def)
  moreover have "conn_session c2 = ses" "expected_receiver_seq c2 = seq p + 1" "server c2 = server c" "socks c2 = socks c"
    "MTU c2 = MTU c" "conn_direction c2 = conn_direction c" "remote_addr c2 = remote_addr c"
    by (simp_all add: c2_def save_timestamp_def)
  ultimately show ?thesis
    using ok by (intro exI [of _ ses]) (auto simp: Let_def split: option.splits)
qed

lemma authentic_unique:
  assumes "conn_ok E D c" "length data < 2 ^ 31" "authentic E c data p" "authentic E c data q"
  shows "p = q"
  using decrypt_packet_iff [OF assms(1,2), of p] decrypt_packet_iff [OF assms(1,2), of q] assms(3,4) by auto

lemma authentic_cong: "server c = server c' \<Longrightarrow> authentic E c data p \<longleftrightarrow> authentic E c' data p"
  by (simp add: authentic_def inbound_def)

fun input_ok :: "int + datagram \<Rightarrow> bool" where
  "input_ok (Inl errno) \<longleftrightarrow> True"
| "input_ok (Inr d) \<longleftrightarrow> length (dg_data d) < 2 ^ 31"

definition recv_keeps :: "(block \<Rightarrow> block) \<Rightarrow> (block \<Rightarrow> block) \<Rightarrow> connection \<Rightarrow> connection \<Rightarrow> bool" where
  "recv_keeps E D c c' \<longleftrightarrow> conn_ok E D c' \<and> server c' = server c \<and> conn_direction c' = conn_direction c
     \<and> socks c' = socks c \<and> MTU c' = MTU c \<and> expected_receiver_seq c \<le> expected_receiver_seq c'"

lemma recv_keeps_refl: "conn_ok E D c \<Longrightarrow> recv_keeps E D c c"
  by (simp add: recv_keeps_def)

lemma recv_keeps_trans: "recv_keeps E D c c1 \<Longrightarrow> recv_keeps E D c1 c2 \<Longrightarrow> recv_keeps E D c c2"
  by (auto simp: recv_keeps_def)

lemma recv_keeps_session: "conn_ok E D c \<Longrightarrow> session_ok E ses \<Longrightarrow> recv_keeps E D c (c\<lparr>conn_session := ses\<rparr>)"
  by (simp add: recv_keeps_def conn_ok_def)

lemma seq_Suc: "unat (n :: u64) < 2 ^ 63 \<Longrightarrow> unat (n + 1) = unat n + 1 \<and> n < n + 1"
  by (simp add: unat_word_ariths word_less_nat_alt)

lemma recv_one_keeps:
  assumes "conn_ok E D c" "input_ok dg"
  shows "recv_keeps E D c (fst (recv_one E D now dg c))"
proof (cases dg)
  case (Inl errno)
  then show ?thesis using assms by (simp add: recv_one_def recv_keeps_refl)
next
  case (Inr d)
  with assms(2) have len: "length (dg_data d) < 2 ^ 31" by simp
  consider (trunc) errno where "dg_trunc d = Some errno" | (bad) "dg_trunc d = None" "\<nexists>p. authentic E c (dg_data d) p"
    | (good) p where "dg_trunc d = None" "authentic E c (dg_data d) p" by (cases "dg_trunc d") auto
  then show ?thesis
  proof cases
    case trunc
    then show ?thesis using Inr assms(1) by (simp add: recv_one_def recv_keeps_refl)
  next
    case bad
    from recv_one_not_authentic [OF assms(1) len bad, of now] show ?thesis
      using assms(1) Inr by (auto simp: recv_keeps_session)
  next
    case good
    show ?thesis
    proof (cases "seq p < expected_receiver_seq c")
      case True
      with recv_one_authentic [OF assms(1) len good, of now] show ?thesis
        using assms(1) Inr by (auto simp: recv_keeps_session)
    next
      case False
      have "expected_receiver_seq c \<le> seq p + 1"
        using False good(2) seq_Suc [of "seq p"] by (auto simp: authentic_def)
      with False recv_one_authentic [OF assms(1) len good, of now] show ?thesis
        using assms(1) Inr by (auto simp: recv_keeps_def conn_ok_def)
    qed
  qed
qed

lemma accepted_authentic:
  assumes "conn_ok E D c" "length (dg_data d) < 2 ^ 31" "snd (recv_one E D now (Inr d) c) = Inr pl"
  shows "dg_trunc d = None \<and> (\<exists>p. authentic E c (dg_data d) p \<and> payload p = pl
    \<and> seq p < expected_receiver_seq (fst (recv_one E D now (Inr d) c)))"
proof -
  have t: "dg_trunc d = None" using assms(3) by (cases "dg_trunc d") (auto simp: recv_one_def)
  obtain p where p: "authentic E c (dg_data d) p"
    using recv_one_not_authentic [OF assms(1,2) t, of now] assms(3) by fastforce
  have "payload p = pl \<and> seq p < expected_receiver_seq (fst (recv_one E D now (Inr d) c))"
  proof (cases "seq p < expected_receiver_seq c")
    case True
    with recv_one_authentic [OF assms(1,2) t p, of now] assms(3) show ?thesis by auto
  next
    case False
    moreover have "seq p < seq p + 1" using p seq_Suc by (auto simp: authentic_def)
    ultimately show ?thesis
      using recv_one_authentic [OF assms(1,2) t p, of now] assms(3) by auto
  qed
  with t p show ?thesis by blast
qed

section \<open>Sending\<close>

lemma new_packet_Inr:
  assumes "new_packet counter now c s = (counter', c1, Inr px)"
  shows "counter' = counter + 1 \<and> counter' \<noteq> 0 \<and> seq px = counter \<and> pkt_direction px = conn_direction c \<and> payload px = s
    \<and> (\<exists>ts ra. c1 = c\<lparr>saved_timestamp := ts, saved_timestamp_received_at := ra\<rparr>)"
proof -
  have "\<exists>ts ra. c = c\<lparr>saved_timestamp := ts, saved_timestamp_received_at := ra\<rparr>"
    by (rule exI [of _ "saved_timestamp c"], rule exI [of _ "saved_timestamp_received_at c"]) simp
  with assms show ?thesis
    by (auto simp: new_packet_def Packet_def unique_def Let_def split: if_splits)
qed

lemma prune_sockets_fields [simp]:
  "conn_session (prune_sockets now c) = conn_session c" "server (prune_sockets now c) = server c"
  "conn_direction (prune_sockets now c) = conn_direction c" "has_remote_addr (prune_sockets now c) = has_remote_addr c"
  "remote_addr_len (prune_sockets now c) = remote_addr_len c" "MTU (prune_sockets now c) = MTU c"
  "expected_receiver_seq (prune_sockets now c) = expected_receiver_seq c"
  by (simp_all add: prune_sockets_def Let_def)

lemma hop_port_fields:
  assumes "hop_port now ns c = (c', r)"
  shows "conn_session c' = conn_session c \<and> server c' = server c \<and> conn_direction c' = conn_direction c"
  using assms by (auto simp: hop_port_def conn_setup_def Let_def split: if_splits sum.splits)

lemma maintain_fields:
  assumes "maintain now ns c = (c', r)"
  shows "conn_session c' = conn_session c \<and> server c' = server c \<and> conn_direction c' = conn_direction c"
  using assms hop_port_fields [of now ns c c' r] by (auto simp: maintain_def split: if_splits)

lemma note_sendto_fields [simp]:
  "conn_session (note_sendto oc c) = conn_session c" "server (note_sendto oc c) = server c"
  "conn_direction (note_sendto oc c) = conn_direction c" "socks (note_sendto oc c) = socks c"
  "expected_receiver_seq (note_sendto oc c) = expected_receiver_seq c"
  by (auto simp: note_sendto_def Let_def split: send_outcome.splits)

lemma send_Inr:
  assumes "send E counter now outcome ns c s = (counter', c', Inr (Some p))"
  obtains px where "encrypt E (conn_session c) (toMessage px) = (conn_session c', Inr p)"
    "counter' = counter + 1" "counter' \<noteq> 0" "seq px = counter" "pkt_direction px = conn_direction c" "payload px = s"
    "server c' = server c" "conn_direction c' = conn_direction c"
proof -
  obtain c1 px where np: "new_packet counter now c s = (counter', c1, Inr px)"
    using assms by (auto simp: send_def split: if_splits prod.splits sum.splits)
  obtain ses where en: "encrypt E (conn_session c) (toMessage px) = (ses, Inr p)"
    using assms np new_packet_Inr [OF np] by (auto simp: send_def split: if_splits prod.splits sum.splits)
  obtain u where "maintain now ns (note_sendto outcome (c1\<lparr>conn_session := ses\<rparr>)) = (c', Inr u)"
    using assms np en new_packet_Inr [OF np] by (auto simp: send_def split: if_splits prod.splits sum.splits)
  from maintain_fields [OF this] en new_packet_Inr [OF np] show ?thesis by (intro that [of px]) auto
qed

text \<open>Anything a connection does after the handshake: datagrams or errors coming in, datagrams going out with whatever outcome.\<close>

datatype traffic = Received u64 "int + datagram" | Sent u64 u64 send_outcome "int + int" bytes

fun traffic_ok :: "traffic \<Rightarrow> bool" where
  "traffic_ok (Received now dg) \<longleftrightarrow> input_ok dg"
| "traffic_ok (Sent counter now outcome ns s) \<longleftrightarrow> True"

fun exchange :: "(block \<Rightarrow> block) \<Rightarrow> (block \<Rightarrow> block) \<Rightarrow> connection \<Rightarrow> traffic \<Rightarrow> connection" where
  "exchange E D c (Received now dg) = fst (recv_one E D now dg c)"
| "exchange E D c (Sent counter now outcome ns s) = fst (snd (send E counter now outcome ns c s))"

definition exchange_all :: "(block \<Rightarrow> block) \<Rightarrow> (block \<Rightarrow> block) \<Rightarrow> connection \<Rightarrow> traffic list \<Rightarrow> connection" where
  "exchange_all E D c ts = foldl (exchange E D) c ts"

lemma maintain_seq: "maintain now ns c = (c', r) \<Longrightarrow> expected_receiver_seq c' = expected_receiver_seq c"
  by (auto simp: maintain_def hop_port_def conn_setup_def Let_def split: if_splits sum.splits)

lemma new_packet_fields:
  assumes "new_packet counter now c s = (counter', c1, r)"
  shows "conn_session c1 = conn_session c \<and> server c1 = server c \<and> expected_receiver_seq c1 = expected_receiver_seq c"
  using assms by (auto simp: new_packet_def Let_def split: if_splits prod.splits)

lemma send_keeps:
  assumes "conn_ok E D c" "send E counter now outcome ns c s = (counter', c', r)"
  shows "conn_ok E D c' \<and> server c' = server c \<and> expected_receiver_seq c' = expected_receiver_seq c"
proof -
  obtain n1 c1 q where np: "new_packet counter now c s = (n1, c1, q)" by (cases "new_packet counter now c s")
  note c1 = new_packet_fields [OF np]
  have en: "session_ok E ses" if "encrypt E (conn_session c1) (toMessage px) = (ses, r')" for px ses r'
    using encrypt_ok [of E "conn_session c" "toMessage px"] that c1 assms(1) nonce_ok_toMessage [of px]
    by (simp add: conn_ok_def nonce_ok_def)
  consider "c' = c" | "c' = c1" | px ses r' where "encrypt E (conn_session c1) (toMessage px) = (ses, r')"
      "c' = c1\<lparr>conn_session := ses\<rparr> \<or> (\<exists>r''. maintain now ns (note_sendto outcome (c1\<lparr>conn_session := ses\<rparr>)) = (c', r''))"
    using assms(2) np by (auto simp: send_def split: if_splits prod.splits sum.splits)
  then show ?thesis
  proof cases
    case 3
    then show ?thesis
      using en [OF 3(1)] c1 assms(1) maintain_fields [of now ns "note_sendto outcome (c1\<lparr>conn_session := ses\<rparr>)" c']
        maintain_seq [of now ns "note_sendto outcome (c1\<lparr>conn_session := ses\<rparr>)" c']
      by (auto simp: conn_ok_def)
  qed (use c1 assms(1) in \<open>simp_all add: conn_ok_def\<close>)
qed

lemma exchange_keeps:
  assumes "conn_ok E D c" "traffic_ok t"
  shows "conn_ok E D (exchange E D c t) \<and> server (exchange E D c t) = server c
    \<and> expected_receiver_seq c \<le> expected_receiver_seq (exchange E D c t)"
proof (cases t)
  case (Received now dg)
  then show ?thesis using assms recv_one_keeps [of E D c dg now] by (simp add: recv_keeps_def)
next
  case (Sent counter now outcome ns s)
  then show ?thesis using send_keeps [OF assms(1)]
    by (cases "send E counter now outcome ns c s") auto
qed

lemma exchange_all_keeps:
  assumes "conn_ok E D c" "list_all traffic_ok ts"
  shows "conn_ok E D (exchange_all E D c ts) \<and> server (exchange_all E D c ts) = server c
    \<and> expected_receiver_seq c \<le> expected_receiver_seq (exchange_all E D c ts)"
  using assms
proof (induction ts arbitrary: c)
  case (Cons t ts)
  with exchange_keeps [of E D c t] Cons.IH [of "exchange E D c t"] show ?case
    by (auto simp: exchange_all_def intro: order_trans)
qed (simp add: exchange_all_def)

definition outbound :: "connection \<Rightarrow> direction" where
  "outbound c = (if server c then TO_CLIENT else TO_SERVER)"

lemma send_sealed:
  assumes "conn_ok E D c" "conn_direction c = outbound c"
    and "send E counter now outcome ns c s = (counter', c', Inr (Some p))"
  shows "\<exists>px. p = sealed E (toMessage px) \<and> seq px = counter \<and> pkt_direction px = outbound c \<and> payload px = s
    \<and> length s + 20 \<le> RECEIVE_MTU"
proof -
  obtain px where px: "encrypt E (conn_session c) (toMessage px) = (conn_session c', Inr p)" "seq px = counter"
      "pkt_direction px = outbound c" "payload px = s"
    by (rule send_Inr [OF assms(3)]) (metis assms(2))
  then have "p = sealed E (toMessage px) \<and> length s + 20 \<le> RECEIVE_MTU"
    using encrypt_Inr_iff [of E "conn_session c" "toMessage px" p] assms(1) nonce_ok_toMessage [of px]
    by (simp add: conn_ok_def nonce_ok_def)
  with px show ?thesis by blast
qed

lemma length_sealed: "length (sealed E (toMessage px)) = length (payload px) + 28"
  using aes_ocb.length_wire [of "toMessage px" E] by simp

text \<open>A client and a server of one session, for the concrete instances below; \<open>swap_if_le\<close> plays the block cipher.\<close>

definition example_session :: session where
  "example_session = \<lparr>ses_ctx = key_ctx swap_if_le, blocks_encrypted = 0\<rparr>"

definition example_connection :: "bool \<Rightarrow> connection" where
  "example_connection is_server = (initial_connection is_server example_session)\<lparr>socks := [3], has_remote_addr := True\<rparr>"

definition example_packet :: packet where
  "example_packet = \<lparr>seq = 0, pkt_direction = TO_SERVER, pkt_timestamp = 2000, timestamp_reply = - 1, payload = [1, 2, 3]\<rparr>"

definition example_wire :: bytes where
  "example_wire = sealed swap_if_le (toMessage example_packet)"

definition example_datagram :: "bytes \<Rightarrow> datagram" where
  "example_datagram from = \<lparr>dg_data = example_wire, dg_from = from, dg_trunc = None,
     dg_ecn = None, dg_name_error = None\<rparr>"

lemma example_simps [simp]:
  "dg_data (example_datagram from) = example_wire" "dg_from (example_datagram from) = from"
  "dg_trunc (example_datagram from) = None" "dg_name_error (example_datagram from) = None"
  "server (example_connection b) = b" "remote_addr (example_connection b) = []"
  "expected_receiver_seq (example_connection b) = 0" "conn_session (example_connection b) = example_session"
  "conn_direction (example_connection b) = outbound (example_connection b)" "has_remote_addr (example_connection b)"
  "socks (example_connection b) = [3]"
  by (simp_all add: example_datagram_def example_connection_def initial_connection_def outbound_def)

lemma example_ok: "conn_ok swap_if_le swap_if_le (example_connection b)"
  by (simp add: conn_ok_def session_ok_def example_connection_def initial_connection_def example_session_def
    swap_if_le_involution)

lemma example_len: "length example_wire < 2 ^ 31"
  by (simp add: example_wire_def length_sealed example_packet_def)

lemma example_authentic: "authentic swap_if_le (example_connection True) example_wire example_packet"
  by (simp add: authentic_def example_wire_def inbound_def example_packet_def RECEIVE_MTU_def)

lemma example_send:
  "\<exists>c'. send swap_if_le 0 2000 SendOk (Inr 3) (example_connection False) [1, 2, 3]
     = (1, c', Inr (Some example_wire))"
proof -
  have "snd (encrypt swap_if_le example_session (toMessage example_packet)) = Inr (sealed swap_if_le (toMessage example_packet))"
    using encrypt_Inr_iff [of swap_if_le example_session "toMessage example_packet"] nonce_ok_toMessage [of example_packet]
    by (simp add: session_ok_def example_session_def nonce_ok_def RECEIVE_MTU_def example_packet_def blocks_of_def)
  moreover have "new_packet 0 2000 (example_connection False) [1, 2, 3] = (1, example_connection False, Inr example_packet)"
    by (simp add: new_packet_def Packet_def unique_def example_connection_def initial_connection_def example_packet_def
      timestamp16_def Let_def)
  ultimately show ?thesis
    by (cases "encrypt swap_if_le example_session (toMessage example_packet)")
      (simp add: send_def note_sendto_def maintain_def Let_def example_connection_def initial_connection_def
        PORT_HOP_INTERVAL_def example_wire_def)
qed

section \<open>Properties of connections\<close>

text \<open>C18. Packets and messages are the same information: a message with a well-formed nonce parses to a packet exactly
  when the packet, with its sequence number below 2^63, is written as that message.  Direction bit, sequence number, both
  timestamps and payload all survive.\<close>

theorem packet_message_bijection:
  "nonce_ok (msg_nonce m) \<and> Packet_of_message m = Inr p \<longleftrightarrow> unat (seq p) < 2 ^ 63 \<and> toMessage p = m"
  using toMessage_of_Packet Packet_of_toMessage by auto

text \<open>C8. Datagrams reach the peer and only the peer: what one side hands to \<^verbatim>\<open>sendto\<close> is accepted by the other side,
  which gets back exactly the payload, and is refused by every connection of the sender's own side, so reflecting packets
  to their sender achieves nothing.\<close>

theorem datagram_accepted_by_peer_only:
  assumes "conn_ok E D c" "conn_direction c = outbound c" "unat counter < 2 ^ 63"
    and "send E counter now outcome ns c s = (counter', c', Inr (Some p))"
    and "conn_ok E D peer" "dg_data d = p" "dg_trunc d = None" "dg_name_error d = None"
  shows "if server peer \<noteq> server c then snd (recv_one E D now' (Inr d) peer) = Inr s
    else \<exists>e. snd (recv_one E D now' (Inr d) peer) = Inl e"
proof -
  obtain px where px: "p = sealed E (toMessage px)" "seq px = counter" "pkt_direction px = outbound c" "payload px = s"
      "length s + 20 \<le> RECEIVE_MTU"
    using send_sealed [OF assms(1,2,4)] by blast
  have len: "length (dg_data d) < 2 ^ 31" using px assms(6) by (simp add: length_sealed RECEIVE_MTU_def)
  show ?thesis
  proof (cases "server peer = server c")
    case False
    then have "authentic E peer (dg_data d) px"
      using px assms(3,6) by (simp add: authentic_def inbound_def outbound_def)
    from recv_one_authentic [OF assms(5) len assms(7) this, of now'] False px(4) assms(8) show ?thesis
      by (auto split: if_splits)
  next
    case True
    have "\<not> authentic E peer (dg_data d) q" for q
    proof
      assume q: "authentic E peer (dg_data d) q"
      have "authentic E (peer\<lparr>server := \<not> server c\<rparr>) (dg_data d) px"
        using px assms(3,6) by (simp add: authentic_def inbound_def outbound_def)
      then have "snd (decrypt E D (conn_session peer) (dg_data d)) = Inr (toMessage px)"
        "snd (decrypt E D (conn_session peer) (dg_data d)) = Inr (toMessage q)"
        using decrypt_Inr_iff [of E "conn_session peer" "dg_data d" D] q assms(5) len
        by (auto simp: authentic_def conn_ok_def)
      then have "Packet_of_message (toMessage px) = Packet_of_message (toMessage q)" by simp
      then have "px = q" using q px(2) assms(3) by (simp add: authentic_def Packet_of_toMessage)
      with q px(3) True show False by (simp add: authentic_def inbound_def outbound_def split: if_splits)
    qed
    with recv_one_not_authentic [OF assms(5) len assms(7), of now'] True show ?thesis by fastforce
  qed
qed

theorem datagram_accepted_by_peer_only_witness:
  "\<exists>c'. send swap_if_le 0 2000 SendOk (Inr 3) (example_connection False) [1, 2, 3] = (1, c', Inr (Some example_wire))
    \<and> snd (recv_one swap_if_le swap_if_le 2100 (Inr (example_datagram [9])) (example_connection True)) = Inr [1, 2, 3]
    \<and> (\<exists>e. snd (recv_one swap_if_le swap_if_le 2100 (Inr (example_datagram [9])) (example_connection False)) = Inl e)"
proof -
  obtain c' where c': "send swap_if_le 0 2000 SendOk (Inr 3) (example_connection False) [1, 2, 3]
       = (1, c', Inr (Some example_wire))" using example_send by blast
  note f = datagram_accepted_by_peer_only [OF example_ok _ _ c', where d = "example_datagram [9]" and now' = 2100]
  from f [of "example_connection True"] f [of "example_connection False"] example_ok c' show ?thesis by simp
qed

text \<open>C7. Replays are harmless: once a connection has accepted a datagram, receiving the same bytes again, at any later time,
  after any further sending and receiving on the connection and from any source address, yields the same payload and leaves
  every field of the connection but its session as it was: no timestamp, no round-trip estimate, no liveness, no sequence
  number and no change of the peer's address.  The session keeps its key tables and its count of encrypted blocks, and it
  seals and opens every message as it did before; only its scratch values and its nonce cache may differ.\<close>

theorem replay_changes_nothing:
  assumes ok: "conn_ok E D c" and len: "length (dg_data d) < 2 ^ 31"
    and first: "snd (recv_one E D now (Inr d) c) = Inr pl"
    and later: "list_all traffic_ok ts" "c2 = exchange_all E D (fst (recv_one E D now (Inr d) c)) ts"
    and again: "dg_data d' = dg_data d" "dg_trunc d' = None"
  shows "\<exists>ses. recv_one E D now' (Inr d') c2 = (c2\<lparr>conn_session := ses\<rparr>, Inr pl)
    \<and> session_ok E ses \<and> same_service E D (conn_session c2) ses"
proof -
  let ?c1 = "fst (recv_one E D now (Inr d) c)"
  obtain p where p: "authentic E c (dg_data d) p" "payload p = pl" "seq p < expected_receiver_seq ?c1"
    using accepted_authentic [OF ok len first] by blast
  have "recv_keeps E D c ?c1" using recv_one_keeps [OF ok, of "Inr d" now] len by simp
  then have c1: "conn_ok E D ?c1" "server ?c1 = server c" by (simp_all add: recv_keeps_def)
  have c2: "conn_ok E D c2" "server c2 = server c" "seq p < expected_receiver_seq c2"
    using exchange_all_keeps [OF c1(1) later(1)] c1(2) p(3) by (auto simp: later(2))
  have "authentic E c2 (dg_data d') p" using p(1) again(1) authentic_cong [OF c2(2)] by simp
  from recv_one_authentic [OF c2(1) _ again(2) this, of now'] again(1) len p(2) c2(3)
  obtain ses where "recv_one E D now' (Inr d') c2 = (c2\<lparr>conn_session := ses\<rparr>, Inr pl)" "session_ok E ses"
      "blocks_encrypted ses = blocks_encrypted (conn_session c2)"
    by auto
  then show ?thesis
    using same_serviceI [of E "conn_session c2" ses D] c2(1) by (auto simp: conn_ok_def)
qed

theorem replay_changes_nothing_witness:
  "\<exists>ses c2. exchange_all swap_if_le swap_if_le
       (fst (recv_one swap_if_le swap_if_le 2100 (Inr (example_datagram [9])) (example_connection True)))
       [Sent 5 2200 SendOk (Inr 4) [8], Received 2300 (Inr (example_datagram [8]))] = c2
    \<and> recv_one swap_if_le swap_if_le 9000 (Inr (example_datagram [7])) c2 = (c2\<lparr>conn_session := ses\<rparr>, Inr [1, 2, 3])
    \<and> same_service swap_if_le swap_if_le (conn_session c2) ses"
proof -
  have "snd (recv_one swap_if_le swap_if_le 2100 (Inr (example_datagram [9])) (example_connection True)) = Inr [1, 2, 3]"
    using recv_one_authentic [OF example_ok, of "example_datagram [9]" True example_packet 2100] example_len example_authentic
    by (auto simp: example_packet_def)
  from replay_changes_nothing [OF example_ok _ this _ refl, of
      "[Sent 5 2200 SendOk (Inr 4) [8], Received 2300 (Inr (example_datagram [8]))]" "example_datagram [7]" 9000] example_len
  show ?thesis by (simp add: Let_def) blast
qed



text \<open>A run of successful sends, with the datagrams in order.\<close>

type_synonym send_call = "u64 \<times> send_outcome \<times> (int + int) \<times> bytes"

definition send_call :: "(block \<Rightarrow> block) \<Rightarrow> u64 \<Rightarrow> connection \<Rightarrow> send_call \<Rightarrow> (u64 \<times> connection \<times> bytes) option" where
  "send_call E counter c call =
     (case call of (now, outcome, ns, s) \<Rightarrow>
        case send E counter now outcome ns c s of
          (counter', c', r) \<Rightarrow> (case r of Inr (Some p) \<Rightarrow> Some (counter', c', p) | _ \<Rightarrow> None))"

primrec send_all :: "(block \<Rightarrow> block) \<Rightarrow> u64 \<Rightarrow> connection \<Rightarrow> send_call list \<Rightarrow> (u64 \<times> connection \<times> bytes list) option" where
  "send_all E counter c [] = Some (counter, c, [])"
| "send_all E counter c (call # rest) =
     Option.bind (send_call E counter c call) (\<lambda>(counter', c', p).
       Option.bind (send_all E counter' c' rest) (\<lambda>(counter'', c'', ps). Some (counter'', c'', p # ps)))"

text \<open>Every packet takes at least one block of the key's budget, so the budget keeps the packet counter below 2^47.\<close>

lemma send_budget:
  assumes "conn_ok E D c" "send E counter now outcome ns c s = (counter', c', Inr (Some p))"
    and "unat counter \<le> unat (blocks_encrypted (conn_session c))" "unat (blocks_encrypted (conn_session c)) < 2 ^ 47"
  shows "conn_ok E D c' \<and> counter' = counter + 1 \<and> unat counter' = unat counter + 1
    \<and> unat counter' \<le> unat (blocks_encrypted (conn_session c')) \<and> unat (blocks_encrypted (conn_session c')) < 2 ^ 47
    \<and> (\<exists>d. take 8 p = htobe64 (direction_seq d counter))"
proof -
  obtain px where "encrypt E (conn_session c) (toMessage px) = (conn_session c', Inr p)" "counter' = counter + 1"
      "seq px = counter"
    by (rule send_Inr [OF assms(2)])
  then have px: "snd (encrypt E (conn_session c) (toMessage px)) = Inr p"
      "fst (encrypt E (conn_session c) (toMessage px)) = conn_session c'" "counter' = counter + 1" "seq px = counter"
    by simp_all
  note b = encrypt_blocks [OF px(1)]
  let ?n = "blocks_of (length (msg_text (toMessage px)))"
  have n: "1 \<le> ?n" "?n \<le> 129" using b by (auto simp: blocks_of_def RECEIVE_MTU_def)
  have "unat (of_nat ?n :: u64) = ?n" using n by (intro unat_of_nat_u64) simp
  then have "unat (blocks_encrypted (conn_session c')) = unat (blocks_encrypted (conn_session c)) + ?n"
    using b n assms(4) px(2) by (simp add: unat_word_ariths(1))
  moreover have "unat (blocks_encrypted (conn_session c')) < 2 ^ 47" using b px(2) by (simp add: drop_bit_47_zero)
  moreover have "unat (counter + 1) = unat counter + 1" using assms(3,4) by (simp add: unat_word_ariths)
  moreover have "conn_ok E D c'"
    using assms(1) px(2) encrypt_ok [of E "conn_session c" "toMessage px"] nonce_ok_toMessage [of px]
    by (simp add: conn_ok_def nonce_ok_def)
  moreover have "p = sealed E (toMessage px)"
    using encrypt_Inr_iff [of E "conn_session c" "toMessage px" p] assms(1) px(1) nonce_ok_toMessage [of px]
    by (simp add: conn_ok_def nonce_ok_def)
  then have "take 8 p = htobe64 (direction_seq (pkt_direction px) counter)"
    by (simp add: sealed_def cc_str_def toMessage_simps Nonce_val_def px(4))
  ultimately show ?thesis using px(3) n assms(3) by auto
qed

lemma send_call_Some:
  assumes "send_call E counter c call = Some (counter', c', p)"
  obtains now outcome ns s where "send E counter now outcome ns c s = (counter', c', Inr (Some p))"
  using assms by (auto simp: send_call_def split: prod.splits sum.splits option.splits)

lemma send_all_ConsE:
  assumes "send_all E counter c (call # rest) = Some (counter'', c'', ps)"
  obtains now outcome ns s counter' c' p ps' where "send E counter now outcome ns c s = (counter', c', Inr (Some p))"
    "send_all E counter' c' rest = Some (counter'', c'', ps')" "ps = p # ps'"
  using assms by (auto simp: bind_eq_Some_conv elim!: send_call_Some)

lemma send_all_nonces:
  assumes "conn_ok E D c" "send_all E counter c sends = Some (counter', c', ps)"
    and "unat counter \<le> unat (blocks_encrypted (conn_session c))" "unat (blocks_encrypted (conn_session c)) < 2 ^ 47"
  shows "(\<forall>p \<in> set ps. \<exists>d n. take 8 p = htobe64 (direction_seq d n) \<and> unat counter \<le> unat n \<and> unat n < 2 ^ 47)
    \<and> distinct (map (take 8) ps)"
  using assms
proof (induction sends arbitrary: counter c ps)
  case (Cons call rest)
  from Cons.prems(2) obtain now outcome ns s counter1 c1 p ps1 where
    s1: "send E counter now outcome ns c s = (counter1, c1, Inr (Some p))"
      "send_all E counter1 c1 rest = Some (counter', c', ps1)" "ps = p # ps1"
    by (rule send_all_ConsE)
  note b = send_budget [OF Cons.prems(1) s1(1) Cons.prems(3,4)]
  note IH = Cons.IH [OF _ s1(2)]
  obtain d where d: "take 8 p = htobe64 (direction_seq d counter)" using b by blast
  have tail: "\<exists>d n. take 8 q = htobe64 (direction_seq d n) \<and> unat counter < unat n \<and> unat n < 2 ^ 47" if "q \<in> set ps1" for q
    using IH b that by fastforce
  have "take 8 p \<noteq> take 8 q" if q: "q \<in> set ps1" for q
  proof
    assume eq: "take 8 p = take 8 q"
    from tail [OF q] obtain d' n where n: "take 8 q = htobe64 (direction_seq d' n)" "unat counter < unat n" "unat n < 2 ^ 47"
      by blast
    from eq n(1) d have "direction_seq d counter = direction_seq d' n" by (simp add: htobe64_inject)
    then have "take_bit 63 counter = take_bit 63 n" by (metis take_bit_direction_seq)
    moreover have "take_bit 63 counter = counter" "take_bit 63 n = n" using n by (simp_all add: take_bit_63_id)
    ultimately show False using n(2) by simp
  qed
  moreover have "unat counter < 2 ^ 47" using Cons.prems(3,4) by simp
  ultimately show ?case
    using tail d IH b by (fastforce simp: s1(3))
qed simp

text \<open>C12. Nonces are never reused: over any run of successful sends of one session, the eight-byte nonces in front of the
  datagrams are pairwise different.  The 63 bits that a nonce has for the packet counter suffice because the key's block budget
  ends the session long before they wrap.\<close>

theorem nonces_never_repeat:
  assumes "conn_ok E D c" "send_all E counter c sends = Some (counter', c', ps)"
    and "unat counter \<le> unat (blocks_encrypted (conn_session c))" "unat (blocks_encrypted (conn_session c)) < 2 ^ 47"
  shows "distinct (map (take 8) ps)"
  using send_all_nonces [OF assms] by blast

theorem nonces_never_repeat_witness:
  "\<exists>c'. send_all swap_if_le 0 (example_connection False) [(2000, SendOk, Inr 3, [1, 2, 3])] = Some (1, c', [example_wire])
    \<and> distinct (map (take 8) [example_wire])"
proof -
  obtain c' where "send swap_if_le 0 2000 SendOk (Inr 3) (example_connection False) [1, 2, 3]
       = (1, c', Inr (Some example_wire))" using example_send by blast
  then have "send_all swap_if_le 0 (example_connection False) [(2000, SendOk, Inr 3, [1, 2, 3])] = Some (1, c', [example_wire])"
    by (simp add: send_call_def)
  with nonces_never_repeat [OF example_ok this] show ?thesis
    by (simp add: example_session_def)
qed

end
