(* ===== verification/Connection_Timing.thy ===== *)
theory Connection_Timing
  imports Connection
begin

text \<open>
  Invariants of a connection's estimator and sockets (src/mosh/src/network/network.cc): the round-trip-time
  estimate and the retransmission timeout, the set of open sockets under port hopping, and the parser of port ranges.
\<close>

section \<open>Round-trip estimation\<close>

definition est_ok :: "connection \<Rightarrow> bool" where
  "est_ok c \<longleftrightarrow> 0 \<le> SRTT c \<and> SRTT c \<le> 4999 \<and> 0 \<le> RTTVAR c \<and> RTTVAR c \<le> 4999"

text \<open>The constants of the estimator are exact, and each rounded step stays within bounds that are doubles themselves.\<close>

lemma estimator_constants: "ddiv 1 8 = 1 / 8" "dsub 1 (1 / 8) = 7 / 8" "ddiv 1 4 = 1 / 4" "dsub 1 (1 / 4) = 3 / 4"
  unfolding ddiv_def dsub_def
  using dbl_exact [of "1 / 8" 1 3 1] dbl_exact [of "7 / 8" 7 3 1] dbl_exact [of "1 / 4" 1 2 1] dbl_exact [of "3 / 4" 3 2 1]
  by simp_all

lemma smoothed_bounds:
  assumes "0 \<le> s" "s \<le> 4999" "0 \<le> r" "r \<le> 4999"
  shows "0 \<le> dadd (dmul (7 / 8) s) (dmul (1 / 8) r) \<and> dadd (dmul (7 / 8) s) (dmul (1 / 8) r) \<le> 4999"
proof -
  have "0 \<le> dmul (7 / 8) s \<and> dmul (7 / 8) s \<le> 34993 / 8" "0 \<le> dmul (1 / 8) r \<and> dmul (1 / 8) r \<le> 4999 / 8"
    using dbl_range [of 0 3 "7 / 8 * s" 34993] dbl_range [of 0 3 "1 / 8 * r" 4999] assms by (simp_all add: dmul_def)
  then show ?thesis
    using dbl_range [of 0 0 "dmul (7 / 8) s + dmul (1 / 8) r" 4999] by (simp add: dadd_def)
qed

lemma variation_bounds:
  assumes "0 \<le> v" "v \<le> 4999" "0 \<le> s" "s \<le> 4999" "0 \<le> r" "r \<le> 4999"
  shows "0 \<le> dadd (dmul (3 / 4) v) (dmul (1 / 4) \<bar>dsub s r\<bar>) \<and> dadd (dmul (3 / 4) v) (dmul (1 / 4) \<bar>dsub s r\<bar>) \<le> 4999"
proof -
  have "\<bar>s - r\<bar> < 2 ^ 15" using assms by (simp add: abs_less_iff)
  then have "\<bar>dsub s r\<bar> \<le> 4999" using dbl_range [of "- 4999" 0 "s - r" 4999] assms by (simp add: dsub_def abs_le_iff)
  then have "0 \<le> dmul (3 / 4) v \<and> dmul (3 / 4) v \<le> 14997 / 4"
      "0 \<le> dmul (1 / 4) \<bar>dsub s r\<bar> \<and> dmul (1 / 4) \<bar>dsub s r\<bar> \<le> 4999 / 4"
    using dbl_range [of 0 2 "3 / 4 * v" 14997] dbl_range [of 0 2 "1 / 4 * \<bar>dsub s r\<bar>" 4999] assms
    by (simp_all add: dmul_def)
  then show ?thesis
    using dbl_range [of 0 0 "dmul (3 / 4) v + dmul (1 / 4) \<bar>dsub s r\<bar>" 4999] by (simp add: dadd_def)
qed

lemma update_RTT_est:
  assumes "est_ok c" "update_RTT now p c = Inr c'"
  shows "est_ok c'"
proof -
  define n where "n = unat (timestamp16 now - timestamp_reply p)"
  have "n < 2 ^ 53" using unsigned_less [of "timestamp16 now - timestamp_reply p", where ?'a = nat] by (simp add: n_def)
  then have R: "dbl (of_nat n) = of_nat n" by (rule dbl_of_nat)
  have upd: "update_RTT now p c =
      (if timestamp_reply p \<noteq> - 1 \<and> n < 5000
       then if \<not> RTT_hit c then Inr (c\<lparr>SRTT := of_nat n, RTTVAR := ddiv (of_nat n) 2, RTT_hit := True\<rparr>)
            else Inr (c\<lparr>RTTVAR := dadd (dmul (3 / 4) (RTTVAR c)) (dmul (1 / 4) \<bar>dsub (SRTT c) (of_nat n)\<bar>),
                        SRTT := dadd (dmul (7 / 8) (SRTT c)) (dmul (1 / 8) (of_nat n))\<rparr>)
       else Inr c)"
    using of_nat_less_iff [of n 5000, where ?'a = rat]
    by (simp add: update_RTT_def timestamp_diff_eq Let_def n_def [symmetric] R estimator_constants del: of_nat_unat)
  have n: "of_nat n \<le> (4999 :: rat)" if "n < 5000" using that of_nat_le_iff [of n 4999, where ?'a = rat] by simp
  have "0 \<le> ddiv (of_nat n) 2 \<and> ddiv (of_nat n) 2 \<le> 4999 / 2" if "n < 5000"
    using dbl_range [of 0 1 "of_nat n / 2" 4999] n [OF that] by (simp add: ddiv_def)
  then show ?thesis
    using assms n smoothed_bounds [of "SRTT c" "of_nat n"] variation_bounds [of "RTTVAR c" "SRTT c" "of_nat n"]
    unfolding upd by (auto simp: est_ok_def split: if_splits)
qed

lemma recv_one_est:
  assumes "est_ok c"
  shows "est_ok (fst (recv_one E D now dg c))"
proof (cases dg)
  case (Inl errno)
  then show ?thesis using assms by (simp add: recv_one_def)
next
  case (Inr d)
  obtain ses r where dec: "decrypt E D (conn_session c) (dg_data d) = (ses, r)" by fastforce
  have same: "est_ok (c\<lparr>conn_session := ses\<rparr>)" using assms by (simp add: est_ok_def)
  have upd: "est_ok c3" if "update_RTT now p (save_timestamp now ce p (c\<lparr>conn_session := ses, expected_receiver_seq := n\<rparr>)) = Inr c3"
    for p ce n c3
    using that by (rule update_RTT_est [rotated]) (use assms in \<open>simp add: est_ok_def save_timestamp_def\<close>)
  have keep: "est_ok (c3\<lparr>has_remote_addr := b, last_heard := t\<rparr>)" "est_ok (c3\<lparr>has_remote_addr := b, last_heard := t, remote_addr := a, remote_addr_len := k\<rparr>)"
    if "est_ok c3" for c3 b t a k
    using that by (simp_all add: est_ok_def)
  have save: "est_ok (save_timestamp now ce p (c\<lparr>conn_session := ses, expected_receiver_seq := n\<rparr>))" for ce p n
    using assms by (simp add: est_ok_def save_timestamp_def)
  show ?thesis
    using assms same
    by (auto simp: recv_one_def Inr dec Let_def dest!: upd intro!: keep save split: option.split sum.split)
qed

lemma send_est:
  assumes "est_ok c"
  shows "est_ok (fst (snd (send E counter now outcome ns c s)))"
proof -
  obtain n1 c1 q where np: "new_packet counter now c s = (n1, c1, q)" by (cases "new_packet counter now c s")
  have c1: "est_ok c1" using np assms by (auto simp: new_packet_def Let_def est_ok_def split: if_splits prod.splits)
  have same: "est_ok c3 = est_ok c2" if "maintain now ns (note_sendto outcome c2) = (c3, r)" for c2 c3 r
    using that
    by (auto simp: maintain_def hop_port_def conn_setup_def prune_sockets_def note_sendto_def est_ok_def Let_def
      split: if_splits sum.splits send_outcome.splits)
  have "est_ok (c1\<lparr>conn_session := ses\<rparr>)" for ses using c1 by (simp add: est_ok_def)
  with same have "est_ok c3" if "maintain now ns (note_sendto outcome (c1\<lparr>conn_session := ses\<rparr>)) = (c3, r)" for ses c3 r
    using that by blast
  then show ?thesis
    using assms np c1 \<open>est_ok (c1\<lparr>conn_session := _\<rparr>)\<close> by (auto simp: send_def split: prod.splits sum.splits)
qed

lemma exchange_all_est: "est_ok c \<Longrightarrow> est_ok (exchange_all E D c ts)"
proof (induction ts arbitrary: c)
  case (Cons t ts)
  have "est_ok (exchange E D c t)" using Cons.prems by (cases t) (simp_all add: recv_one_est send_est)
  from Cons.IH [OF this] show ?case by (simp add: exchange_all_def)
qed (simp add: exchange_all_def)

text \<open>A client's first reply, for the concrete instance below: it echoes the server's timestamp of 200 milliseconds ago.\<close>

definition example_reply :: packet where
  "example_reply = \<lparr>seq = 0, pkt_direction = TO_SERVER, pkt_timestamp = 2000, timestamp_reply = 1900, payload = [1, 2, 3]\<rparr>"

definition reply_datagram :: datagram where
  "reply_datagram = \<lparr>dg_data = sealed swap_if_le (toMessage example_reply), dg_from = [], dg_trunc = None,
     dg_ecn = None, dg_name_error = None\<rparr>"

lemma reply_estimate:
  "SRTT (fst (recv_one swap_if_le swap_if_le 2100 (Inr reply_datagram) (example_connection True))) = 200"
  "RTTVAR (fst (recv_one swap_if_le swap_if_le 2100 (Inr reply_datagram) (example_connection True))) = 100"
proof -
  have "snd (decrypt swap_if_le swap_if_le example_session (sealed swap_if_le (toMessage example_reply)))
      = Inr (toMessage example_reply)"
    using decrypt_Inr_iff [of swap_if_le example_session "sealed swap_if_le (toMessage example_reply)" swap_if_le "toMessage example_reply"]
      length_sealed [of swap_if_le example_reply]
    by (simp add: session_ok_def example_session_def swap_if_le_involution RECEIVE_MTU_def example_reply_def)
  then obtain ses where dec: "decrypt swap_if_le swap_if_le example_session (sealed swap_if_le (toMessage example_reply))
      = (ses, Inr (toMessage example_reply))"
    by (metis prod.collapse)
  have pk: "Packet_of_message (toMessage example_reply) = Inr example_reply"
    by (rule Packet_of_toMessage) (simp add: example_reply_def)
  have d: "dbl 200 = 200" "dbl 100 = 100" using dbl_of_nat [of 200] dbl_of_nat [of 100] by simp_all
  show "SRTT (fst (recv_one swap_if_le swap_if_le 2100 (Inr reply_datagram) (example_connection True))) = 200"
    "RTTVAR (fst (recv_one swap_if_le swap_if_le 2100 (Inr reply_datagram) (example_connection True))) = 100"
    using dec pk
    by (simp_all add: recv_one_def reply_datagram_def example_connection_def initial_connection_def Let_def
      example_reply_def dos_assert_def update_RTT_def timestamp_diff_eq timestamp16_def save_timestamp_def d ddiv_def)
qed

text \<open>C30. The retransmission timeout is sound: whatever datagrams arrive and are sent at whatever times, the smoothed
  round-trip time and its variation, computed in doubles rounded after every operation, stay in [0, 4999] once they are
  there (as they are for a new connection), so converting their rounded combination to an unsigned integer is exact and
  the timeout is that combination, rounded up, clipped to between 50 and 1000 milliseconds.\<close>

theorem timeout_is_clipped_estimate:
  assumes "est_ok c" "c' = exchange_all E D c ts"
  shows "est_ok (initial_connection b ses) \<and> est_ok c'
    \<and> int (unat (timeout c')) = max 50 (min 1000 \<lceil>dadd (SRTT c') (dmul 4 (RTTVAR c'))\<rceil>)"
proof -
  have est: "est_ok c'" using assms by (simp add: exchange_all_est)
  define k where "k = \<lceil>dadd (SRTT c') (dmul 4 (RTTVAR c'))\<rceil>"
  have "0 \<le> dmul 4 (RTTVAR c') \<and> dmul 4 (RTTVAR c') \<le> 19996"
    using est dbl_range [of 0 0 "4 * RTTVAR c'" 19996] by (simp add: est_ok_def dmul_def)
  then have "0 \<le> dadd (SRTT c') (dmul 4 (RTTVAR c')) \<and> dadd (SRTT c') (dmul 4 (RTTVAR c')) \<le> 24995"
    using est dbl_range [of 0 0 "SRTT c' + dmul 4 (RTTVAR c')" 24995] by (simp add: est_ok_def dadd_def)
  then have "0 \<le> k" "k \<le> 24995" by (auto simp: k_def ceiling_le_iff le_ceiling_iff)
  then have "uint (of_int k :: u64) = k" by (simp add: unsigned_of_int take_bit_int_eq_self)
  then have "int (unat (timeout c')) = max 50 (min 1000 k)"
    by (auto simp: timeout_def Let_def k_def [symmetric] MIN_RTO_def MAX_RTO_def word_less_def)
  with est show ?thesis by (simp add: k_def est_ok_def initial_connection_def)
qed

theorem timeout_is_clipped_estimate_witness:
  "int (unat (timeout (exchange_all swap_if_le swap_if_le (example_connection True) [Received 2100 (Inr reply_datagram)]))) = 600"
proof -
  have "dbl 400 = 400" "dbl 600 = 600" using dbl_of_nat [of 400] dbl_of_nat [of 600] by simp_all
  moreover have "est_ok (example_connection True)" by (simp add: est_ok_def example_connection_def initial_connection_def)
  ultimately show ?thesis
    using timeout_is_clipped_estimate [of "example_connection True" _ swap_if_le swap_if_le "[Received 2100 (Inr reply_datagram)]"]
    by (simp add: exchange_all_def reply_estimate dadd_def dmul_def)
qed

section \<open>Sockets\<close>

definition socks_ok :: "connection \<Rightarrow> bool" where
  "socks_ok c \<longleftrightarrow> socks c \<noteq> [] \<and> length (socks c) \<le> MAX_PORTS_OPEN"

lemma prune_sockets_socks:
  assumes "socks c \<noteq> []"
  shows "socks_ok (prune_sockets now c) \<and> last (socks (prune_sockets now c)) = last (socks c)"
  using assms by (auto simp: prune_sockets_def socks_ok_def Let_def MAX_PORTS_OPEN_def)

lemma hop_port_socks:
  assumes "hop_port now ns c = (c', r)" "socks_ok c"
  shows "socks_ok c' \<and> (last (socks c') = last (socks c) \<or> ns = Inr (last (socks c')))"
  using assms prune_sockets_socks [of "(conn_setup now c)\<lparr>socks := socks c @ [fd]\<rparr>" now for fd]
  by (auto simp: hop_port_def Let_def conn_setup_def socks_ok_def split: if_splits sum.splits)

lemma maintain_socks:
  assumes "maintain now ns c = (c', r)" "socks_ok c"
  shows "socks_ok c' \<and> (last (socks c') = last (socks c) \<or> ns = Inr (last (socks c')))"
  using assms hop_port_socks [of now ns c c' r] by (auto simp: maintain_def socks_ok_def split: if_splits)

lemma new_packet_socks: "new_packet counter now c s = (counter', c', r) \<Longrightarrow> socks c' = socks c"
  by (auto simp: new_packet_def Packet_def unique_def Let_def split: if_splits)

lemma socks_ok_eq: "socks c = socks c' \<Longrightarrow> socks_ok c = socks_ok c'"
  by (simp add: socks_ok_def)

lemma send_socks:
  assumes "socks_ok c" "send E counter now outcome ns c s = (counter', c', r)"
  shows "socks_ok c' \<and> (last (socks c') = last (socks c) \<or> ns = Inr (last (socks c')))"
proof -
  obtain n1 c1 q where np: "new_packet counter now c s = (n1, c1, q)" by (cases "new_packet counter now c s")
  have same: "socks c1 = socks c" using np by (rule new_packet_socks)
  have ok: "socks_ok (note_sendto outcome (c1\<lparr>conn_session := ses\<rparr>))" for ses
    using assms(1) same by (simp add: socks_ok_def)
  consider "c' = c" | ses where "c' = c1\<lparr>conn_session := ses\<rparr>" | "c' = c1"
    | ses r' where "maintain now ns (note_sendto outcome (c1\<lparr>conn_session := ses\<rparr>)) = (c', r')"
    using assms(2) np by (auto simp: send_def split: if_splits prod.splits sum.splits)
  then show ?thesis
  proof cases
    case 4
    from maintain_socks [OF this ok] same show ?thesis by simp
  qed (use assms(1) same in \<open>simp_all add: socks_ok_def\<close>)
qed

lemma recv_one_socks: "socks (fst (recv_one E D now dg c)) = socks c"
proof (cases dg)
  case (Inr d)
  have "\<exists>hit srtt var. update_RTT now p c2 = Inr (c2\<lparr>RTT_hit := hit, SRTT := srtt, RTTVAR := var\<rparr>)" for p c2
    by (rule update_RTT_total)
  then have upd: "socks c3 = socks c2" if "update_RTT now p c2 = Inr c3" for p c2 c3
    using that by (metis (no_types) connection.select_convs(1) connection.surjective connection.update_convs(15,16,17) sum.inject(2))
  have save: "socks (save_timestamp now ce p c2) = socks c2" for ce p c2 by (simp add: save_timestamp_def)
  show ?thesis
    by (auto simp: recv_one_def Inr Let_def save dest: upd split: option.split sum.split prod.split)
qed (simp add: recv_one_def)

lemma recv_loop_socks:
  assumes "socks_ok c"
  shows "socks_ok (fst (recv_loop E D now poll fds c)) \<and> last (socks (fst (recv_loop E D now poll fds c))) = last (socks c)"
  using assms
proof (induction fds arbitrary: c)
  case (Cons fd fds)
  obtain c1 r where r: "recv_one E D now (poll fd) c = (c1, r)" by fastforce
  have c1: "socks c1 = socks c" using recv_one_socks [of E D now "poll fd" c] r by simp
  then have ok: "socks_ok c1" using Cons.prems socks_ok_eq by blast
  then have "socks_ok (prune_sockets now c1) \<and> last (socks (prune_sockets now c1)) = last (socks c)"
    using prune_sockets_socks [of c1 now] c1 by (simp add: socks_ok_def)
  with Cons.IH [OF ok] c1 ok r show ?case
    by (auto split: sum.split failure.split)
qed simp

text \<open>C33. Sockets stay bounded and the newest one stays in use: sending (with whatever outcome, hopping ports or not) and
  receiving keep at least one and at most ten sockets open, and the socket used for sending changes only to the one that
  a port hop has just opened.\<close>

theorem sockets_bounded:
  assumes "socks_ok c"
  shows "socks_ok (fst (snd (send E counter now outcome ns c s)))
    \<and> (last (socks (fst (snd (send E counter now outcome ns c s)))) = last (socks c)
       \<or> ns = Inr (last (socks (fst (snd (send E counter now outcome ns c s))))))
    \<and> socks_ok (fst (conn_recv E D now poll c))
    \<and> last (socks (fst (conn_recv E D now poll c))) = last (socks c)"
proof -
  obtain n c' r where "send E counter now outcome ns c s = (n, c', r)"
    by (cases "send E counter now outcome ns c s")
  with send_socks [OF assms this] recv_loop_socks [OF assms, of E D now poll "socks c"] assms show ?thesis
    by (simp add: conn_recv_def socks_ok_def)
qed

theorem sockets_bounded_witness:
  "socks_ok (fst (snd (send swap_if_le 0 2000 SendOk (Inr 3) ((example_connection False)\<lparr>socks := [4]\<rparr>) [1])))"
  using sockets_bounded [of "(example_connection False)\<lparr>socks := [4]\<rparr>" swap_if_le 0 2000 SendOk "Inr 3" "[1]"]
  by (simp add: socks_ok_def MAX_PORTS_OPEN_def)

section \<open>Port ranges\<close>

text \<open>C34. Port ranges: a decimal numeral is accepted as a single port exactly when it is at most 65535; two numerals joined by
  a colon are accepted as a range exactly when 1 <= low <= high <= 65535, and the numbers are then those written; and
  whatever string is accepted, the result is a non-empty range of valid ports.\<close>

theorem parse_portrange_correct:
  "(numeral_string low \<longrightarrow>
      parse_portrange low = (if digits_value low \<le> 65535 then Some (digits_value low, digits_value low) else None))
   \<and> (numeral_string low \<and> numeral_string high \<longrightarrow> parse_portrange (low @ '':'' @ high) =
     (if 1 \<le> digits_value low \<and> digits_value low \<le> digits_value high \<and> digits_value high \<le> 65535
      then Some (digits_value low, digits_value high) else None))
   \<and> (parse_portrange s = Some (a, b) \<longrightarrow> 0 \<le> a \<and> a \<le> b \<and> b \<le> 65535)"
proof (intro conjI impI)
  have nonneg: "0 \<le> digits_value ds" if "numeral_string ds" for ds
    using digits_value_nonneg [of ds 0] that by (simp add: digits_value_def numeral_string_def)
  show "parse_portrange low = (if digits_value low \<le> 65535 then Some (digits_value low, digits_value low) else None)"
    if "numeral_string low"
    using strtol_numeral [OF that, of "[]"] nonneg [OF that] by (simp add: parse_portrange_def)
  show "parse_portrange (low @ '':'' @ high) =
     (if 1 \<le> digits_value low \<and> digits_value low \<le> digits_value high \<and> digits_value high \<le> 65535
      then Some (digits_value low, digits_value high) else None)"
    if "numeral_string low \<and> numeral_string high"
  proof -
    have "\<not> is_digit CHR '':''" by (simp add: is_digit_def)
    then have "strtol (low @ '':'' @ high)
        = (if digits_value low > 2 ^ 63 - 1 then (2 ^ 63 - 1, True, '':'' @ high) else (digits_value low, False, '':'' @ high))"
      using that strtol_numeral [of low "'':'' @ high"] by simp
    moreover have "strtol high = (if digits_value high > 2 ^ 63 - 1 then (2 ^ 63 - 1, True, []) else (digits_value high, False, []))"
      using that strtol_numeral [of high "[]"] by simp
    ultimately show ?thesis
      using nonneg that by (simp add: parse_portrange_def)
  qed
  show "0 \<le> a" "a \<le> b" "b \<le> 65535" if "parse_portrange s = Some (a, b)"
    using that by (auto simp: parse_portrange_def split: prod.splits if_splits)
qed

theorem parse_portrange_correct_witness:
  "parse_portrange ''60001:60010'' = Some (60001, 60010) \<and> parse_portrange ''70000'' = None"
proof -
  have "numeral_string ''60001''" "numeral_string ''60010''" "numeral_string ''70000''"
    by (simp_all add: numeral_string_def is_digit_def)
  then show ?thesis
    using parse_portrange_correct [of "''60001''" "''60010''" "[]" 0 0] parse_portrange_correct [of "''70000''" "[]" "[]" 0 0]
    by (simp add: digits_value_def)
qed

end
