(* ===== verification/User_Stream.thy ===== *)
theory User_Stream
  imports Fragments "HOL-Library.Sublist"
begin

text \<open>
  The client's input as a synchronised object (src/mosh/src/statesync/user.h and user.cc, with the two actions it
  stores from src/mosh/src/terminal/parseraction.h and the message of src/mosh/src/protobufs/userinput.proto).

  A user stream is the deque of its events.  The generated protobuf code is a parameter: \<open>ser\<close> and \<open>parse\<close> are
  SerializeAsString and ParseFromString of UserMessage, and a message is the list of its instructions, each with
  the two extensions it may have.  Keys are bytes, the width and height of a resize message are 32-bit.

  The transport layer uses a synchronised object through the operations of \<open>sync_ops\<close>; the locale \<open>append_log\<close>
  states what it may rely on for an object that only grows, and the user stream is an instance.
\<close>

section \<open>Events\<close>

datatype user_event_type = UserByteType | ResizeType

record user_byte =
  key_c :: byte

record resize_action =
  width :: u64
  height :: u64

record user_event =
  event_type :: user_event_type
  userbyte :: user_byte
  event_resize :: resize_action

definition UserEvent_byte :: "user_byte \<Rightarrow> user_event" where
  "UserEvent_byte s_userbyte =
     \<lparr>event_type = UserByteType, userbyte = s_userbyte, event_resize = \<lparr>width = - 1, height = - 1\<rparr>\<rparr>"

definition UserEvent_resize :: "resize_action \<Rightarrow> user_event" where
  "UserEvent_resize s_resize = \<lparr>event_type = ResizeType, userbyte = \<lparr>key_c = 0\<rparr>, event_resize = s_resize\<rparr>"

type_synonym user_stream = "user_event list"

definition push_back_byte :: "user_stream \<Rightarrow> user_byte \<Rightarrow> user_stream" where
  "push_back_byte actions s_userbyte = actions @ [UserEvent_byte s_userbyte]"

definition push_back_resize :: "user_stream \<Rightarrow> resize_action \<Rightarrow> user_stream" where
  "push_back_resize actions s_resize = actions @ [UserEvent_resize s_resize]"

text \<open>The action of an event, as \<^verbatim>\<open>get_action\<close> hands it out; an index past the end is undefined behaviour.\<close>

datatype user_action = UserByte_action user_byte | Resize_action resize_action

definition get_action :: "user_stream \<Rightarrow> nat \<Rightarrow> user_action result" where
  "get_action actions i =
     (if i < length actions
      then (case event_type (actions ! i) of
              UserByteType \<Rightarrow> Inr (UserByte_action (userbyte (actions ! i)))
            | ResizeType \<Rightarrow> Inr (Resize_action (event_resize (actions ! i))))
      else Inl UndefinedBehaviour)"

section \<open>Messages\<close>

record user_instruction =
  keystroke :: "bytes option"
  resize_msg :: "(32 word \<times> 32 word) option"

type_synonym user_message = "user_instruction list"

section \<open>The interface for the transport\<close>

text \<open>The prefix is removed event by event.  \<open>same\<close> tells that the prefix is the object itself.\<close>

fun subtract_loop :: "user_stream \<Rightarrow> user_stream \<Rightarrow> user_stream result" where
  "subtract_loop actions [] = Inr actions"
| "subtract_loop actions (i # pre) =
     bindE (assertE (actions \<noteq> []) AssertFailed) (\<lambda>_.
     bindE (assertE (i = hd actions) AssertFailed) (\<lambda>_. subtract_loop (tl actions) pre))"

definition user_subtract :: "bool \<Rightarrow> user_stream \<Rightarrow> user_stream \<Rightarrow> user_stream result" where
  "user_subtract same actions pre = (if same then Inr [] else subtract_loop actions pre)"

text \<open>The first loop of \<^verbatim>\<open>diff_from\<close> walks past the existing stream.\<close>

fun skip_existing :: "user_stream \<Rightarrow> user_stream \<Rightarrow> user_stream result" where
  "skip_existing my_it [] = Inr my_it"
| "skip_existing my_it (i # existing) =
     bindE (assertE (my_it \<noteq> []) AssertFailed) (\<lambda>_.
     bindE (assertE (i = hd my_it) AssertFailed) (\<lambda>_. skip_existing (tl my_it) existing))"

definition add_event :: "user_message \<Rightarrow> user_event \<Rightarrow> user_message" where
  "add_event output e =
     (case event_type e of
        UserByteType \<Rightarrow>
          (let the_byte = key_c (userbyte e)
           in if output \<noteq> [] \<and> keystroke (last output) \<noteq> None
              then butlast output @ [(last output)\<lparr>keystroke := Some (the (keystroke (last output)) @ [the_byte])\<rparr>]
              else output @ [\<lparr>keystroke = Some [the_byte], resize_msg = None\<rparr>])
      | ResizeType \<Rightarrow>
          output @ [\<lparr>keystroke = None,
                     resize_msg = Some (ucast (width (event_resize e)), ucast (height (event_resize e)))\<rparr>])"

definition user_diff_from :: "(user_message \<Rightarrow> bytes) \<Rightarrow> user_stream \<Rightarrow> user_stream \<Rightarrow> bytes result" where
  "user_diff_from ser actions existing =
     bindE (skip_existing actions existing) (\<lambda>my_it. Inr (ser (foldl add_event [] my_it)))"

definition user_init_diff :: "(user_message \<Rightarrow> bytes) \<Rightarrow> user_stream \<Rightarrow> bytes result" where
  "user_init_diff ser actions = user_diff_from ser actions []"

definition apply_instruction :: "user_stream \<Rightarrow> user_instruction \<Rightarrow> user_stream" where
  "apply_instruction actions inst =
     (case keystroke inst of
        Some the_bytes \<Rightarrow> actions @ map (\<lambda>b. UserEvent_byte \<lparr>key_c = b\<rparr>) the_bytes
      | None \<Rightarrow>
          (case resize_msg inst of
             Some (w, h) \<Rightarrow> actions @ [UserEvent_resize \<lparr>width = scast w, height = scast h\<rparr>]
           | None \<Rightarrow> actions))"

definition user_apply_string :: "(bytes \<Rightarrow> user_message option) \<Rightarrow> user_stream \<Rightarrow> bytes \<Rightarrow> user_stream result" where
  "user_apply_string parse actions diff =
     (case parse diff of None \<Rightarrow> Inl FatalAssert | Some input \<Rightarrow> Inr (foldl apply_instruction actions input))"

text \<open>What the transport templates call on their state: \<^verbatim>\<open>diff_from\<close>, \<^verbatim>\<open>init_diff\<close>, \<^verbatim>\<open>apply_string\<close>,
  \<^verbatim>\<open>subtract\<close> and \<^verbatim>\<open>operator==\<close>.\<close>

record 's sync_ops =
  op_diff_from :: "'s \<Rightarrow> 's \<Rightarrow> bytes result"
  op_init_diff :: "'s \<Rightarrow> bytes result"
  op_apply_string :: "'s \<Rightarrow> bytes \<Rightarrow> 's result"
  op_subtract :: "bool \<Rightarrow> 's \<Rightarrow> 's \<Rightarrow> 's result"
  op_equal :: "'s \<Rightarrow> 's \<Rightarrow> bool"

definition user_ops :: "(user_message \<Rightarrow> bytes) \<Rightarrow> (bytes \<Rightarrow> user_message option) \<Rightarrow> user_stream sync_ops" where
  "user_ops ser parse =
     \<lparr>op_diff_from = user_diff_from ser, op_init_diff = user_init_diff ser, op_apply_string = user_apply_string parse,
      op_subtract = user_subtract, op_equal = (=)\<rparr>"

section \<open>Subtraction and skipping\<close>

lemma subtract_loop_eq_Inr: "subtract_loop xs ps = Inr ys \<longleftrightarrow> xs = ps @ ys"
  by (induction xs ps rule: subtract_loop.induct) (auto simp: result_simps neq_Nil_conv)

lemma skip_existing_eq_Inr: "skip_existing xs ps = Inr ys \<longleftrightarrow> xs = ps @ ys"
  by (induction xs ps rule: skip_existing.induct) (auto simp: result_simps neq_Nil_conv)

section \<open>Well-formed events and the round trip of a difference\<close>

text \<open>An event as the constructors build it, with a size that a 32-bit field keeps.\<close>

definition event_ok :: "user_event \<Rightarrow> bool" where
  "event_ok e \<longleftrightarrow>
     (case event_type e of
        UserByteType \<Rightarrow> e = UserEvent_byte (userbyte e)
      | ResizeType \<Rightarrow> e = UserEvent_resize (event_resize e)
          \<and> scast (ucast (width (event_resize e)) :: 32 word) = width (event_resize e)
          \<and> scast (ucast (height (event_resize e)) :: 32 word) = height (event_resize e))"

definition protobuf_ok :: "('m list \<Rightarrow> bytes) \<Rightarrow> (bytes \<Rightarrow> 'm list option) \<Rightarrow> bool" where
  "protobuf_ok ser parse \<longleftrightarrow> (\<forall>m. parse (ser m) = Some m) \<and> (\<forall>m. ser m = [] \<longleftrightarrow> m = [])"

lemma apply_add_event:
  assumes "event_ok e"
  shows "foldl apply_instruction st (add_event out e) = foldl apply_instruction st out @ [e]"
proof (cases "event_type e")
  case UserByteType
  obtain k where k: "userbyte e = \<lparr>key_c = k\<rparr>" by (cases "userbyte e") auto
  have e: "UserEvent_byte \<lparr>key_c = k\<rparr> = e" using assms UserByteType k by (simp add: event_ok_def)
  show ?thesis
  proof (cases "out \<noteq> [] \<and> keystroke (last out) \<noteq> None")
    case True
    then obtain ks where ks: "keystroke (last out) = Some ks" by auto
    have out: "foldl apply_instruction st out = apply_instruction (foldl apply_instruction st (butlast out)) (last out)"
      using True append_butlast_last_id [of out] foldl_append [of apply_instruction st "butlast out" "[last out]"] by simp
    show ?thesis using True ks UserByteType k e by (simp add: add_event_def Let_def out apply_instruction_def)
  next
    case False
    then show ?thesis using UserByteType k e by (auto simp: add_event_def Let_def apply_instruction_def)
  qed
next
  case ResizeType
  then have e: "e = UserEvent_resize (event_resize e)" using assms by (simp add: event_ok_def)
  obtain w h where wh: "event_resize e = \<lparr>width = w, height = h\<rparr>" by (cases "event_resize e") auto
  show ?thesis using assms ResizeType wh by (simp add: add_event_def event_ok_def apply_instruction_def e [symmetric])
qed

lemma add_event_not_Nil [simp]: "add_event out e \<noteq> []"
  by (auto simp: add_event_def Let_def split: user_event_type.splits)

lemma foldl_add_event_Nil: "foldl add_event out es = [] \<longleftrightarrow> out = [] \<and> es = []"
  by (induction es arbitrary: out) auto

lemma apply_events:
  "list_all event_ok es \<Longrightarrow> foldl apply_instruction st (foldl add_event out es) = foldl apply_instruction st out @ es"
  by (induction es arbitrary: out) (auto simp: apply_add_event)

section \<open>Growing objects\<close>

text \<open>The contract of a synchronised object that only grows: its value is a list of entries, a difference encodes the
  entries that are new, whatever the common part is, and subtracting removes a known prefix.\<close>

locale append_log =
  fixes ops :: "'e list sync_ops" and enc :: "'e list \<Rightarrow> bytes" and ok :: "'e list \<Rightarrow> bool"
  assumes log_diff: "op_diff_from ops (p @ x) p = Inr (enc x)"
    and log_init_diff: "\<exists>d. op_init_diff ops x = Inr d"
    and log_enc_Nil: "ok x \<Longrightarrow> enc x = [] \<longleftrightarrow> x = []"
    and log_apply: "ok x \<Longrightarrow> op_apply_string ops p (enc x) = Inr (p @ x)"
    and log_subtract: "op_subtract ops False (p @ x) p = Inr x"
    and log_subtract_self: "op_subtract ops True x x = Inr []"
    and log_equal: "op_equal ops x y \<longleftrightarrow> x = y"
    and log_ok_append: "ok (x @ y) \<Longrightarrow> ok x \<and> ok y"

interpretation user_log: append_log "user_ops ser parse" "\<lambda>x. ser (foldl add_event [] x)"
    "\<lambda>x. list_all event_ok x \<and> protobuf_ok ser parse"
  for ser parse
proof unfold_locales
  fix p x :: user_stream
  show "op_diff_from (user_ops ser parse) (p @ x) p = Inr (ser (foldl add_event [] x))"
    using skip_existing_eq_Inr [of "p @ x" p x] by (simp add: user_ops_def user_diff_from_def)
  show "\<exists>d. op_init_diff (user_ops ser parse) x = Inr d"
    by (simp add: user_ops_def user_init_diff_def user_diff_from_def)
  show "op_subtract (user_ops ser parse) False (p @ x) p = Inr x"
    using subtract_loop_eq_Inr [of "p @ x" p x] by (simp add: user_ops_def user_subtract_def)
  assume x: "list_all event_ok x \<and> protobuf_ok ser parse"
  show "ser (foldl add_event [] x) = [] \<longleftrightarrow> x = []"
    using x by (auto simp: protobuf_ok_def foldl_add_event_Nil)
  show "op_apply_string (user_ops ser parse) p (ser (foldl add_event [] x)) = Inr (p @ x)"
    using x by (simp add: user_ops_def user_apply_string_def protobuf_ok_def apply_events)
qed (auto simp: user_ops_def user_subtract_def)

text \<open>C16. Differences of user streams are exact.  A difference between a stream and an existing one exists exactly when
  the existing stream is a prefix (otherwise an assertion fails); it is empty exactly when the streams are equal; and
  applied to any stream it appends precisely the events that are new, so that on the existing stream it gives the new one.
  The protobuf code only has to parse what it serialised and to serialise only the empty message to the empty string.\<close>

theorem user_diff_exact:
  assumes "list_all event_ok actions" and "protobuf_ok ser parse"
  shows "case user_diff_from ser actions existing of
      Inl e \<Rightarrow> e = AssertFailed \<and> \<not> prefix existing actions
    | Inr d \<Rightarrow> (\<exists>new. actions = existing @ new \<and> (d = [] \<longleftrightarrow> new = [])
                \<and> (\<forall>other. user_apply_string parse other d = Inr (other @ new)))"
proof (cases "prefix existing actions")
  case True
  then obtain new where new: "actions = existing @ new" by (auto simp: prefix_def)
  have "list_all event_ok new \<and> protobuf_ok ser parse" using assms new by simp
  then show ?thesis
    using user_log.log_diff [of ser parse existing new] user_log.log_apply [of new ser parse] user_log.log_enc_Nil [of new ser parse] new
    by (simp add: user_ops_def)
next
  case False
  have "skip_existing actions existing = Inl AssertFailed"
    using False
  proof (induction actions existing rule: skip_existing.induct)
    case (2 my_it i existing)
    then show ?case by (cases my_it) (auto simp: assertE_def)
  qed simp
  then show ?thesis using False by (simp add: user_diff_from_def)
qed


section \<open>A concrete codec\<close>

text \<open>A serialisation with the two laws of \<open>protobuf_ok\<close>, for closed examples; it is not the protobuf wire format.\<close>

definition put_keys :: "bytes \<Rightarrow> bytes" where
  "put_keys ks = concat (map (\<lambda>b. [1, b]) ks) @ [0]"

fun get_keys :: "bytes \<Rightarrow> (bytes \<times> bytes) option" where
  "get_keys [] = None"
| "get_keys [t] = (if t = 0 then Some ([], []) else None)"
| "get_keys (t # b # r) = (if t = 0 then Some ([], b # r) else map_option (\<lambda>(ks, r'). (b # ks, r')) (get_keys r))"

definition put_size :: "32 word \<Rightarrow> bytes" where
  "put_size w = htobe64 (ucast w)"

definition put_user_instruction :: "user_instruction \<Rightarrow> bytes" where
  "put_user_instruction i =
     (case keystroke i of None \<Rightarrow> [0] | Some ks \<Rightarrow> 1 # put_keys ks)
     @ (case resize_msg i of None \<Rightarrow> [0] | Some (w, h) \<Rightarrow> 1 # put_size w @ put_size h)"

definition put_user_message :: "user_message \<Rightarrow> bytes" where
  "put_user_message m = concat (map put_user_instruction m)"

definition get_keystroke :: "bytes \<Rightarrow> (bytes option \<times> bytes) option" where
  "get_keystroke s = (case s of [] \<Rightarrow> None
     | t # r \<Rightarrow> if t = 0 then Some (None, r) else map_option (\<lambda>(ks, r'). (Some ks, r')) (get_keys r))"

definition get_resize :: "bytes \<Rightarrow> ((32 word \<times> 32 word) option \<times> bytes) option" where
  "get_resize s = (case s of [] \<Rightarrow> None
     | t # r \<Rightarrow> if t = 0 then Some (None, r)
               else Some (Some (ucast (be64toh (take 8 r)), ucast (be64toh (take 8 (drop 8 r)))), drop 16 r))"

text \<open>Each instruction takes at least two bytes, so the length of the string is enough fuel.\<close>

fun get_user_message_loop :: "nat \<Rightarrow> bytes \<Rightarrow> user_message option" where
  "get_user_message_loop n [] = Some []"
| "get_user_message_loop 0 s = None"
| "get_user_message_loop (Suc n) s =
     (case get_keystroke s of None \<Rightarrow> None
      | Some (k, r) \<Rightarrow> (case get_resize r of None \<Rightarrow> None
          | Some (z, r') \<Rightarrow> map_option (\<lambda>m. \<lparr>keystroke = k, resize_msg = z\<rparr> # m) (get_user_message_loop n r')))"

definition get_user_message :: "bytes \<Rightarrow> user_message option" where
  "get_user_message s = get_user_message_loop (length s) s"

lemma get_put_keys: "get_keys (put_keys ks @ r) = Some (ks, r)"
proof (induction ks)
  case Nil
  then show ?case by (cases r) (auto simp: put_keys_def)
qed (auto simp: put_keys_def)

lemma length_put_size [simp]: "length (put_size w) = 8"
  by (simp add: put_size_def wire_simps)

lemma get_put_size: "ucast (be64toh (put_size w)) = w"
  using be64toh_htobe64 [of "ucast w" "[]"]
  by (simp add: put_size_def) (rule bit_word_eqI, auto simp: bit_simps)

lemma get_keystroke_put: "get_keystroke ((case k of None \<Rightarrow> [0] | Some ks \<Rightarrow> 1 # put_keys ks) @ r) = Some (k, r)"
  by (auto simp: get_keystroke_def get_put_keys split: option.split)

lemma get_resize_put:
  "get_resize ((case z of None \<Rightarrow> [0] | Some (w, h) \<Rightarrow> 1 # put_size w @ put_size h) @ r) = Some (z, r)"
  by (auto simp: get_resize_def get_put_size split: option.split)

lemma put_user_instruction_not_Nil [simp]: "put_user_instruction i \<noteq> []"
  by (auto simp: put_user_instruction_def split: option.split)

lemma get_put_loop: "length m \<le> n \<Longrightarrow> get_user_message_loop n (concat (map put_user_instruction m)) = Some m"
proof (induction m arbitrary: n)
  case (Cons i m)
  then obtain n' where n: "n = Suc n'" "length m \<le> n'" by (cases n) auto
  have shape: "get_user_message_loop (Suc n') s = (case get_keystroke s of None \<Rightarrow> None
      | Some (k, r) \<Rightarrow> (case get_resize r of None \<Rightarrow> None
          | Some (z, r') \<Rightarrow> map_option (\<lambda>m. \<lparr>keystroke = k, resize_msg = z\<rparr> # m) (get_user_message_loop n' r')))"
    if "s \<noteq> []" for s
    using that by (cases s) auto
  let ?rest = "concat (map put_user_instruction m)"
  have whole: "concat (map put_user_instruction (i # m)) \<noteq> []" by simp
  have keys: "get_keystroke (put_user_instruction i @ r)
      = Some (keystroke i, (case resize_msg i of None \<Rightarrow> [0] | Some (w, h) \<Rightarrow> 1 # put_size w @ put_size h) @ r)" for r
    by (simp add: put_user_instruction_def get_keystroke_put)
  show ?case unfolding n(1) shape [OF whole]
    by (simp add: keys get_resize_put Cons.IH [OF n(2)])
qed (cases n, auto)

lemma length_put: "length m \<le> length (put_user_message m)"
proof (induction m)
  case (Cons i m)
  have "1 \<le> length (put_user_instruction i)" by (simp add: Suc_le_eq)
  then show ?case using Cons by (simp add: put_user_message_def)
qed simp

lemma codec_ok: "protobuf_ok put_user_message get_user_message"
  using get_put_loop [OF length_put]
  by (auto simp: protobuf_ok_def get_user_message_def put_user_message_def)

theorem user_diff_exact_witness:
  "user_apply_string get_user_message [] (projr (user_diff_from put_user_message
      [UserEvent_byte \<lparr>key_c = 104\<rparr>, UserEvent_byte \<lparr>key_c = 105\<rparr>, UserEvent_resize \<lparr>width = 80, height = 24\<rparr>]
      [UserEvent_byte \<lparr>key_c = 104\<rparr>]))
   = Inr [UserEvent_byte \<lparr>key_c = 105\<rparr>, UserEvent_resize \<lparr>width = 80, height = 24\<rparr>]"
proof -
  let ?as = "[UserEvent_byte \<lparr>key_c = 104\<rparr>, UserEvent_byte \<lparr>key_c = 105\<rparr>, UserEvent_resize \<lparr>width = 80, height = 24\<rparr>]"
  let ?ex = "[UserEvent_byte \<lparr>key_c = 104\<rparr>]"
  have ok: "list_all event_ok ?as" by (simp add: event_ok_def UserEvent_byte_def UserEvent_resize_def)
  have skip: "skip_existing ?as ?ex = Inr (tl ?as)" by simp
  show ?thesis using user_diff_exact [OF ok codec_ok, of ?ex] skip by (simp add: user_diff_from_def)
qed

end
