(* ===== verification/Transport_Sender.thy ===== *)
theory Transport_Sender
  imports User_Stream Connection
begin

text \<open>
  The sending half of the state synchronisation protocol (src/mosh/src/network/transportsender.h,
  transportsender-impl.h and transportstate.h).

  The template parameter \<^verbatim>\<open>MyState\<close> is the type variable \<open>'s\<close> together with its operations, a \<open>sync_ops\<close>.  The list
  iterator \<^verbatim>\<open>assumed_receiver_state\<close> is the index of the element it points to, None once that element was erased; reading
  through it then is undefined behaviour.  The connection and the counter of nonces are passed along explicitly, because
  sending changes them, and the clock is the frozen timestamp \<open>now\<close> of the event loop.  An operation that can throw
  returns the new state beside its result; an outer None is a call that does not return (the fragmenter's loop).
  Diagnostics on stderr are left out.
\<close>

section \<open>States of the sender\<close>

record 's timestamped_state =
  timestamp :: u64
  num :: u64
  state :: 's

record 's sender =
  current_state :: 's
  sent_states :: "'s timestamped_state list"
  assumed_receiver_state :: "nat option"
  s_fragmenter :: fragmenter
  next_ack_time :: u64
  next_send_time :: u64
  s_verbose :: u32
  shutdown_in_progress :: bool
  shutdown_tries :: int
  shutdown_start :: u64
  s_ack_num :: u64
  pending_data_ack :: bool
  SEND_MINDELAY :: u32
  s_last_heard :: u64
  mindelay_clock :: u64

definition SEND_INTERVAL_MIN :: int where "SEND_INTERVAL_MIN = 20"
definition SEND_INTERVAL_MAX :: int where "SEND_INTERVAL_MAX = 250"
definition ACK_INTERVAL :: u64 where "ACK_INTERVAL = 3000"
definition ACK_DELAY :: u64 where "ACK_DELAY = 100"
definition SHUTDOWN_RETRIES :: int where "SHUTDOWN_RETRIES = 16"
definition ACTIVE_RETRY_TIMEOUT :: u64 where "ACTIVE_RETRY_TIMEOUT = 10000"
definition MOSH_PROTOCOL_VERSION :: u32 where "MOSH_PROTOCOL_VERSION = 2"

definition TransportSender :: "u64 \<Rightarrow> 's \<Rightarrow> 's sender" where
  "TransportSender now initial_state =
     \<lparr>current_state = initial_state, sent_states = [\<lparr>timestamp = now, num = 0, state = initial_state\<rparr>],
      assumed_receiver_state = Some 0, s_fragmenter = Fragmenter, next_ack_time = now, next_send_time = now,
      s_verbose = 0, shutdown_in_progress = False, shutdown_tries = 0, shutdown_start = - 1, s_ack_num = 0,
      pending_data_ack = False, SEND_MINDELAY = 8, s_last_heard = 0, mindelay_clock = - 1\<rparr>"

text \<open>Reading through the iterator.\<close>

definition assumed :: "'s sender \<Rightarrow> 's timestamped_state result" where
  "assumed s =
     (case assumed_receiver_state s of
        None \<Rightarrow> Inl UndefinedBehaviour
      | Some i \<Rightarrow> if i < length (sent_states s) then Inr (sent_states s ! i) else Inl UndefinedBehaviour)"

section \<open>Timers\<close>

definition send_interval :: "connection \<Rightarrow> u64" where
  "send_interval c =
     (let SEND_INTERVAL = sint (of_int \<lceil>ddiv (SRTT c) 2\<rceil> :: 32 word)
      in of_int (if SEND_INTERVAL < SEND_INTERVAL_MIN then SEND_INTERVAL_MIN
                 else if SEND_INTERVAL > SEND_INTERVAL_MAX then SEND_INTERVAL_MAX
                 else SEND_INTERVAL))"

text \<open>The loop over the states after the first; \<open>i\<close> is the index of the head of the list, \<open>a\<close> the iterator so far.\<close>

fun assumed_loop :: "u64 \<Rightarrow> u64 \<Rightarrow> 's timestamped_state list \<Rightarrow> nat \<Rightarrow> nat \<Rightarrow> nat result" where
  "assumed_loop now limit [] i a = Inr a"
| "assumed_loop now limit (x # xs) i a =
     bindE (assertE (now \<ge> timestamp x) AssertFailed) (\<lambda>_.
     if now - timestamp x < limit then assumed_loop now limit xs (i + 1) i else Inr a)"

definition update_assumed_receiver_state :: "u64 \<Rightarrow> connection \<Rightarrow> 's sender \<Rightarrow> 's sender result" where
  "update_assumed_receiver_state now c s =
     (case sent_states s of
        [] \<Rightarrow> Inl UndefinedBehaviour
      | x # xs \<Rightarrow>
          bindE (assumed_loop now (timeout c + ACK_DELAY) xs 1 0) (\<lambda>a. Inr (s\<lparr>assumed_receiver_state := Some a\<rparr>)))"

text \<open>The states are visited from the back; the front is the prefix itself and comes last.\<close>

fun subtract_each :: "'s sync_ops \<Rightarrow> 's \<Rightarrow> 's timestamped_state list \<Rightarrow> 's timestamped_state list result" where
  "subtract_each ops known [] = Inr []"
| "subtract_each ops known (x # xs) =
     bindE (subtract_each ops known xs) (\<lambda>xs'.
     bindE (op_subtract ops False (state x) known) (\<lambda>st. Inr (x\<lparr>state := st\<rparr> # xs')))"

definition subtract_front :: "'s sync_ops \<Rightarrow> 's timestamped_state list \<Rightarrow> 's timestamped_state list result" where
  "subtract_front ops states =
     (case states of
        [] \<Rightarrow> Inl UndefinedBehaviour
      | x # xs \<Rightarrow>
          bindE (subtract_each ops (state x) xs) (\<lambda>xs'.
          bindE (op_subtract ops True (state x) (state x)) (\<lambda>st. Inr (x\<lparr>state := st\<rparr> # xs'))))"

definition rationalize_states :: "'s sync_ops \<Rightarrow> 's sender \<Rightarrow> 's sender result" where
  "rationalize_states ops s =
     (if sent_states s = [] then Inl UndefinedBehaviour
      else
        bindE (op_subtract ops False (current_state s) (state (hd (sent_states s)))) (\<lambda>cur.
        bindE (subtract_front ops (sent_states s)) (\<lambda>states.
        Inr (s\<lparr>current_state := cur, sent_states := states\<rparr>))))"

text \<open>The three timers after the states have been brought up to date: the next acknowledgement, the next diff, and the
  clock of the first pending change.\<close>

definition ack_timer :: "u64 \<Rightarrow> connection \<Rightarrow> 's sender \<Rightarrow> u64" where
  "ack_timer now c s =
     (let t = (if pending_data_ack s \<and> next_ack_time s > now + ACK_DELAY then now + ACK_DELAY else next_ack_time s)
      in if shutdown_in_progress s \<or> s_ack_num s = - 1 then timestamp (last (sent_states s)) + send_interval c else t)"

definition send_timer :: "'s sync_ops \<Rightarrow> u64 \<Rightarrow> connection \<Rightarrow> 's \<Rightarrow> 's sender \<Rightarrow> u64 \<times> u64" where
  "send_timer ops now c assumed_state s =
     (let back = last (sent_states s);
          front = hd (sent_states s);
          recent = (s_last_heard s + ACTIVE_RETRY_TIMEOUT > now)
      in if \<not> op_equal ops (current_state s) (state back)
         then
           (let md = (if mindelay_clock s = - 1 then now else mindelay_clock s)
            in (max (md + ucast (SEND_MINDELAY s)) (timestamp back + send_interval c), md))
         else if \<not> op_equal ops (current_state s) assumed_state \<and> recent
         then
           (let t = timestamp back + send_interval c
            in (if mindelay_clock s \<noteq> - 1 then max t (mindelay_clock s + ucast (SEND_MINDELAY s)) else t, mindelay_clock s))
         else if \<not> op_equal ops (current_state s) (state front) \<and> recent
         then (timestamp back + timeout c + ACK_DELAY, mindelay_clock s)
         else (- 1, mindelay_clock s))"

definition calculate_timers :: "'s sync_ops \<Rightarrow> u64 \<Rightarrow> connection \<Rightarrow> 's sender \<Rightarrow> 's sender result" where
  "calculate_timers ops now c s0 =
     bindE (update_assumed_receiver_state now c s0) (\<lambda>s1.
     bindE (rationalize_states ops s1) (\<lambda>s.
     bindE (assumed s) (\<lambda>a.
     let (next_send, mindelay) = send_timer ops now c (state a) s
     in Inr (s\<lparr>next_ack_time := ack_timer now c s, next_send_time := next_send, mindelay_clock := mindelay\<rparr>))))"

definition wait_time :: "'s sync_ops \<Rightarrow> u64 \<Rightarrow> connection \<Rightarrow> 's sender \<Rightarrow> ('s sender \<times> int) result" where
  "wait_time ops now c s0 =
     bindE (calculate_timers ops now c s0) (\<lambda>s.
     let next_wakeup = (if next_send_time s < next_ack_time s then next_send_time s else next_ack_time s)
     in if \<not> has_remote_addr c then Inr (s, 2 ^ 31 - 1)
        else if next_wakeup > now then Inr (s, sint (ucast (next_wakeup - now) :: 32 word))
        else Inr (s, 0))"

section \<open>Sending\<close>

text \<open>The inputs of one call: random bytes, and for the k-th fragment the outcome of \<^verbatim>\<open>sendto\<close> and of the \<^verbatim>\<open>socket\<close> call
  a port hop may make.\<close>

record send_env =
  rnd_uint8 :: "byte result"
  rnd_fill :: "nat \<Rightarrow> bytes result"
  sendto_outcomes :: "nat \<Rightarrow> send_outcome \<times> (int + int)"

definition CHAFF_MAX :: nat where "CHAFF_MAX = 16"

definition make_chaff :: "send_env \<Rightarrow> bytes result" where
  "make_chaff env =
     bindE (rnd_uint8 env) (\<lambda>b.
     let chaff_len = unat b mod (CHAFF_MAX + 1) in if chaff_len = 0 then Inr [] else rnd_fill env chaff_len)"

fun send_each :: "(block \<Rightarrow> block) \<Rightarrow> u64 \<Rightarrow> send_env \<Rightarrow> nat \<Rightarrow> fragment list \<Rightarrow> u64 \<times> connection
    \<Rightarrow> u64 \<times> connection \<times> unit result" where
  "send_each E now env k [] (counter, c) = (counter, c, Inr ())"
| "send_each E now env k (f # fs) (counter, c) =
     (case tostring f of
        Inl e \<Rightarrow> (counter, c, Inl e)
      | Inr s \<Rightarrow>
          (case send E counter now (fst (sendto_outcomes env k)) (snd (sendto_outcomes env k)) c s of
             (counter', c', Inl e) \<Rightarrow> (counter', c', Inl e)
           | (counter', c', Inr _) \<Rightarrow> send_each E now env (k + 1) fs (counter', c')))"

text \<open>The code the sender calls but does not contain: AES, zlib's compress, and the serialisation of an instruction.\<close>

record send_lib =
  lib_E :: "block \<Rightarrow> block"
  lib_compress :: "nat \<Rightarrow> bytes \<Rightarrow> bytes option"
  lib_ser :: "instruction \<Rightarrow> bytes"

type_synonym 's sending = "'s sender \<times> u64 \<times> connection \<times> unit result"

definition fragment_MTU :: "connection \<Rightarrow> u64" where
  "fragment_MTU c = of_int (MTU c) - of_nat ADDED_BYTES - of_nat SESSION_ADDED_BYTES"

definition send_in_fragments :: "send_lib \<Rightarrow> u64 \<Rightarrow> send_env \<Rightarrow> bytes \<Rightarrow> u64 \<Rightarrow> u64 \<Rightarrow> connection \<Rightarrow> 's sender
    \<Rightarrow> 's sending option" where
  "send_in_fragments lib now env diff new_num' counter c s =
     (case assumed s of
        Inl e \<Rightarrow> Some (s, counter, c, Inl e)
      | Inr assumed_state \<Rightarrow>
          (case make_chaff env of
             Inl e \<Rightarrow> Some (s, counter, c, Inl e)
           | Inr ch \<Rightarrow>
               (let inst = \<lparr>protocol_version = MOSH_PROTOCOL_VERSION, old_num = num assumed_state, new_num = new_num',
                            ack_num = s_ack_num s, throwaway_num = num (hd (sent_states s)), inst_diff = diff, chaff = ch\<rparr>;
                    s1 = (if new_num' = - 1 then s\<lparr>shutdown_tries := shutdown_tries s + 1\<rparr> else s)
                in case make_fragments (lib_compress lib) (lib_ser lib) (s_fragmenter s1) inst (fragment_MTU c) of
                     (g, r) \<Rightarrow>
                       (let s2 = s1\<lparr>s_fragmenter := g\<rparr>
                        in case r of
                             Inl e \<Rightarrow> Some (s2, counter, c, Inl e)
                           | Inr None \<Rightarrow> None
                           | Inr (Some fs) \<Rightarrow>
                               (case send_each (lib_E lib) now env 0 fs (counter, c) of
                                  (counter', c', Inl e) \<Rightarrow> Some (s2, counter', c', Inl e)
                                | (counter', c', Inr _) \<Rightarrow>
                                    Some (s2\<lparr>pending_data_ack := False\<rparr>, counter', c', Inr ()))))))"

text \<open>The list keeps at most 32 states; the one that goes is the sixteenth from the end.  An iterator to it dangles.\<close>

definition add_sent_state :: "u64 \<Rightarrow> u64 \<Rightarrow> 's \<Rightarrow> 's sender \<Rightarrow> 's sender" where
  "add_sent_state the_timestamp n st s =
     (let states = sent_states s @ [\<lparr>timestamp = the_timestamp, num = n, state = st\<rparr>]
      in if length states > 32
         then
           (let k = length states - 16
            in s\<lparr>sent_states := take k states @ drop (k + 1) states,
                 assumed_receiver_state :=
                   (case assumed_receiver_state s of
                      None \<Rightarrow> None
                    | Some i \<Rightarrow> if i = k then None else if i > k then Some (i - 1) else Some i)\<rparr>)
         else s\<lparr>sent_states := states\<rparr>)"

definition send_to_receiver :: "'s sync_ops \<Rightarrow> send_lib \<Rightarrow> u64 \<Rightarrow> send_env \<Rightarrow> bytes \<Rightarrow> u64 \<Rightarrow> connection \<Rightarrow> 's sender
    \<Rightarrow> 's sending option" where
  "send_to_receiver ops lib now env diff counter c s =
     (let back = last (sent_states s);
          n0 = (if op_equal ops (current_state s) (state back) then num back else num back + 1);
          n = (if shutdown_in_progress s then - 1 else n0);
          s1 = (if n = num back
                then s\<lparr>sent_states := butlast (sent_states s) @ [back\<lparr>timestamp := now\<rparr>]\<rparr>
                else add_sent_state now n (current_state s) s)
      in case send_in_fragments lib now env diff n counter c s1 of
           None \<Rightarrow> None
         | Some (s2, counter', c', Inl e) \<Rightarrow> Some (s2, counter', c', Inl e)
         | Some (s2, counter', c', Inr _) \<Rightarrow>
             Some (s2\<lparr>assumed_receiver_state := Some (length (sent_states s2) - 1),
                      next_ack_time := now + ACK_INTERVAL, next_send_time := - 1\<rparr>, counter', c', Inr ()))"

definition send_empty_ack :: "send_lib \<Rightarrow> u64 \<Rightarrow> send_env \<Rightarrow> u64 \<Rightarrow> connection \<Rightarrow> 's sender \<Rightarrow> 's sending option" where
  "send_empty_ack lib now env counter c s =
     (if now < next_ack_time s then Some (s, counter, c, Inl AssertFailed)
      else
        (let n = (if shutdown_in_progress s then - 1 else num (last (sent_states s)) + 1)
         in case send_in_fragments lib now env [] n counter c (add_sent_state now n (current_state s) s) of
              None \<Rightarrow> None
            | Some (s2, counter', c', Inl e) \<Rightarrow> Some (s2, counter', c', Inl e)
            | Some (s2, counter', c', Inr _) \<Rightarrow>
                Some (s2\<lparr>next_ack_time := now + ACK_INTERVAL, next_send_time := - 1\<rparr>, counter', c', Inr ())))"

definition attempt_prospective_resend_optimization :: "'s sync_ops \<Rightarrow> bytes \<Rightarrow> 's sender \<Rightarrow> ('s sender \<times> bytes) result" where
  "attempt_prospective_resend_optimization ops proposed_diff s =
     (if assumed_receiver_state s = Some 0 then Inr (s, proposed_diff)
      else
        bindE (op_diff_from ops (current_state s) (state (hd (sent_states s)))) (\<lambda>resend_diff.
        if length resend_diff \<le> length proposed_diff
           \<or> (length resend_diff < 1000 \<and> length resend_diff - length proposed_diff < 100)
        then Inr (s\<lparr>assumed_receiver_state := Some 0\<rparr>, resend_diff)
        else Inr (s, proposed_diff)))"

text \<open>With \<^verbatim>\<open>verbose\<close> set the diff is applied again and compared; only warnings depend on the outcome.\<close>

definition verify_diff :: "'s sync_ops \<Rightarrow> bytes \<Rightarrow> 's sender \<Rightarrow> unit result" where
  "verify_diff ops diff s =
     (if s_verbose s \<noteq> 0
      then bindE (assumed s) (\<lambda>st.
           bindE (op_apply_string ops (state st) diff) (\<lambda>newstate.
           bindE (op_init_diff ops (current_state s)) (\<lambda>_.
           bindE (op_init_diff ops newstate) (\<lambda>_. Inr ()))))
      else Inr ())"

definition prepare_diff :: "'s sync_ops \<Rightarrow> 's sender \<Rightarrow> ('s sender \<times> bytes) result" where
  "prepare_diff ops s =
     bindE (assumed s) (\<lambda>st.
     bindE (op_diff_from ops (current_state s) (state st)) (\<lambda>diff0.
     bindE (attempt_prospective_resend_optimization ops diff0 s) (\<lambda>(s', diff).
     bindE (verify_diff ops diff s') (\<lambda>_. Inr (s', diff)))))"

definition tick :: "'s sync_ops \<Rightarrow> send_lib \<Rightarrow> u64 \<Rightarrow> send_env \<Rightarrow> u64 \<Rightarrow> connection \<Rightarrow> 's sender \<Rightarrow> 's sending option" where
  "tick ops lib now env counter c s0 =
     (case calculate_timers ops now c s0 of
        Inl e \<Rightarrow> Some (s0, counter, c, Inl e)
      | Inr s \<Rightarrow>
          if \<not> has_remote_addr c then Some (s, counter, c, Inr ())
          else if now < next_ack_time s \<and> now < next_send_time s then Some (s, counter, c, Inr ())
          else
            (case prepare_diff ops s of
               Inl e \<Rightarrow> Some (s, counter, c, Inl e)
             | Inr (s1, diff) \<Rightarrow>
                 if diff = []
                 then
                   (case (if now \<ge> next_ack_time s1 then send_empty_ack lib now env counter c s1
                          else Some (s1, counter, c, Inr ())) of
                      None \<Rightarrow> None
                    | Some (s2, counter', c', Inl e) \<Rightarrow> Some (s2, counter', c', Inl e)
                    | Some (s2, counter', c', Inr _) \<Rightarrow>
                        (let s3 = (if now \<ge> next_ack_time s1 then s2\<lparr>mindelay_clock := - 1\<rparr> else s2)
                         in Some (if now \<ge> next_send_time s3 then s3\<lparr>next_send_time := - 1, mindelay_clock := - 1\<rparr> else s3,
                                  counter', c', Inr ())))
                 else if now \<ge> next_send_time s1 \<or> now \<ge> next_ack_time s1
                 then
                   (case send_to_receiver ops lib now env diff counter c s1 of
                      None \<Rightarrow> None
                    | Some (s2, counter', c', Inl e) \<Rightarrow> Some (s2, counter', c', Inl e)
                    | Some (s2, counter', c', Inr _) \<Rightarrow> Some (s2\<lparr>mindelay_clock := - 1\<rparr>, counter', c', Inr ()))
                 else Some (s1, counter, c, Inr ())))"

section \<open>Acknowledgements, shutdown and access to the state\<close>

definition process_acknowledgment_through :: "u64 \<Rightarrow> 's sender \<Rightarrow> 's sender result" where
  "process_acknowledgment_through n s =
     (let s' = (if \<exists>x \<in> set (sent_states s). num x = n
                then s\<lparr>sent_states := filter (\<lambda>x. \<not> num x < n) (sent_states s),
                       assumed_receiver_state :=
                         (case assumed s of
                            Inl _ \<Rightarrow> None
                          | Inr x \<Rightarrow> if num x < n then None
                              else map_option (\<lambda>i. i - length (filter (\<lambda>x. num x < n) (take i (sent_states s))))
                                     (assumed_receiver_state s))\<rparr>
                else s)
      in bindE (assertE (sent_states s' \<noteq> []) AssertFailed) (\<lambda>_. Inr s'))"

definition shutdown_ack_timed_out :: "u64 \<Rightarrow> 's sender \<Rightarrow> bool" where
  "shutdown_ack_timed_out now s =
     (if shutdown_in_progress s
      then if shutdown_tries s \<ge> SHUTDOWN_RETRIES then True
           else if now - shutdown_start s \<ge> ACTIVE_RETRY_TIMEOUT then True else False
      else False)"

definition set_ack_num :: "u64 \<Rightarrow> 's sender \<Rightarrow> 's sender" where
  "set_ack_num n s = s\<lparr>s_ack_num := n\<rparr>"

definition set_data_ack :: "'s sender \<Rightarrow> 's sender" where
  "set_data_ack s = s\<lparr>pending_data_ack := True\<rparr>"

definition remote_heard :: "u64 \<Rightarrow> 's sender \<Rightarrow> 's sender" where
  "remote_heard ts s = s\<lparr>s_last_heard := ts\<rparr>"

definition start_shutdown :: "u64 \<Rightarrow> 's sender \<Rightarrow> 's sender" where
  "start_shutdown now s = (if \<not> shutdown_in_progress s then s\<lparr>shutdown_start := now, shutdown_in_progress := True\<rparr> else s)"

text \<open>\<^verbatim>\<open>get_current_state\<close> hands out a reference through which the caller changes the state; \<open>f\<close> is that change.\<close>

definition change_current_state :: "('s \<Rightarrow> 's) \<Rightarrow> 's sender \<Rightarrow> 's sender result" where
  "change_current_state f s =
     bindE (assertE (\<not> shutdown_in_progress s) AssertFailed) (\<lambda>_. Inr (s\<lparr>current_state := f (current_state s)\<rparr>))"

definition get_shutdown_acknowledged :: "'s sender \<Rightarrow> bool" where
  "get_shutdown_acknowledged s \<longleftrightarrow> num (hd (sent_states s)) = - 1"

definition get_counterparty_shutdown_acknowledged :: "'s sender \<Rightarrow> bool" where
  "get_counterparty_shutdown_acknowledged s \<longleftrightarrow> last_ack_sent (s_fragmenter s) = - 1"

definition get_sent_state_acked :: "'s sender \<Rightarrow> u64" where
  "get_sent_state_acked s = num (hd (sent_states s))"

definition get_sent_state_last :: "'s sender \<Rightarrow> u64" where
  "get_sent_state_last s = num (last (sent_states s))"


section \<open>The iterator\<close>

text \<open>Later states are at least as recent, so the loop stops at its first step or runs to the end: the iterator is
  the first or the last element.\<close>

lemma recent_later:
  fixes now t u limit :: u64
  assumes "t \<le> u" "u \<le> now" "now - t < limit"
  shows "now - u < limit"
proof -
  have "now - u \<le> now - t" using assms by (simp add: word_le_nat_alt unat_sub)
  then show ?thesis using assms(3) by simp
qed

lemma assumed_loop_all:
  assumes "sorted (map timestamp xs)" "\<forall>x \<in> set xs. timestamp x \<le> now" "xs \<noteq> []" "now - timestamp (hd xs) < limit"
  shows "assumed_loop now limit xs i a = Inr (i + length xs - 1)"
  using assms
proof (induction xs arbitrary: i a)
  case (Cons x xs)
  show ?case
  proof (cases xs)
    case (Cons y ys)
    have "now - timestamp y < limit"
      using Cons.prems Cons recent_later [of "timestamp x" "timestamp y" now limit] by simp
    then have "assumed_loop now limit xs (i + 1) i = Inr (i + 1 + length xs - 1)"
      using Cons.IH [of "i + 1" i] Cons.prems Cons by simp
    then show ?thesis using Cons.prems by (simp add: assertE_def)
  qed (use Cons.prems in \<open>simp add: assertE_def\<close>)
qed simp

lemma update_assumed_ends:
  assumes "sent_states s \<noteq> []" "sorted (map timestamp (sent_states s))" "\<forall>x \<in> set (sent_states s). timestamp x \<le> now"
  shows "\<exists>a. update_assumed_receiver_state now c s = Inr (s\<lparr>assumed_receiver_state := Some a\<rparr>)
    \<and> (a = 0 \<or> a = length (sent_states s) - 1)"
proof -
  obtain x xs where s: "sent_states s = x # xs" using assms(1) by (cases "sent_states s") auto
  show ?thesis
  proof (cases "xs = [] \<or> \<not> now - timestamp (hd xs) < timeout c + ACK_DELAY")
    case True
    then show ?thesis using assms s by (cases xs) (auto simp: update_assumed_receiver_state_def assertE_def)
  next
    case False
    then have "assumed_loop now (timeout c + ACK_DELAY) xs 1 0 = Inr (length xs)"
      using assms s assumed_loop_all [of xs now "timeout c + ACK_DELAY" 1 0] by simp
    then show ?thesis using s by (auto simp: update_assumed_receiver_state_def)
  qed
qed

lemma sorted_take_drop: "sorted xs \<Longrightarrow> sorted (take k xs @ drop (k + 1) xs)"
proof -
  assume "sorted xs"
  then have parts: "sorted (take k xs)" "sorted (drop (k + 1) xs)" "\<forall>x \<in> set (take k xs). \<forall>y \<in> set (drop k xs). x \<le> y"
    using sorted_append [of "take k xs" "drop k xs"] sorted_wrt_drop [of "(\<le>)" xs "k + 1"] by simp_all
  have "set (drop (k + 1) xs) \<subseteq> set (drop k xs)" by (simp add: set_drop_subset_set_drop)
  then show ?thesis using parts by (auto simp: sorted_append)
qed

text \<open>Adding a state keeps the queue short and sorted, drops no other end, and never invalidates an iterator that is
  at one of the ends.\<close>

lemma add_sent_state_queue:
  assumes "sent_states s \<noteq> []" "length (sent_states s) \<le> 32"
  obtains mid where "sent_states (add_sent_state t n st s) = mid @ [\<lparr>timestamp = t, num = n, state = st\<rparr>]"
    "mid \<noteq> []" "hd mid = hd (sent_states s)" "length mid \<le> 31" "set mid \<subseteq> set (sent_states s)"
    "mid = sent_states s \<or> mid = take 17 (sent_states s) @ drop 18 (sent_states s)"
proof (cases "length (sent_states s) = 32")
  case True
  then show ?thesis
    by (intro that [of "take 17 (sent_states s) @ drop 18 (sent_states s)"])
      (auto simp: add_sent_state_def Let_def hd_append dest: in_set_takeD in_set_dropD)
next
  case False
  then show ?thesis using assms by (intro that [of "sent_states s"]) (auto simp: add_sent_state_def Let_def)
qed

lemma add_sent_state_assumed:
  assumes "sent_states s \<noteq> []" "length (sent_states s) \<le> 32" "assumed_receiver_state s = Some a"
    "a = 0 \<or> a = length (sent_states s) - 1"
  shows "assumed (add_sent_state t n st s) = Inr (sent_states s ! a)"
proof (cases "length (sent_states s) = 32")
  case True
  then show ?thesis using assms
    by (auto simp: add_sent_state_def Let_def assumed_def nth_append)
next
  case False
  then show ?thesis using assms by (auto simp: add_sent_state_def Let_def assumed_def nth_append)
qed

lemma add_sent_state_fields [simp]:
  "current_state (add_sent_state t n st s) = current_state s"
  "s_fragmenter (add_sent_state t n st s) = s_fragmenter s"
  "s_ack_num (add_sent_state t n st s) = s_ack_num s"
  "shutdown_in_progress (add_sent_state t n st s) = shutdown_in_progress s"
  by (auto simp: add_sent_state_def Let_def)

section \<open>Frames\<close>

lemma timers_shape:
  assumes "calculate_timers ops now c s = Inr s'"
  obtains s1 s2 na ns md where "update_assumed_receiver_state now c s = Inr s1" "rationalize_states ops s1 = Inr s2"
    "s' = s2\<lparr>next_ack_time := na, next_send_time := ns, mindelay_clock := md\<rparr>"
proof -
  obtain s1 s2 where s12: "update_assumed_receiver_state now c s = Inr s1" "rationalize_states ops s1 = Inr s2"
    using assms by (auto simp: calculate_timers_def result_simps)
  obtain a where a: "assumed s2 = Inr a" using assms s12 by (auto simp: calculate_timers_def result_simps)
  obtain ns md where t: "send_timer ops now c (state a) s2 = (ns, md)" by force
  have "s' = s2\<lparr>next_ack_time := ack_timer now c s2, next_send_time := ns, mindelay_clock := md\<rparr>"
    using assms s12 a t by (simp add: calculate_timers_def)
  then show thesis using that s12 by blast
qed

lemma subtract_each_nums:
  "subtract_each ops known xs = Inr ys \<Longrightarrow> map num ys = map num xs \<and> map timestamp ys = map timestamp xs"
  by (induction xs arbitrary: ys) (auto simp: result_simps)

lemma subtract_front_nums:
  "subtract_front ops xs = Inr ys \<Longrightarrow> map num ys = map num xs \<and> map timestamp ys = map timestamp xs"
  by (cases xs) (auto simp: subtract_front_def result_simps dest!: subtract_each_nums)

lemma update_assumed_shape:
  "update_assumed_receiver_state now c s = Inr s1 \<Longrightarrow> \<exists>a. s1 = s\<lparr>assumed_receiver_state := Some a\<rparr>"
  by (auto simp: update_assumed_receiver_state_def result_simps split: list.splits)

lemma rationalize_shape:
  assumes "rationalize_states ops s = Inr s'"
  obtains cur states where "s' = s\<lparr>current_state := cur, sent_states := states\<rparr>" "map num states = map num (sent_states s)"
    "map timestamp states = map timestamp (sent_states s)"
  using assms subtract_front_nums [of ops "sent_states s"]
  by (auto simp: rationalize_states_def result_simps split: if_splits)

text \<open>Computing the timers does not touch what identifies the sender's messages.\<close>

lemma timers_frame:
  assumes "calculate_timers ops now c s = Inr s'"
  shows "s_fragmenter s' = s_fragmenter s" "s_ack_num s' = s_ack_num s" "shutdown_in_progress s' = shutdown_in_progress s"
    "map num (sent_states s') = map num (sent_states s)" "map timestamp (sent_states s') = map timestamp (sent_states s)"
proof -
  obtain s1 s2 na ns md where *: "update_assumed_receiver_state now c s = Inr s1" "rationalize_states ops s1 = Inr s2"
    "s' = s2\<lparr>next_ack_time := na, next_send_time := ns, mindelay_clock := md\<rparr>"
    using timers_shape [OF assms] .
  obtain a where a: "s1 = s\<lparr>assumed_receiver_state := Some a\<rparr>" using update_assumed_shape [OF *(1)] by auto
  obtain cur states where st: "s2 = s1\<lparr>current_state := cur, sent_states := states\<rparr>"
    "map num states = map num (sent_states s1)" "map timestamp states = map timestamp (sent_states s1)"
    using rationalize_shape [OF *(2)] .
  show "s_fragmenter s' = s_fragmenter s" "s_ack_num s' = s_ack_num s" "shutdown_in_progress s' = shutdown_in_progress s"
    "map num (sent_states s') = map num (sent_states s)" "map timestamp (sent_states s') = map timestamp (sent_states s)"
    using * a st by auto
qed

definition instruction_of :: "u64 \<Rightarrow> u64 \<Rightarrow> u64 \<Rightarrow> u64 \<Rightarrow> bytes \<Rightarrow> bytes \<Rightarrow> instruction" where
  "instruction_of old new ack throwaway d ch =
     \<lparr>protocol_version = MOSH_PROTOCOL_VERSION, old_num = old, new_num = new, ack_num = ack, throwaway_num = throwaway,
      inst_diff = d, chaff = ch\<rparr>"

lemma make_fragments_last:
  "make_fragments z ser g inst m = (g', r) \<Longrightarrow> last_instruction g' = last_instruction g \<or> last_instruction g' = inst"
  by (auto simp: make_fragments_def Let_def split: if_splits)

text \<open>What a transmission changes: the fragmenter remembers the instruction, the rest is bookkeeping.\<close>

lemma send_in_fragments_shape:
  assumes "send_in_fragments lib now env d n counter c s = Some (s', counter', c', r)"
  obtains (failed) e where "assumed s = Inl e" "s' = s" "r = Inl e"
  | (sent) x tries g pend where "assumed s = Inr x"
      "s' = s\<lparr>shutdown_tries := tries, s_fragmenter := g, pending_data_ack := pend\<rparr>"
      "last_instruction g = last_instruction (s_fragmenter s)
        \<or> (\<exists>ch. last_instruction g = instruction_of (num x) n (s_ack_num s) (num (hd (sent_states s))) d ch)"
proof (cases "assumed s")
  case (Inl e)
  then show thesis using assms by (intro failed) (auto simp: send_in_fragments_def)
next
  case (Inr x)
  show thesis
  proof (cases "make_chaff env")
    case (Inl e)
    then show thesis using assms Inr
      by (intro sent [where x = x and tries = "shutdown_tries s" and g = "s_fragmenter s" and pend = "pending_data_ack s"])
        (auto simp: send_in_fragments_def)
  next
    case ch: (Inr ch)
    let ?inst = "instruction_of (num x) n (s_ack_num s) (num (hd (sent_states s))) d ch"
    let ?s1 = "if n = - 1 then s\<lparr>shutdown_tries := shutdown_tries s + 1\<rparr> else s"
    obtain g mr where g: "make_fragments (lib_compress lib) (lib_ser lib) (s_fragmenter ?s1) ?inst (fragment_MTU c) = (g, mr)"
      by force
    have last: "last_instruction g = last_instruction (s_fragmenter s) \<or> last_instruction g = ?inst"
      using make_fragments_last [OF g] by (auto split: if_splits)
    have "\<exists>tries pend. s' = s\<lparr>shutdown_tries := tries, s_fragmenter := g, pending_data_ack := pend\<rparr>"
      using assms Inr ch g
      by (cases s) (auto simp: send_in_fragments_def instruction_of_def Let_def split: sum.splits option.splits prod.splits if_splits)
    then show thesis using sent Inr last by blast
  qed
qed

text \<open>The part of the sender that the protocol's meaning depends on.\<close>

definition core :: "'s sender \<Rightarrow> 's \<times> 's timestamped_state list \<times> fragmenter \<times> u64 \<times> bool" where
  "core s = (current_state s, sent_states s, s_fragmenter s, s_ack_num s, shutdown_in_progress s)"

lemma core_simps [simp]:
  "core (s\<lparr>next_send_time := t\<rparr>) = core s" "core (s\<lparr>next_ack_time := t\<rparr>) = core s" "core (s\<lparr>mindelay_clock := t\<rparr>) = core s"
  "core (s\<lparr>assumed_receiver_state := a\<rparr>) = core s" "core (s\<lparr>shutdown_tries := k\<rparr>) = core s"
  "core (s\<lparr>pending_data_ack := b\<rparr>) = core s" "core (s\<lparr>s_last_heard := t\<rparr>) = core s"
  by (simp_all add: core_def)

lemma core_eqD:
  "core s = core s' \<Longrightarrow> current_state s = current_state s' \<and> sent_states s = sent_states s'
     \<and> s_fragmenter s = s_fragmenter s' \<and> s_ack_num s = s_ack_num s' \<and> shutdown_in_progress s = shutdown_in_progress s'"
  by (simp add: core_def)

lemma prepare_diff_shape:
  assumes "prepare_diff ops s = Inr (s1, d)"
  obtains a where "s1 = s\<lparr>assumed_receiver_state := a\<rparr>"
proof -
  have "s1 = s \<or> s1 = s\<lparr>assumed_receiver_state := Some 0\<rparr>"
    using assms by (auto simp: prepare_diff_def attempt_prospective_resend_optimization_def result_simps split: if_splits)
  then show thesis using that [of "assumed_receiver_state s"] that [of "Some 0"] by auto
qed

text \<open>The paths through \<^verbatim>\<open>tick\<close>.\<close>

lemma tick_paths:
  assumes "tick ops lib now env counter c s0 = Some (s', counter', c', r)"
  obtains (timers_failed) e where "calculate_timers ops now c s0 = Inl e" "s' = s0" "r = Inl e"
  | (idle) s where "calculate_timers ops now c s0 = Inr s" "core s' = core s" "r = Inr ()"
  | (diff_failed) s e where "calculate_timers ops now c s0 = Inr s" "prepare_diff ops s = Inl e" "s' = s" "r = Inl e"
  | (ack) s s1 s2 where "calculate_timers ops now c s0 = Inr s" "prepare_diff ops s = Inr (s1, [])" "next_ack_time s1 \<le> now"
      "send_empty_ack lib now env counter c s1 = Some (s2, counter', c', r)" "core s' = core s2"
  | (data) s s1 d s2 where "calculate_timers ops now c s0 = Inr s" "prepare_diff ops s = Inr (s1, d)" "d \<noteq> []"
      "send_to_receiver ops lib now env d counter c s1 = Some (s2, counter', c', r)" "core s' = core s2"
proof (cases "calculate_timers ops now c s0")
  case (Inl e)
  then show thesis using assms by (intro timers_failed) (auto simp: tick_def)
next
  case s: (Inr s)
  show thesis
  proof (cases "\<not> has_remote_addr c \<or> now < next_ack_time s \<and> now < next_send_time s")
    case True
    then show thesis using assms s by (intro idle [of s]) (auto simp: tick_def split: if_splits)
  next
    case busy: False
    show thesis
    proof (cases "prepare_diff ops s")
      case (Inl e)
      then show thesis using assms s busy by (intro diff_failed [of s e]) (auto simp: tick_def)
    next
      case (Inr p)
      then obtain s1 d where p: "prepare_diff ops s = Inr (s1, d)" by (cases p) auto
      have c1: "core s1 = core s" by (rule prepare_diff_shape [OF p]) simp
      show thesis
      proof (cases "d = []")
        case d: True
        show thesis
        proof (cases "next_ack_time s1 \<le> now")
          case True
          have "\<exists>s2. send_empty_ack lib now env counter c s1 = Some (s2, counter', c', r) \<and> core s' = core s2"
            using assms s busy p d True
            by (auto simp: tick_def Let_def split: option.splits sum.splits if_splits)
          then show thesis using ack s p d True by blast
        next
          case False
          then show thesis using assms s busy p d c1
            by (intro idle [of s]) (auto simp: tick_def Let_def split: option.splits sum.splits if_splits)
        qed
      next
        case d: False
        show thesis
        proof (cases "next_send_time s1 \<le> now \<or> next_ack_time s1 \<le> now")
          case True
          have "\<exists>s2. send_to_receiver ops lib now env d counter c s1 = Some (s2, counter', c', r) \<and> core s' = core s2"
            using assms s busy p d True
            by (auto simp: tick_def split: option.splits sum.splits if_splits)
          then show thesis using data s p d by blast
        next
          case False
          then show thesis using assms s busy p d c1
            by (intro idle [of s]) (auto simp: tick_def split: option.splits sum.splits if_splits)
        qed
      qed
    qed
  qed
qed

end
