(* ===== verification/Transport.thy ===== *)
theory Transport
  imports Transport_Sender
begin

text \<open>
  The transport (src/mosh/src/network/networktransport.h and networktransport-impl.h): a connection, a sender for the
  local state, and a receiver that keeps numbered versions of the remote state.

  \<open>receive_instruction\<close> is the body of \<^verbatim>\<open>recv\<close> from the reassembled instruction on.  The reference state is found before
  the states below the throwaway number are erased and read after it; if the erasure removed it, that read is
  undefined behaviour.  Messages printed in verbose mode are left out.
\<close>

section \<open>The receiver\<close>

record ('my, 'remote) transport =
  connection :: connection
  sender :: "'my sender"
  received_states :: "'remote timestamped_state list"
  receiver_quench_timer :: u64
  last_receiver_state :: 'remote
  t_fragments :: assembly
  t_verbose :: u32

definition Transport :: "u64 \<Rightarrow> connection \<Rightarrow> 'my \<Rightarrow> 'remote \<Rightarrow> ('my, 'remote) transport" where
  "Transport now c initial_state initial_remote =
     \<lparr>connection = c, sender = TransportSender now initial_state,
      received_states = [\<lparr>timestamp = now, num = 0, state = initial_remote\<rparr>], receiver_quench_timer = 0,
      last_receiver_state = initial_remote, t_fragments = FragmentAssembly, t_verbose = 0\<rparr>"

definition process_throwaway_until :: "u64 \<Rightarrow> 'r timestamped_state list \<Rightarrow> 'r timestamped_state list result" where
  "process_throwaway_until n states =
     (let states' = filter (\<lambda>x. \<not> num x < n) states
      in bindE (assertE (length states' > 0) FatalAssert) (\<lambda>_. Inr states'))"

text \<open>Insertion before the first state with a greater number; None when there is none.\<close>

fun insert_before :: "'r timestamped_state \<Rightarrow> 'r timestamped_state list \<Rightarrow> 'r timestamped_state list option" where
  "insert_before new_state [] = None"
| "insert_before new_state (i # is) =
     (if num i > num new_state then Some (new_state # i # is)
      else map_option (\<lambda>is'. i # is') (insert_before new_state is))"

text \<open>The part of \<^verbatim>\<open>recv\<close> after the queue limit: build the new state from the reference state and store it.  The reference is
  an iterator into \<^verbatim>\<open>received_states\<close> obtained before the throwaway; reading it is undefined when the state it
  points to has been erased from the list in between.  States of the list are erased by number, so the state is still there
  exactly when the list has one of its number.\<close>

definition accept_state :: "'r sync_ops \<Rightarrow> u64 \<Rightarrow> instruction \<Rightarrow> 'r timestamped_state \<Rightarrow> ('my, 'r) transport
    \<Rightarrow> ('my, 'r) transport \<times> unit result" where
  "accept_state ops now inst reference t =
     (if \<not> (\<exists>i \<in> set (received_states t). num i = num reference) then (t, Inl UndefinedBehaviour)
      else
        (case (if inst_diff inst \<noteq> [] then op_apply_string ops (state reference) (inst_diff inst) else Inr (state reference)) of
           Inl e \<Rightarrow> (t, Inl e)
         | Inr st \<Rightarrow>
             (let new_state = \<lparr>timestamp = now, num = new_num inst, state = st\<rparr>
              in case insert_before new_state (received_states t) of
                   Some states \<Rightarrow> (t\<lparr>received_states := states\<rparr>, Inr ())
                 | None \<Rightarrow>
                     (let s1 = remote_heard now (set_ack_num (new_num inst) (sender t));
                          s2 = (if inst_diff inst \<noteq> [] then set_data_ack s1 else s1)
                      in (t\<lparr>received_states := received_states t @ [new_state], sender := s2\<rparr>, Inr ())))))"

definition receive_instruction :: "'r sync_ops \<Rightarrow> u64 \<Rightarrow> instruction \<Rightarrow> ('my, 'r) transport
    \<Rightarrow> ('my, 'r) transport \<times> unit result" where
  "receive_instruction ops now inst t =
     (if protocol_version inst \<noteq> MOSH_PROTOCOL_VERSION
      then (t, Inl (NetworkException ''mosh protocol version mismatch'' 0))
      else
        (case process_acknowledgment_through (ack_num inst) (sender t) of
           Inl e \<Rightarrow> (t, Inl e)
         | Inr s1 \<Rightarrow>
             (let t1 = t\<lparr>sender := s1,
                         connection := (connection t)\<lparr>last_roundtrip_success := timestamp (hd (sent_states s1))\<rparr>\<rparr>
              in if \<exists>i \<in> set (received_states t1). new_num inst = num i then (t1, Inr ())
                 else
                   (case find (\<lambda>i. old_num inst = num i) (received_states t1) of
                      None \<Rightarrow> (t1, Inr ())
                    | Some reference \<Rightarrow>
                        (case process_throwaway_until (throwaway_num inst) (received_states t1) of
                           Inl e \<Rightarrow> (t1, Inl e)
                         | Inr states \<Rightarrow>
                             (let t2 = t1\<lparr>received_states := states\<rparr>
                              in if length states > 1024
                                 then if now < receiver_quench_timer t2 then (t2, Inr ())
                                      else accept_state ops now inst reference (t2\<lparr>receiver_quench_timer := now + 15000\<rparr>)
                                 else accept_state ops now inst reference t2))))))"

text \<open>The code the receiver calls but does not contain: AES, zlib's uncompress and the parser of instructions.\<close>

record recv_lib =
  rlib_E :: "block \<Rightarrow> block"
  rlib_D :: "block \<Rightarrow> block"
  lib_uncompress :: "nat \<Rightarrow> bytes \<Rightarrow> bytes option"
  lib_parse :: "bytes \<Rightarrow> instruction option"

definition recv_payload :: "'r sync_ops \<Rightarrow> recv_lib \<Rightarrow> u64 \<Rightarrow> bytes \<Rightarrow> ('my, 'r) transport
    \<Rightarrow> ('my, 'r) transport \<times> unit result" where
  "recv_payload ops lib now s t =
     (case bindE (Fragment_of_string s) (add_fragment (t_fragments t)) of
        Inl e \<Rightarrow> (t, Inl e)
      | Inr (a, finished) \<Rightarrow>
          (let t1 = t\<lparr>t_fragments := a\<rparr>
           in if finished
              then (case get_assembly (lib_uncompress lib) (lib_parse lib) a of
                      Inl e \<Rightarrow> (t1, Inl e)
                    | Inr (a', inst) \<Rightarrow> receive_instruction ops now inst (t1\<lparr>t_fragments := a'\<rparr>))
              else (t1, Inr ())))"

definition recv :: "'r sync_ops \<Rightarrow> recv_lib \<Rightarrow> u64 \<Rightarrow> (int \<Rightarrow> int + datagram) \<Rightarrow> ('my, 'r) transport
    \<Rightarrow> ('my, 'r) transport \<times> unit result" where
  "recv ops lib now poll t =
     (case conn_recv (rlib_E lib) (rlib_D lib) now poll (connection t) of
        (c, Inl e) \<Rightarrow> (t\<lparr>connection := c\<rparr>, Inl e)
      | (c, Inr s) \<Rightarrow> recv_payload ops lib now s (t\<lparr>connection := c\<rparr>))"

definition get_remote_diff :: "'r sync_ops \<Rightarrow> ('my, 'r) transport \<Rightarrow> (('my, 'r) transport \<times> bytes) result" where
  "get_remote_diff ops t =
     (if received_states t = [] then Inl UndefinedBehaviour
      else
        bindE (op_diff_from ops (state (last (received_states t))) (last_receiver_state t)) (\<lambda>ret.
        bindE (subtract_front ops (received_states t)) (\<lambda>states.
        Inr (t\<lparr>received_states := states, last_receiver_state := state (last states)\<rparr>, ret))))"

definition get_remote_state_num :: "('my, 'r) transport \<Rightarrow> u64" where
  "get_remote_state_num t = num (last (received_states t))"

definition transport_tick :: "'my sync_ops \<Rightarrow> send_lib \<Rightarrow> u64 \<Rightarrow> send_env \<Rightarrow> u64 \<Rightarrow> ('my, 'r) transport
    \<Rightarrow> (('my, 'r) transport \<times> u64 \<times> unit result) option" where
  "transport_tick ops lib now env counter t =
     (case tick ops lib now env counter (connection t) (sender t) of
        None \<Rightarrow> None
      | Some (s, counter', c, r) \<Rightarrow> Some (t\<lparr>sender := s, connection := c\<rparr>, counter', r))"

definition transport_wait_time :: "'my sync_ops \<Rightarrow> u64 \<Rightarrow> ('my, 'r) transport \<Rightarrow> (('my, 'r) transport \<times> int) result" where
  "transport_wait_time ops now t =
     bindE (wait_time ops now (connection t) (sender t)) (\<lambda>(s, n). Inr (t\<lparr>sender := s\<rparr>, n))"

end
