(* ===== verification/Synchronisation.thy ===== *)
theory Synchronisation
  imports Transport
begin

text \<open>
  What the transport achieves for an object that only grows, such as the user's input: a client and a server joined by a
  network that may lose, repeat and reorder instructions.  The invariants speak of the history of the object, the map
  from version numbers to full values; the queues of sender and receiver hold versions without a common prefix.
\<close>

section \<open>History of a growing object\<close>

text \<open>\<open>H\<close> maps the number of a version to its full value.  Versions are prefixes of the current value and grow with
  their number; \<open>back\<close> bounds the numbers in use.\<close>

definition history_ok :: "(u64 \<Rightarrow> 'e list option) \<Rightarrow> 'e list \<Rightarrow> u64 \<Rightarrow> bool" where
  "history_ok H T back \<longleftrightarrow>
     (\<forall>n v. H n = Some v \<longrightarrow> prefix v T \<and> n \<le> back)
     \<and> (\<forall>m n u v. H m = Some u \<longrightarrow> H n = Some v \<longrightarrow> m \<le> n \<longrightarrow> prefix u v)"

text \<open>The queue of sent states: sorted, short, not from the future, and each a version without the common \<open>base\<close>.\<close>

definition queue_ok :: "(u64 \<Rightarrow> 'e list option) \<Rightarrow> 'e list \<Rightarrow> u64 \<Rightarrow> 'e list timestamped_state list \<Rightarrow> bool" where
  "queue_ok H base now xs \<longleftrightarrow>
     xs \<noteq> [] \<and> length xs \<le> 32 \<and> sorted (map num xs) \<and> sorted (map timestamp xs)
     \<and> (\<forall>x \<in> set xs. timestamp x \<le> now \<and> H (num x) = Some (base @ state x))"

text \<open>An instruction leads from one version to another and carries the encoded difference.  The second case is the
  instruction a new fragmenter pretends to have sent.\<close>

definition inst_ok :: "('e list \<Rightarrow> bytes) \<Rightarrow> (u64 \<Rightarrow> 'e list option) \<Rightarrow> instruction \<Rightarrow> bool" where
  "inst_ok enc H inst \<longleftrightarrow>
     (protocol_version inst = MOSH_PROTOCOL_VERSION \<and> throwaway_num inst \<le> old_num inst
       \<and> (\<exists>u d. H (old_num inst) = Some u \<and> H (new_num inst) = Some (u @ d) \<and> inst_diff inst = enc d))
     \<or> inst = last_instruction Fragmenter"

definition sender_ok :: "('e list \<Rightarrow> bytes) \<Rightarrow> ('e list \<Rightarrow> bool) \<Rightarrow> (u64 \<Rightarrow> 'e list option) \<Rightarrow> 'e list \<Rightarrow> u64 \<Rightarrow> nat
    \<Rightarrow> 'e list sender \<Rightarrow> bool" where
  "sender_ok enc ok H T now N s \<longleftrightarrow>
     (\<exists>base. base @ current_state s = T \<and> queue_ok H base now (sent_states s))
     \<and> ok T \<and> history_ok H T (num (last (sent_states s))) \<and> inst_ok enc H (last_instruction (s_fragmenter s))
     \<and> throwaway_num (last_instruction (s_fragmenter s)) \<le> num (hd (sent_states s))
     \<and> (if num (last (sent_states s)) = - 1 then shutdown_in_progress s \<and> H (- 1) = Some T
        else unat (num (last (sent_states s))) \<le> N)"

lemma sender_ok_core: "core s = core s' \<Longrightarrow> sender_ok enc ok H T now N s \<longleftrightarrow> sender_ok enc ok H T now N s'"
  by (drule core_eqD) (simp add: sender_ok_def)

lemma queue_ok_mono: "queue_ok H base now xs \<Longrightarrow> now \<le> now' \<Longrightarrow> queue_ok H base now' xs"
  by (force simp: queue_ok_def)

lemma sender_ok_mono: "sender_ok enc ok H T now N s \<Longrightarrow> now \<le> now' \<Longrightarrow> N \<le> N' \<Longrightarrow> sender_ok enc ok H T now' N' s"
  unfolding sender_ok_def using queue_ok_mono [of H _ now _ now'] by (auto split: if_splits)

lemma queue_ok_nth: "queue_ok H base now xs \<Longrightarrow> i < length xs \<Longrightarrow> H (num (xs ! i)) = Some (base @ state (xs ! i))"
  by (simp add: queue_ok_def)

lemma sorted_hd_le: "sorted (map f xs) \<Longrightarrow> x \<in> set xs \<Longrightarrow> f (hd xs) \<le> (f x :: 'a :: linorder)"
  by (cases xs) auto

lemma sorted_le_last: "sorted (map f xs) \<Longrightarrow> x \<in> set xs \<Longrightarrow> f x \<le> (f (last xs) :: 'a :: linorder)"
  by (induction xs) auto

lemma queue_ok_shift:
  assumes "queue_ok H base now xs" "\<forall>x \<in> set xs. \<exists>y. state x = p @ y"
    "map num ys = map num xs" "map timestamp ys = map timestamp xs" "map state xs = map (\<lambda>y. p @ state y) ys"
  shows "queue_ok H (base @ p) now ys"
proof -
  have len: "length ys = length xs" using map_eq_imp_length_eq [OF assms(3)] .
  have "timestamp y \<le> now \<and> H (num y) = Some ((base @ p) @ state y)" if y: "y \<in> set ys" for y
  proof -
    obtain i where i: "i < length ys" "y = ys ! i" using y by (auto simp: in_set_conv_nth)
    have "num y = num (xs ! i)" "timestamp y = timestamp (xs ! i)" "state (xs ! i) = p @ state y"
      using assms(3-5) i len by (metis nth_map)+
    moreover have "xs ! i \<in> set xs" using i len by simp
    ultimately show ?thesis using assms(1) by (simp add: queue_ok_def)
  qed
  moreover have "ys \<noteq> []" "length ys \<le> 32" using assms(1) len by (auto simp: queue_ok_def)
  ultimately show ?thesis using assms by (simp add: queue_ok_def)
qed

text \<open>A new version at the end of the history.\<close>

lemma history_ok_extend:
  assumes "history_ok H T back" "back \<le> n" "n = back \<Longrightarrow> H n = Some T"
  shows "history_ok (H(n \<mapsto> T)) T n"
proof -
  have below: "m \<le> n" "prefix v T" if "H m = Some v" for m v
    using assms that unfolding history_ok_def by (auto dest: order_trans)
  have n: "H n = None \<or> H n = Some T"
    using assms unfolding history_ok_def by (cases "H n") (force dest: antisym)+
  have up: "u = T" if "H m = Some u" "n \<le> m" for m u
    using below(1) [OF that(1)] that n by (auto dest: antisym)
  show ?thesis using assms(1) below up unfolding history_ok_def by (auto split: if_splits)
qed

lemma history_ok_grow: "history_ok H T back \<Longrightarrow> prefix T T' \<Longrightarrow> history_ok H T' back"
  unfolding history_ok_def by (meson prefix_order.trans)

lemma inst_ok_mono: "inst_ok enc H inst \<Longrightarrow> H \<subseteq>\<^sub>m H' \<Longrightarrow> inst_ok enc H' inst"
  unfolding inst_ok_def by (metis domI map_le_def)

lemma queue_ok_mono_map: "queue_ok H base now xs \<Longrightarrow> H \<subseteq>\<^sub>m H' \<Longrightarrow> queue_ok H' base now xs"
  unfolding queue_ok_def by (metis domI map_le_def)


lemma queue_prefixes:
  assumes "queue_ok H base now xs" "history_ok H (base @ cur) back" "x \<in> set xs"
  shows "prefix (state (hd xs)) (state x)" "prefix (state x) cur"
proof -
  have hd: "hd xs \<in> set xs" using assms(1) by (simp add: queue_ok_def)
  have H: "H (num x) = Some (base @ state x)" "H (num (hd xs)) = Some (base @ state (hd xs))"
    using assms(1,3) hd by (auto simp: queue_ok_def)
  have "num (hd xs) \<le> num x" using assms(1,3) sorted_hd_le by (auto simp: queue_ok_def)
  then have "prefix (base @ state (hd xs)) (base @ state x)" "prefix (base @ state x) (base @ cur)"
    using assms(2) H unfolding history_ok_def by blast+
  then show "prefix (state (hd xs)) (state x)" "prefix (state x) cur" by auto
qed

context append_log
begin

lemma subtract_each_log:
  "\<forall>x \<in> set xs. prefix p (state x) \<Longrightarrow>
     \<exists>ys. subtract_each ops p xs = Inr ys \<and> map state xs = map (\<lambda>y. p @ state y) ys"
proof (induction xs)
  case (Cons x xs)
  then obtain ys where "subtract_each ops p xs = Inr ys" "map state xs = map (\<lambda>y. p @ state y) ys" by auto
  moreover obtain z where "state x = p @ z" using Cons.prems by (auto simp: prefix_def)
  ultimately show ?case by (intro exI [of _ "x\<lparr>state := z\<rparr> # ys"]) (simp add: log_subtract)
qed simp

lemma subtract_front_log:
  assumes "xs \<noteq> []" "\<forall>x \<in> set xs. prefix (state (hd xs)) (state x)"
  shows "\<exists>ys. subtract_front ops xs = Inr ys \<and> map state xs = map (\<lambda>y. state (hd xs) @ state y) ys"
proof -
  obtain x xs' where xs: "xs = x # xs'" using assms(1) by (cases xs) auto
  obtain ys where "subtract_each ops (state x) xs' = Inr ys" "map state xs' = map (\<lambda>y. state x @ state y) ys"
    using subtract_each_log [of xs' "state x"] assms(2) xs by auto
  then show ?thesis
    by (intro exI [of _ "x\<lparr>state := []\<rparr> # ys"]) (simp add: xs subtract_front_def log_subtract_self)
qed

lemma rationalize_log:
  assumes "queue_ok H base now (sent_states s)" "history_ok H (base @ current_state s) back"
  obtains cur states where "rationalize_states ops s = Inr (s\<lparr>current_state := cur, sent_states := states\<rparr>)"
    "current_state s = state (hd (sent_states s)) @ cur" "queue_ok H (base @ state (hd (sent_states s))) now states"
    "map num states = map num (sent_states s)"
proof -
  let ?xs = "sent_states s" and ?p = "state (hd (sent_states s))"
  have ne: "?xs \<noteq> []" using assms(1) by (simp add: queue_ok_def)
  have pre: "\<forall>x \<in> set ?xs. prefix ?p (state x)" using queue_prefixes(1) [OF assms] by blast
  obtain cur where cur: "current_state s = ?p @ cur"
    using queue_prefixes(2) [OF assms hd_in_set [OF ne]] by (auto simp: prefix_def)
  obtain ys where ys: "subtract_front ops ?xs = Inr ys" "map state ?xs = map (\<lambda>y. ?p @ state y) ys"
    using subtract_front_log [OF ne pre] by auto
  have nums: "map num ys = map num ?xs" "map timestamp ys = map timestamp ?xs" using subtract_front_nums [OF ys(1)] by auto
  have "queue_ok H (base @ ?p) now ys"
    using queue_ok_shift [OF assms(1) _ nums ys(2)] pre by (auto simp: prefix_def)
  moreover have "rationalize_states ops s = Inr (s\<lparr>current_state := cur, sent_states := ys\<rparr>)"
    using ne cur ys(1) by (simp add: rationalize_states_def log_subtract)
  ultimately show thesis using that cur nums by blast
qed

text \<open>In a correct state the timers are computed without a failed assertion, and the iterator ends up at an end.\<close>

lemma timers_log:
  assumes "sender_ok enc ok H T now N s"
  obtains s' a where "calculate_timers ops now c s = Inr s'" "sender_ok enc ok H T now N s'"
    "assumed_receiver_state s' = Some a" "a = 0 \<or> a = length (sent_states s') - 1"
    "map num (sent_states s') = map num (sent_states s)"
proof -
  obtain base where base: "base @ current_state s = T" "queue_ok H base now (sent_states s)"
    using assms by (auto simp: sender_ok_def)
  have hist: "history_ok H (base @ current_state s) (num (last (sent_states s)))"
    using assms base by (simp add: sender_ok_def)
  obtain a where a: "update_assumed_receiver_state now c s = Inr (s\<lparr>assumed_receiver_state := Some a\<rparr>)"
      "a = 0 \<or> a = length (sent_states s) - 1"
    using update_assumed_ends [of s now c] base(2) by (auto simp: queue_ok_def)
  let ?s1 = "s\<lparr>assumed_receiver_state := Some a\<rparr>"
  have q: "queue_ok H base now (sent_states ?s1)" "history_ok H (base @ current_state ?s1) (num (last (sent_states s)))"
    using base(2) hist by simp_all
  obtain cur states where r: "rationalize_states ops ?s1 = Inr (?s1\<lparr>current_state := cur, sent_states := states\<rparr>)"
      "current_state ?s1 = state (hd (sent_states ?s1)) @ cur" "queue_ok H (base @ state (hd (sent_states ?s1))) now states"
      "map num states = map num (sent_states ?s1)"
    by (rule rationalize_log [OF q])
  let ?s2 = "?s1\<lparr>current_state := cur, sent_states := states\<rparr>"
  have len: "length states = length (sent_states s)" using map_eq_imp_length_eq [OF r(4)] by simp
  have ne: "states \<noteq> []" "sent_states s \<noteq> []" using r(3) base(2) by (auto simp: queue_ok_def)
  have last: "num (last states) = num (last (sent_states s))"
    using r(4) ne last_map [of states num] last_map [of "sent_states s" num] by simp
  have front: "num (hd states) = num (hd (sent_states s))"
    using r(4) ne hd_map [of states num] hd_map [of "sent_states s" num] by simp
  have "a < length states" using a(2) ne len by auto
  then have as: "assumed ?s2 = Inr (states ! a)" by (simp add: assumed_def)
  obtain ns md where t: "send_timer ops now c (state (states ! a)) ?s2 = (ns, md)" by force
  let ?s' = "?s2\<lparr>next_ack_time := ack_timer now c ?s2, next_send_time := ns, mindelay_clock := md\<rparr>"
  have calc: "calculate_timers ops now c s = Inr ?s'"
    using a(1) r(1) as t by (simp add: calculate_timers_def)
  have "(base @ state (hd (sent_states s))) @ cur = T" using base(1) r(2) by simp
  then have ok': "sender_ok enc ok H T now N ?s'"
    using assms r(3) last front by (auto simp: sender_ok_def)
  show thesis using that [OF calc ok'] a(2) len r(4) by simp
qed

text \<open>The diff to be sent leads from the state under the iterator to the current one.\<close>

lemma prepare_log:
  assumes "sender_ok enc ok H T now N s" "assumed_receiver_state s = Some a" "a = 0 \<or> a = length (sent_states s) - 1"
  obtains a' d where "prepare_diff ops s = Inr (s\<lparr>assumed_receiver_state := Some a'\<rparr>, enc d)"
    "a' = 0 \<or> a' = length (sent_states s) - 1" "current_state s = state (sent_states s ! a') @ d" "ok d"
proof -
  let ?xs = "sent_states s"
  obtain base where base: "base @ current_state s = T" "queue_ok H base now ?xs" using assms by (auto simp: sender_ok_def)
  have hist: "history_ok H (base @ current_state s) (num (last ?xs))" and okT: "ok T"
    using assms base by (simp_all add: sender_ok_def)
  have ne: "?xs \<noteq> []" using base by (simp add: queue_ok_def)
  have suffix: "\<exists>d. current_state s = state (?xs ! i) @ d \<and> ok d" if i: "i < length ?xs" for i
  proof -
    obtain d where "current_state s = state (?xs ! i) @ d"
      using queue_prefixes(2) [OF base(2) hist nth_mem [OF i]] by (auto simp: prefix_def)
    moreover from this have "ok d"
      using okT base(1) log_ok_append [of base "current_state s"] log_ok_append [of "state (?xs ! i)" d] by simp
    ultimately show ?thesis by blast
  qed
  obtain d where d: "current_state s = state (?xs ! a) @ d" "ok d" using suffix [of a] assms(3) ne by auto
  obtain d0 where d0: "current_state s = state (?xs ! 0) @ d0" "ok d0" using suffix [of 0] ne by auto
  have as: "assumed (s\<lparr>assumed_receiver_state := Some i\<rparr>) = Inr (?xs ! i)" if "i < length ?xs" for i
    using that by (simp add: assumed_def)
  have as0: "assumed s = Inr (?xs ! a)" using assms(2,3) ne by (auto simp: assumed_def)
  have verify: "verify_diff ops (enc e) (s\<lparr>assumed_receiver_state := Some i\<rparr>) = Inr ()"
    if "i < length ?xs" "current_state s = state (?xs ! i) @ e" "ok e" for i e
    using that log_init_diff log_apply [of e "state (?xs ! i)"] as [of i] by (auto simp: verify_diff_def result_simps)
  have same: "s\<lparr>assumed_receiver_state := Some a\<rparr> = s" using assms(2) by simp
  consider "attempt_prospective_resend_optimization ops (enc d) s = Inr (s\<lparr>assumed_receiver_state := Some a\<rparr>, enc d)"
    | "attempt_prospective_resend_optimization ops (enc d) s = Inr (s\<lparr>assumed_receiver_state := Some 0\<rparr>, enc d0)"
  proof -
    have "op_diff_from ops (current_state s) (state (hd ?xs)) = Inr (enc d0)"
      using d0 ne log_diff [of "state (?xs ! 0)" d0] by (simp add: hd_conv_nth)
    then have "attempt_prospective_resend_optimization ops (enc d) s = Inr (s, enc d)
        \<or> attempt_prospective_resend_optimization ops (enc d) s = Inr (s\<lparr>assumed_receiver_state := Some 0\<rparr>, enc d0)"
      by (simp add: attempt_prospective_resend_optimization_def)
    then show ?thesis using that same by metis
  qed
  then show thesis
  proof cases
    case 1
    then have "prepare_diff ops s = Inr (s\<lparr>assumed_receiver_state := Some a\<rparr>, enc d)"
      using as0 d log_diff [of "state (?xs ! a)" d] verify [of a d] assms(3) ne by (auto simp: prepare_diff_def)
    then show thesis using that assms(3) d by blast
  next
    case 2
    then have "prepare_diff ops s = Inr (s\<lparr>assumed_receiver_state := Some 0\<rparr>, enc d0)"
      using as0 d d0 log_diff [of "state (?xs ! a)" d] verify [of 0 d0] ne by (auto simp: prepare_diff_def)
    then show thesis using that d0 by blast
  qed
qed

lemma add_log:
  assumes "sender_ok enc ok H T now N s" "N + 2 < 2 ^ 64"
    "n = (if shutdown_in_progress s then - 1 else num (last (sent_states s)) + 1)"
  shows "sender_ok enc ok (H(n \<mapsto> T)) T now (N + 1) (add_sent_state now n (current_state s) s)" "H \<subseteq>\<^sub>m H(n \<mapsto> T)"
    "num (hd (sent_states (add_sent_state now n (current_state s) s))) = num (hd (sent_states s))"
proof -
  let ?xs = "sent_states s" and ?s' = "add_sent_state now n (current_state s) s" and ?H = "H(n \<mapsto> T)"
  let ?b = "num (last (sent_states s))"
  obtain base where base: "base @ current_state s = T" "queue_ok H base now ?xs" using assms by (auto simp: sender_ok_def)
  have hist: "history_ok H T ?b" and top: "if ?b = - 1 then shutdown_in_progress s \<and> H (- 1) = Some T else unat ?b \<le> N"
    using assms by (simp_all add: sender_ok_def)
  have n_top: "?b \<le> n" "n = ?b \<Longrightarrow> H n = Some T" "if n = - 1 then shutdown_in_progress s else unat n \<le> N + 1"
  proof -
    have step: "unat (?b + 1) = unat ?b + 1" if "?b \<noteq> - 1"
      using that by (metis add.commute add_eq_0_iff2 unatSuc Suc_eq_plus1)
    show "?b \<le> n" using assms(3) top step word_order.extremum [of ?b]
      by (cases "shutdown_in_progress s") (auto simp: word_le_nat_alt split: if_splits)
    show "n = ?b \<Longrightarrow> H n = Some T" using assms(3) top by (auto split: if_splits)
    have max: "unat (- 1 :: u64) = 2 ^ 64 - 1" by (simp add: unsigned_minus_1_eq_mask mask_eq_exp_minus_1)
    show "if n = - 1 then shutdown_in_progress s else unat n \<le> N + 1"
    proof (cases "shutdown_in_progress s")
      case False
      then have "?b \<noteq> - 1" "unat ?b \<le> N" "n = ?b + 1" using assms(3) top by (auto split: if_splits)
      moreover from this have "unat n \<le> N + 1" using step by simp
      ultimately show ?thesis using max assms(2) by (metis add_2_eq_Suc' add_diff_cancel_right' linorder_not_less
          less_diff_conv one_add_one add.assoc)
    qed (use assms(3) in simp)
  qed
  have hist': "history_ok ?H T n" using history_ok_extend [OF hist n_top(1,2)] .
  show le: "H \<subseteq>\<^sub>m ?H"
    using hist n_top(1,2) unfolding map_le_def history_ok_def by (auto dest: antisym)
  have ne: "?xs \<noteq> []" "length ?xs \<le> 32" using base(2) by (simp_all add: queue_ok_def)
  obtain mid where mid: "sent_states ?s' = mid @ [\<lparr>timestamp = now, num = n, state = current_state s\<rparr>]"
    "mid \<noteq> []" "hd mid = hd ?xs" "length mid \<le> 31" "set mid \<subseteq> set ?xs" "mid = ?xs \<or> mid = take 17 ?xs @ drop 18 ?xs"
    using add_sent_state_queue [OF ne, of now n "current_state s"] by auto
  show front: "num (hd (sent_states ?s')) = num (hd ?xs)" using mid by simp
  have sorted: "sorted (map num mid)" "sorted (map timestamp mid)"
    using mid(6) base(2) sorted_take_drop [of "map num ?xs" 17] sorted_take_drop [of "map timestamp ?xs" 17]
    by (auto simp: queue_ok_def take_map drop_map)
  have below: "num x \<le> n" if "x \<in> set mid" for x
    using sorted_le_last [of num ?xs x] that mid(5) base(2) n_top(1) by (force simp: queue_ok_def)
  have "queue_ok ?H base now (sent_states ?s')"
  proof -
    have old: "timestamp x \<le> now \<and> ?H (num x) = Some (base @ state x)" if "x \<in> set mid" for x
    proof -
      have "timestamp x \<le> now \<and> H (num x) = Some (base @ state x)" using that mid(5) base(2) by (auto simp: queue_ok_def)
      then show ?thesis using le by (metis domI map_le_def)
    qed
    show ?thesis unfolding queue_ok_def mid(1)
      using sorted below old mid(4) base(1) by (auto simp: sorted_append)
  qed
  moreover have "num (last (sent_states ?s')) = n" using mid(1) by simp
  moreover have "inst_ok enc ?H (last_instruction (s_fragmenter s))"
    using assms(1) inst_ok_mono [OF _ le] by (simp add: sender_ok_def)
  ultimately show "sender_ok enc ok ?H T now (N + 1) ?s'"
    using assms(1) base(1) hist' front n_top(3) by (auto simp: sender_ok_def)
qed

end

text \<open>What one step of the sender promises: a longer history, the same first state, a correct state again.\<close>

definition step_ok :: "('e list \<Rightarrow> bytes) \<Rightarrow> ('e list \<Rightarrow> bool) \<Rightarrow> (u64 \<Rightarrow> 'e list option) \<Rightarrow> 'e list \<Rightarrow> u64 \<Rightarrow> nat 
    \<Rightarrow> 'e list sender \<Rightarrow> 'e list sender \<Rightarrow> bool" where
  "step_ok enc ok H T now N s s' \<longleftrightarrow>
     (\<exists>H'. H \<subseteq>\<^sub>m H' \<and> sender_ok enc ok H' T now (N + 1) s') \<and> num (hd (sent_states s')) = num (hd (sent_states s))
     \<and> s_ack_num s' = s_ack_num s"

lemma step_okI:
  "H \<subseteq>\<^sub>m H' \<Longrightarrow> sender_ok enc ok H' T now (N + 1) s' \<Longrightarrow> num (hd (sent_states s')) = num (hd (sent_states s))
     \<Longrightarrow> s_ack_num s' = s_ack_num s \<Longrightarrow> step_ok enc ok H T now N s s'"
  unfolding step_ok_def by blast

lemma step_ok_idle:
  assumes "sender_ok enc ok H T now N s'" "num (hd (sent_states s')) = num (hd (sent_states s))" "s_ack_num s' = s_ack_num s"
  shows "step_ok enc ok H T now N s s'"
  using assms(2,3) sender_ok_mono [OF assms(1) order_refl, of "N + 1"] by (intro step_okI [OF map_le_refl]) auto

text \<open>What is set up before an instruction is transmitted: the sender \<open>s1\<close> with version \<open>n\<close> of the object at the end of its
  queue, and a reference state from which the diff \<open>d\<close> leads to that version.\<close>

definition transmittable :: "('e list \<Rightarrow> bytes) \<Rightarrow> ('e list \<Rightarrow> bool) \<Rightarrow> (u64 \<Rightarrow> 'e list option) \<Rightarrow> 'e list \<Rightarrow> u64 \<Rightarrow> nat
    \<Rightarrow> 'e list sender \<Rightarrow> 'e list \<Rightarrow> u64 \<Rightarrow> (u64 \<Rightarrow> 'e list option) \<Rightarrow> 'e list sender \<Rightarrow> bool" where
  "transmittable enc ok H T now N s d n H' s1 \<longleftrightarrow>
     H \<subseteq>\<^sub>m H' \<and> sender_ok enc ok H' T now (N + 1) s1 \<and> H' n = Some T
     \<and> (\<exists>x u. assumed s1 = Inr x \<and> H' (num x) = Some u \<and> T = u @ d \<and> num (hd (sent_states s1)) \<le> num x)
     \<and> num (hd (sent_states s1)) = num (hd (sent_states s)) \<and> s_ack_num s1 = s_ack_num s"

text \<open>The number and the sender that \<^verbatim>\<open>send_to_receiver\<close> transmits with.\<close>

definition receiver_num :: "'s sync_ops \<Rightarrow> 's sender \<Rightarrow> u64" where
  "receiver_num ops s = (if shutdown_in_progress s then - 1
     else if op_equal ops (current_state s) (state (last (sent_states s))) then num (last (sent_states s))
     else num (last (sent_states s)) + 1)"

definition receiver_sender :: "'s sync_ops \<Rightarrow> u64 \<Rightarrow> 's sender \<Rightarrow> 's sender" where
  "receiver_sender ops now s = (if receiver_num ops s = num (last (sent_states s))
     then s\<lparr>sent_states := butlast (sent_states s) @ [(last (sent_states s))\<lparr>timestamp := now\<rparr>]\<rparr>
     else add_sent_state now (receiver_num ops s) (current_state s) s)"

lemma send_to_receiver_eq:
  "send_to_receiver ops lib now env d counter c s =
     (case send_in_fragments lib now env d (receiver_num ops s) counter c (receiver_sender ops now s) of
           None \<Rightarrow> None
         | Some (s2, counter', c', Inl e) \<Rightarrow> Some (s2, counter', c', Inl e)
         | Some (s2, counter', c', Inr _) \<Rightarrow>
             Some (s2\<lparr>assumed_receiver_state := Some (length (sent_states s2) - 1),
                      next_ack_time := now + ACK_INTERVAL, next_send_time := - 1\<rparr>, counter', c', Inr ()))"
  unfolding send_to_receiver_def Let_def receiver_num_def [symmetric] receiver_sender_def [symmetric] by simp

context append_log
begin

lemma enc_Nil: "ok x \<Longrightarrow> enc [] = []"
  using log_ok_append [of "[]" x] log_enc_Nil [of "[]"] by simp

lemma transmit_log:
  assumes "sender_ok enc ok H T now N s" "assumed s = Inr x" "num (hd (sent_states s)) \<le> num x"
    "H (num x) = Some u" "T = u @ d" "H n = Some T"
    and send: "send_in_fragments lib now env (enc d) n counter c s = Some (s', counter', c', r)"
  shows "sender_ok enc ok H T now N s'" "sent_states s' = sent_states s" "s_ack_num s' = s_ack_num s"
    "last_instruction (s_fragmenter s') = last_instruction (s_fragmenter s)
      \<or> ack_num (last_instruction (s_fragmenter s')) = s_ack_num s"
proof -
  obtain tries g pend where s': "s' = s\<lparr>shutdown_tries := tries, s_fragmenter := g, pending_data_ack := pend\<rparr>"
    and last: "last_instruction g = last_instruction (s_fragmenter s)
        \<or> (\<exists>ch. last_instruction g = instruction_of (num x) n (s_ack_num s) (num (hd (sent_states s))) (enc d) ch)"
    by (rule send_in_fragments_shape [OF send]) (use assms(2) in auto)
  have "inst_ok enc H (instruction_of (num x) n a (num (hd (sent_states s))) (enc d) ch)" for a ch
    using assms(3-6) by (auto simp: inst_ok_def instruction_of_def)
  then show "sender_ok enc ok H T now N s'"
    using assms(1) s' last by (auto simp: sender_ok_def instruction_of_def)
  show "sent_states s' = sent_states s" "s_ack_num s' = s_ack_num s" using s' by simp_all
  show "last_instruction (s_fragmenter s') = last_instruction (s_fragmenter s)
      \<or> ack_num (last_instruction (s_fragmenter s')) = s_ack_num s"
    using s' last by (auto simp: instruction_of_def)
qed

lemma assumed_version:
  assumes "sender_ok enc ok H T now N s" "a = 0 \<or> a = length (sent_states s) - 1" "current_state s = state (sent_states s ! a) @ d"
  obtains u where "H (num (sent_states s ! a)) = Some u" "T = u @ d" "num (hd (sent_states s)) \<le> num (sent_states s ! a)"
proof -
  obtain base where base: "base @ current_state s = T" "queue_ok H base now (sent_states s)"
    using assms(1) by (auto simp: sender_ok_def)
  then have "a < length (sent_states s)" using assms(2) by (auto simp: queue_ok_def)
  then have mem: "sent_states s ! a \<in> set (sent_states s)" by simp
  show thesis
    using that [of "base @ state (sent_states s ! a)"] base assms(3) mem sorted_hd_le [of num "sent_states s"]
    by (auto simp: queue_ok_def)
qed

lemma transmit_step:
  assumes "transmittable enc ok H T now N s d n H' s1"
    and send: "send_in_fragments lib now env (enc d) n counter c s1 = Some (s2, counter', c', r)" and core: "core s' = core s2"
  shows "step_ok enc ok H T now N s s'"
proof -
  obtain x u where t: "H \<subseteq>\<^sub>m H'" "sender_ok enc ok H' T now (N + 1) s1" "H' n = Some T" "assumed s1 = Inr x"
      "H' (num x) = Some u" "T = u @ d" "num (hd (sent_states s1)) \<le> num x"
      "num (hd (sent_states s1)) = num (hd (sent_states s))" "s_ack_num s1 = s_ack_num s"
    using assms(1) unfolding transmittable_def by blast
  note tr = transmit_log [OF t(2,4,7,5,6,3) send]
  have fields: "sent_states s' = sent_states s2" "s_ack_num s' = s_ack_num s2" using core_eqD [OF core] by auto
  show ?thesis
    by (rule step_okI [OF t(1) sender_ok_core [OF core, THEN iffD2, OF tr(1)]]) (use t(8,9) tr(2,3) fields in simp_all)
qed

lemma add_transmittable:
  assumes "sender_ok enc ok H T now N s" "N + 2 < 2 ^ 64" "assumed_receiver_state s = Some a"
    "a = 0 \<or> a = length (sent_states s) - 1" "current_state s = state (sent_states s ! a) @ d"
    "n = (if shutdown_in_progress s then - 1 else num (last (sent_states s)) + 1)"
  shows "transmittable enc ok H T now N s d n (H(n \<mapsto> T)) (add_sent_state now n (current_state s) s)"
proof -
  note add = add_log [OF assms(1,2,6)]
  have q: "sent_states s \<noteq> []" "length (sent_states s) \<le> 32" using assms(1) by (auto simp: sender_ok_def queue_ok_def)
  obtain u where u: "H (num (sent_states s ! a)) = Some u" "T = u @ d" "num (hd (sent_states s)) \<le> num (sent_states s ! a)"
    by (rule assumed_version [OF assms(1,4,5)])
  have "(H(n \<mapsto> T)) (num (sent_states s ! a)) = Some u" using u(1) add(2) by (metis domI map_le_def)
  then show ?thesis
    unfolding transmittable_def using add u(2,3) add_sent_state_assumed [OF q assms(3,4)] by auto
qed

lemma empty_ack_log:
  assumes "sender_ok enc ok H T now N s" "N + 2 < 2 ^ 64" "assumed_receiver_state s = Some a"
    "a = 0 \<or> a = length (sent_states s) - 1" "current_state s = state (sent_states s ! a)"
    and send: "send_empty_ack lib now env counter c s = Some (s', counter', c', r)"
  shows "step_ok enc ok H T now N s s'"
proof (cases "now < next_ack_time s")
  case True
  then have "s' = s" using send by (simp add: send_empty_ack_def)
  then show ?thesis using assms(1) by (simp add: step_ok_idle)
next
  case False
  define n where "n = (if shutdown_in_progress s then - 1 else num (last (sent_states s)) + 1)"
  have "current_state s = state (sent_states s ! a) @ []" using assms(5) by simp
  note t = add_transmittable [OF assms(1-4) this n_def]
  obtain s2 r2 where s2: "send_in_fragments lib now env [] n counter c (add_sent_state now n (current_state s) s)
      = Some (s2, counter', c', r2)" "core s' = core s2"
    using send False by (auto simp: send_empty_ack_def n_def [symmetric] Let_def split: option.splits sum.splits prod.splits)
  have "enc [] = []" using enc_Nil [of T] assms(1) by (simp add: sender_ok_def)
  then show ?thesis using transmit_step [OF t, of lib env counter c s2 counter' c' r2 s'] s2 by simp
qed

lemma touch_log:
  assumes "sender_ok enc ok H T now N s"
  shows "sender_ok enc ok H T now N
    (s\<lparr>sent_states := butlast (sent_states s) @ [(last (sent_states s))\<lparr>timestamp := now\<rparr>]\<rparr>)"
    "num (hd (butlast (sent_states s) @ [(last (sent_states s))\<lparr>timestamp := now\<rparr>])) = num (hd (sent_states s))"
proof -
  let ?xs = "sent_states s" and ?ys = "butlast (sent_states s) @ [(last (sent_states s))\<lparr>timestamp := now\<rparr>]"
  obtain base where base: "base @ current_state s = T" "queue_ok H base now ?xs" using assms by (auto simp: sender_ok_def)
  have ne: "?xs \<noteq> []" using base(2) by (simp add: queue_ok_def)
  define bl where "bl = butlast ?xs"
  define la where "la = last ?xs"
  have xs: "?xs = bl @ [la]" using ne by (simp add: bl_def la_def)
  have "queue_ok H base now (bl @ [la\<lparr>timestamp := now\<rparr>])"
    using base(2) unfolding xs queue_ok_def by (auto simp: sorted_append)
  then have q: "queue_ok H base now ?ys" by (simp add: bl_def la_def)
  show front: "num (hd ?ys) = num (hd ?xs)"
    using xs by (cases bl) (simp_all add: bl_def [symmetric] la_def [symmetric])
  have "num (last ?ys) = num (last ?xs)" by simp
  then show "sender_ok enc ok H T now N (s\<lparr>sent_states := ?ys\<rparr>)"
    using assms base(1) q front by (auto simp: sender_ok_def)
qed

lemma receiver_transmittable:
  assumes "sender_ok enc ok H T now N s" "N + 2 < 2 ^ 64" "assumed_receiver_state s = Some a"
    "a = 0 \<or> a = length (sent_states s) - 1" "current_state s = state (sent_states s ! a) @ d"
  shows "\<exists>H'. transmittable enc ok H T now N s d (receiver_num ops s) H' (receiver_sender ops now s)"
proof (cases "receiver_num ops s = num (last (sent_states s))")
  case True
  let ?s1 = "receiver_sender ops now s"
  have s1: "?s1 = s\<lparr>sent_states := butlast (sent_states s) @ [(last (sent_states s))\<lparr>timestamp := now\<rparr>]\<rparr>"
    using True by (simp add: receiver_sender_def)
  obtain base where base: "base @ current_state s = T" "queue_ok H base now (sent_states s)"
    using assms by (auto simp: sender_ok_def)
  have q: "sent_states s \<noteq> []" using base(2) by (simp add: queue_ok_def)
  have Hn: "H (receiver_num ops s) = Some T"
  proof (cases "shutdown_in_progress s")
    case False
    then have "state (last (sent_states s)) = current_state s"
      using True log_equal by (auto simp: receiver_num_def split: if_splits)
    then show ?thesis using base q True by (auto simp: queue_ok_def)
  next
    case down: True
    then show ?thesis using True assms(1) by (auto simp: receiver_num_def sender_ok_def)
  qed
  obtain u where u: "H (num (sent_states s ! a)) = Some u" "T = u @ d" "num (hd (sent_states s)) \<le> num (sent_states s ! a)"
    by (rule assumed_version [OF assms(1,4,5)])
  have "\<exists>x. assumed ?s1 = Inr x \<and> num x = num (sent_states s ! a)"
    using q assms(3,4) by (auto simp: s1 assumed_def nth_append nth_butlast last_conv_nth)
  then obtain x where x: "assumed ?s1 = Inr x" "num x = num (sent_states s ! a)" by blast
  have "sender_ok enc ok H T now (N + 1) ?s1"
    using touch_log(1) [OF assms(1)] sender_ok_mono [of enc ok H T now N ?s1 now "N + 1"] by (simp add: s1)
  moreover have "num (hd (sent_states ?s1)) = num (hd (sent_states s))" "s_ack_num ?s1 = s_ack_num s"
    using touch_log(2) [OF assms(1)] by (simp_all add: s1)
  ultimately show ?thesis
    using Hn u x map_le_refl [of H] unfolding transmittable_def by (intro exI [of _ H]) auto
next
  case False
  then have n: "receiver_num ops s = (if shutdown_in_progress s then - 1 else num (last (sent_states s)) + 1)"
    by (auto simp: receiver_num_def split: if_splits)
  show ?thesis using add_transmittable [OF assms n] False by (auto simp: receiver_sender_def)
qed

lemma to_receiver_log:
  assumes "sender_ok enc ok H T now N s" "N + 2 < 2 ^ 64" "assumed_receiver_state s = Some a"
    "a = 0 \<or> a = length (sent_states s) - 1" "current_state s = state (sent_states s ! a) @ d"
    and send: "send_to_receiver ops lib now env (enc d) counter c s = Some (s', counter', c', r)"
  shows "step_ok enc ok H T now N s s'"
proof -
  obtain H' where t: "transmittable enc ok H T now N s d (receiver_num ops s) H' (receiver_sender ops now s)"
    using receiver_transmittable [OF assms(1-5)] by blast
  obtain s2 r2 where s2: "send_in_fragments lib now env (enc d) (receiver_num ops s) counter c (receiver_sender ops now s)
      = Some (s2, counter', c', r2)" "core s' = core s2"
    using send unfolding send_to_receiver_eq by (auto split: option.splits sum.splits prod.splits)
  show ?thesis by (rule transmit_step [OF t s2])
qed

lemma tick_log:
  assumes "sender_ok enc ok H T t0 N s0" "t0 \<le> now" "N + 2 < 2 ^ 64"
    and run: "tick ops lib now env counter c s0 = Some (s', counter', c', r)"
  shows "step_ok enc ok H T now N s0 s'"
proof -
  have ok0: "sender_ok enc ok H T now N s0" using sender_ok_mono [OF assms(1,2) order_refl] .
  obtain s a where s: "calculate_timers ops now c s0 = Inr s" "sender_ok enc ok H T now N s"
      "assumed_receiver_state s = Some a" "a = 0 \<or> a = length (sent_states s) - 1"
      "map num (sent_states s) = map num (sent_states s0)"
    by (rule timers_log [OF ok0])
  have ne: "sent_states s \<noteq> []" "sent_states s0 \<noteq> []" using s(2) ok0 by (auto simp: sender_ok_def queue_ok_def)
  have front: "num (hd (sent_states s)) = num (hd (sent_states s0))"
    using s(5) ne hd_map [of "sent_states s" num] hd_map [of "sent_states s0" num] by simp
  have ack: "s_ack_num s = s_ack_num s0" using timers_frame(2) [OF s(1)] .
  obtain a' d where p: "prepare_diff ops s = Inr (s\<lparr>assumed_receiver_state := Some a'\<rparr>, enc d)"
    "a' = 0 \<or> a' = length (sent_states s) - 1" "current_state s = state (sent_states s ! a') @ d" "ok d"
    by (rule prepare_log [OF s(2-4)])
  let ?s1 = "s\<lparr>assumed_receiver_state := Some a'\<rparr>"
  have ok1: "sender_ok enc ok H T now N ?s1" using s(2) sender_ok_core [of ?s1 s] by simp
  have lift: "step_ok enc ok H T now N s0 s'" if "step_ok enc ok H T now N ?s1 s2" "core s' = core s2" for s2
    using that front ack sender_ok_core [OF that(2)] core_eqD [OF that(2)] by (auto simp: step_ok_def)
  from run show ?thesis
  proof (cases rule: tick_paths)
    case (idle s3)
    then have "core s' = core s" using s(1) by simp
    then show ?thesis
      using s(2) front ack sender_ok_core [of s' s] core_eqD [of s' s] by (intro step_ok_idle) auto
  next
    case (ack s3 s1 s2)
    then have eqs: "s1 = ?s1" "enc d = []" using s(1) p(1) by auto
    have d: "d = []" using eqs(2) p(4) log_enc_Nil by simp
    have "step_ok enc ok H T now N ?s1 s2"
      using ack(4) eqs p(2,3) d assms(3) by (intro empty_ack_log [OF ok1]) auto
    then show ?thesis using lift ack(5) by blast
  next
    case (data s3 s1 d' s2)
    then have eqs: "s1 = ?s1" "d' = enc d" using s(1) p(1) by auto
    have "step_ok enc ok H T now N ?s1 s2"
      using data(4) eqs p(2,3) assms(3) by (intro to_receiver_log [OF ok1]) auto
    then show ?thesis using lift data(5) by blast
  qed (use s(1) p(1) in auto)
qed

end

section \<open>Acknowledgements\<close>

text \<open>\<open>sender_ok\<close> does not depend on the sender's own acknowledgement number.\<close>

lemma sender_ok_cong:
  assumes "current_state s' = current_state s" "sent_states s' = sent_states s" "s_fragmenter s' = s_fragmenter s"
    "shutdown_in_progress s' = shutdown_in_progress s"
  shows "sender_ok enc ok H T now N s' \<longleftrightarrow> sender_ok enc ok H T now N s"
  using assms by (simp add: sender_ok_def)

lemma last_filter: "xs \<noteq> [] \<Longrightarrow> P (last xs) \<Longrightarrow> last (filter P xs) = last xs"
  by (cases xs rule: rev_cases) auto

lemma sorted_filter_ge:
  assumes "sorted (map num xs)" "x \<in> set xs" "num x = (n :: u64)"
  shows "num (hd (filter (\<lambda>x. \<not> num x < n) xs)) = n" "last (filter (\<lambda>x. \<not> num x < n) xs) = last xs"
proof -
  show "num (hd (filter (\<lambda>x. \<not> num x < n) xs)) = n"
    using assms
  proof (induction xs)
    case (Cons a xs)
    show ?case
    proof (cases "num a < n")
      case True
      then show ?thesis using Cons by auto
    next
      case False
      then have "num a = n" using Cons.prems by (auto dest: antisym)
      then show ?thesis using False by simp
    qed
  qed simp
  have "\<not> num (last xs) < n" using sorted_le_last [OF assms(1,2)] assms(3) by (simp add: not_less)
  then show "last (filter (\<lambda>x. \<not> num x < n) xs) = last xs" using assms(2) by (intro last_filter) auto
qed

lemma process_ack_nonempty:
  assumes "sent_states s \<noteq> []"
  obtains s' where "process_acknowledgment_through n s = Inr s'" "sent_states s' \<noteq> []"
    "current_state s' = current_state s" "s_fragmenter s' = s_fragmenter s" "s_ack_num s' = s_ack_num s"
    "shutdown_in_progress s' = shutdown_in_progress s"
    "sent_states s' = (if \<exists>x \<in> set (sent_states s). num x = n then filter (\<lambda>x. \<not> num x < n) (sent_states s) else sent_states s)"
proof (cases "\<exists>x \<in> set (sent_states s). num x = n")
  case True
  then have "filter (\<lambda>x. \<not> num x < n) (sent_states s) \<noteq> []" by (auto simp: filter_empty_conv)
  then show thesis using that True by (simp add: process_acknowledgment_through_def Let_def)
next
  case False
  then show thesis using that [of s] assms by (simp add: process_acknowledgment_through_def Let_def)
qed

lemma process_ack_log:
  assumes "sender_ok enc ok H T now N s"
  obtains s' where "process_acknowledgment_through n s = Inr s'" "sender_ok enc ok H T now N s'"
    "num (hd (sent_states s')) = num (hd (sent_states s))
      \<or> num (hd (sent_states s')) = n \<and> num (hd (sent_states s)) \<le> n"
    "s_ack_num s' = s_ack_num s"
proof -
  let ?xs = "sent_states s"
  obtain base where base: "base @ current_state s = T" "queue_ok H base now ?xs" using assms by (auto simp: sender_ok_def)
  have ne: "?xs \<noteq> []" using base(2) by (simp add: queue_ok_def)
  obtain s' where s': "process_acknowledgment_through n s = Inr s'" "sent_states s' \<noteq> []"
    "current_state s' = current_state s" "s_fragmenter s' = s_fragmenter s" "s_ack_num s' = s_ack_num s"
    "shutdown_in_progress s' = shutdown_in_progress s"
    "sent_states s' = (if \<exists>x \<in> set ?xs. num x = n then filter (\<lambda>x. \<not> num x < n) ?xs else ?xs)"
    by (rule process_ack_nonempty [OF ne])
  show thesis
  proof (cases "\<exists>x \<in> set ?xs. num x = n")
    case True
    then obtain x where x: "x \<in> set ?xs" "num x = n" by blast
    have sorted: "sorted (map num ?xs)" using base(2) by (simp add: queue_ok_def)
    let ?ys = "filter (\<lambda>x. \<not> num x < n) ?xs"
    have ys: "sent_states s' = ?ys" using s'(7) True by simp
    note ends = sorted_filter_ge [OF sorted x]
    have "queue_ok H base now ?ys"
      using base(2) s'(2) ys unfolding queue_ok_def
      by (auto simp: sorted_filter intro: order_trans [OF length_filter_le])
    moreover have front: "num (hd ?xs) \<le> n" using sorted_hd_le [OF sorted x(1)] x(2) by simp
    ultimately have "sender_ok enc ok H T now N s'"
      using assms base(1) s' ys ends by (auto simp: sender_ok_def)
    then show thesis using that [OF s'(1)] ends ys front s'(5) by simp
  next
    case False
    then have "sent_states s' = ?xs" using s'(7) by simp
    then show thesis using that [OF s'(1)] s' assms sender_ok_cong [of s' s] by simp
  qed
qed

section \<open>The receiver\<close>

text \<open>The received states are versions without a common \<open>base\<close>; \<open>out\<close> is what the application has taken so far.\<close>

definition receiver_ok :: "(u64 \<Rightarrow> 'e list option) \<Rightarrow> 'e list \<Rightarrow> ('my, 'e list) transport \<Rightarrow> bool" where
  "receiver_ok H out t \<longleftrightarrow>
     (\<exists>base. base @ last_receiver_state t = out \<and> (\<forall>x \<in> set (received_states t). H (num x) = Some (base @ state x)))
     \<and> received_states t \<noteq> [] \<and> sorted_wrt (<) (map num (received_states t))
     \<and> (\<exists>v. H (num (last (received_states t))) = Some v \<and> prefix out v)
     \<and> s_ack_num (sender t) = num (last (received_states t))"

lemma receiver_ok_cong:
  assumes "received_states t' = received_states t" "last_receiver_state t' = last_receiver_state t"
    "s_ack_num (sender t') = s_ack_num (sender t)"
  shows "receiver_ok H out t' \<longleftrightarrow> receiver_ok H out t"
  using assms by (simp add: receiver_ok_def)

lemma map_le_SomeD: "H \<subseteq>\<^sub>m H' \<Longrightarrow> H n = Some v \<Longrightarrow> H' n = Some v"
  by (metis domI map_le_def)

lemma receiver_ok_mono:
  assumes "receiver_ok H out t" "H \<subseteq>\<^sub>m H'"
  shows "receiver_ok H' out t"
proof -
  obtain base v where "base @ last_receiver_state t = out" "\<forall>x \<in> set (received_states t). H (num x) = Some (base @ state x)"
    "H (num (last (received_states t))) = Some v" "prefix out v"
    using assms(1) unfolding receiver_ok_def by blast
  moreover from this have "\<forall>x \<in> set (received_states t). H' (num x) = Some (base @ state x)"
    "H' (num (last (received_states t))) = Some v"
    using map_le_SomeD [OF assms(2)] by blast+
  ultimately show ?thesis using assms(1) unfolding receiver_ok_def by blast
qed

text \<open>Insertion in sorted place.\<close>

lemma insert_before_Some:
  assumes "insert_before y xs = Some zs" "sorted_wrt (<) (map num xs)" "\<forall>x \<in> set xs. num x \<noteq> num y"
  shows "sorted_wrt (<) (map num zs)" "set zs = insert y (set xs)" "last zs = last xs" "num y < num (last xs)"
proof -
  have "sorted_wrt (<) (map num zs) \<and> set zs = insert y (set xs) \<and> last zs = last xs \<and> num y < num (last xs)
      \<and> (num (hd zs) = num y \<or> hd zs = hd xs) \<and> zs \<noteq> []"
    using assms
  proof (induction xs arbitrary: zs)
    case (Cons x xs)
    show ?case
    proof (cases "num y < num x")
      case True
      then have zs: "zs = y # x # xs" using Cons.prems(1) by simp
      have above: "\<forall>z \<in> set xs. num x < num z" using Cons.prems(2) by simp
      have "num x \<le> num (last (x # xs))" using above last_in_set [of xs] by (auto intro: less_imp_le)
      then show ?thesis using True zs Cons.prems(2) above by (auto intro: less_trans less_le_trans)
    next
      case False
      then obtain zs' where zs: "insert_before y xs = Some zs'" "zs = x # zs'" using Cons.prems(1) by auto
      have IH: "sorted_wrt (<) (map num zs') \<and> set zs' = insert y (set xs) \<and> last zs' = last xs \<and> num y < num (last xs)
          \<and> (num (hd zs') = num y \<or> hd zs' = hd xs) \<and> zs' \<noteq> []"
        using Cons.IH [OF zs(1)] Cons.prems by auto
      have xy: "num x < num y" using False Cons.prems(3) by auto
      have "xs \<noteq> []" using zs(1) by (cases xs) auto
      then show ?thesis using IH zs(2) xy Cons.prems(2) by auto
    qed
  qed simp
  then show "sorted_wrt (<) (map num zs)" "set zs = insert y (set xs)" "last zs = last xs" "num y < num (last xs)" by auto
qed

lemma insert_before_None: "insert_before y xs = None \<longleftrightarrow> (\<forall>x \<in> set xs. num x \<le> num y)"
  by (induction xs) (auto simp: not_less)

lemma sorted_wrt_filter_last:
  assumes "sorted_wrt (<) (map num xs)" "x \<in> set xs" "\<not> num x < (n :: u64)"
  shows "sorted_wrt (<) (map num (filter (\<lambda>x. \<not> num x < n) xs))" "last (filter (\<lambda>x. \<not> num x < n) xs) = last xs"
proof -
  show "sorted_wrt (<) (map num (filter (\<lambda>x. \<not> num x < n) xs))"
    using assms(1) by (induction xs) auto
  have "num x \<le> num (last xs)"
    using assms(1,2) by (intro sorted_le_last strict_sorted_imp_sorted)
  then show "last (filter (\<lambda>x. \<not> num x < n) xs) = last xs" using assms(2,3) by (intro last_filter) auto
qed

text \<open>The paths through the receiver.\<close>

definition after_ack :: "'my sender \<Rightarrow> ('my, 'r) transport \<Rightarrow> ('my, 'r) transport" where
  "after_ack s1 t = t\<lparr>sender := s1, connection := (connection t)\<lparr>last_roundtrip_success := timestamp (hd (sent_states s1))\<rparr>\<rparr>"

lemma after_ack_simps [simp]:
  "sender (after_ack s1 t) = s1" "received_states (after_ack s1 t) = received_states t"
  "last_receiver_state (after_ack s1 t) = last_receiver_state t" "receiver_quench_timer (after_ack s1 t) = receiver_quench_timer t"
  by (simp_all add: after_ack_def)

lemma receive_paths:
  assumes "receive_instruction ops now inst t = (t', r)" "protocol_version inst = MOSH_PROTOCOL_VERSION"
    "process_acknowledgment_through (ack_num inst) (sender t) = Inr s1"
  obtains (known) "new_num inst \<in> num ` set (received_states t)" "t' = after_ack s1 t" "r = Inr ()"
  | (unknown) "new_num inst \<notin> num ` set (received_states t)" "old_num inst \<notin> num ` set (received_states t)"
      "t' = after_ack s1 t" "r = Inr ()"
  | (fatal) ref where "new_num inst \<notin> num ` set (received_states t)" "ref \<in> set (received_states t)" "num ref = old_num inst"
      "filter (\<lambda>x. \<not> num x < throwaway_num inst) (received_states t) = []" "t' = after_ack s1 t" "r = Inl FatalAssert"
  | (full) ref where "new_num inst \<notin> num ` set (received_states t)" "ref \<in> set (received_states t)" "num ref = old_num inst"
      "t' = (after_ack s1 t)\<lparr>received_states := filter (\<lambda>x. \<not> num x < throwaway_num inst) (received_states t)\<rparr>" "r = Inr ()"
      "length (filter (\<lambda>x. \<not> num x < throwaway_num inst) (received_states t)) > 1024" "now < receiver_quench_timer t"
  | (accepted) ref q where "new_num inst \<notin> num ` set (received_states t)" "ref \<in> set (received_states t)" "num ref = old_num inst"
      "filter (\<lambda>x. \<not> num x < throwaway_num inst) (received_states t) \<noteq> []"
      "accept_state ops now inst ref ((after_ack s1 t)\<lparr>received_states := filter (\<lambda>x. \<not> num x < throwaway_num inst) (received_states t),
         receiver_quench_timer := q\<rparr>) = (t', r)"
proof (cases "new_num inst \<in> num ` set (received_states t)")
  case True
  then have "\<exists>i \<in> set (received_states t). new_num inst = num i" by auto
  then show thesis using assms True
    by (intro known) (simp_all add: receive_instruction_def after_ack_def)
next
  case new: False
  then have new': "\<not> (\<exists>i \<in> set (received_states t). new_num inst = num i)" by auto
  let ?ys = "filter (\<lambda>x. \<not> num x < throwaway_num inst) (received_states t)"
  show thesis
  proof (cases "find (\<lambda>i. old_num inst = num i) (received_states t)")
    case None
    then have "old_num inst \<notin> num ` set (received_states t)" by (auto simp: find_None_iff)
    then show thesis using assms new new' None
      by (intro unknown) (simp_all add: receive_instruction_def after_ack_def)
  next
    case (Some ref)
    then have ref: "ref \<in> set (received_states t)" "num ref = old_num inst" by (auto simp: find_Some_iff)
    show thesis
    proof (cases "?ys = []")
      case True
      then show thesis using assms new new' Some ref
        by (intro fatal [of ref]) (simp_all add: receive_instruction_def process_throwaway_until_def after_ack_def)
    next
      case ys: False
      show thesis
      proof (cases "length ?ys > 1024 \<and> now < receiver_quench_timer t")
        case True
        then show thesis using assms new new' Some ref ys
          by (intro full [of ref]) (simp_all add: receive_instruction_def process_throwaway_until_def after_ack_def)
      next
        case False
        have "\<exists>q. accept_state ops now inst ref ((after_ack s1 t)\<lparr>received_states := ?ys, receiver_quench_timer := q\<rparr>) = (t', r)"
        proof (cases "length ?ys > 1024")
          case True
          then show ?thesis using assms new' Some ys False
            by (intro exI [of _ "now + 15000"]) (simp add: receive_instruction_def process_throwaway_until_def after_ack_def)
        next
          case False
          then show ?thesis using assms new' Some ys
            by (intro exI [of _ "receiver_quench_timer t"]) (simp add: receive_instruction_def process_throwaway_until_def after_ack_def)
        qed
        then show thesis using accepted new ref ys by blast
      qed
    qed
  qed
qed

text \<open>What the sender keeps when an instruction is received, besides the acknowledgement it processes.\<close>

definition sender_kept :: "'my sender \<Rightarrow> 'my sender \<Rightarrow> bool" where
  "sender_kept s s' \<longleftrightarrow> current_state s' = current_state s \<and> sent_states s' = sent_states s \<and> s_fragmenter s' = s_fragmenter s
     \<and> shutdown_in_progress s' = shutdown_in_progress s"

lemma sender_kept_refl [simp]: "sender_kept s s"
  by (simp add: sender_kept_def)

lemma accept_sender: "accept_state ops now inst ref t = (t', r) \<Longrightarrow> sender_kept (sender t) (sender t')"
  by (auto simp: accept_state_def sender_kept_def remote_heard_def set_ack_num_def set_data_ack_def Let_def
      split: if_splits sum.splits option.splits)

lemma receive_sender:
  assumes "receive_instruction ops now inst t = (t', r)" "protocol_version inst = MOSH_PROTOCOL_VERSION"
    "process_acknowledgment_through (ack_num inst) (sender t) = Inr s1"
  shows "sender_kept s1 (sender t')"
  using assms
proof (cases rule: receive_paths)
  case (accepted ref q)
  then show ?thesis using accept_sender [OF accepted(5)] by simp
qed auto

lemma receive_version: "protocol_version inst \<noteq> MOSH_PROTOCOL_VERSION \<Longrightarrow> receive_instruction ops now inst t = (t', r) \<Longrightarrow>
    t' = t \<and> r = Inl (NetworkException ''mosh protocol version mismatch'' 0)"
  by (auto simp: receive_instruction_def)


lemma history_prefix: "history_ok H T b \<Longrightarrow> H m = Some u \<Longrightarrow> H n = Some v \<Longrightarrow> m \<le> n \<Longrightarrow> prefix u v"
  unfolding history_ok_def by blast

lemma history_current: "history_ok H T b \<Longrightarrow> H n = Some v \<Longrightarrow> prefix v T"
  unfolding history_ok_def by blast

context append_log
begin

text \<open>A correct instruction is received without a failure, and the receiver stays correct.\<close>

lemma accept_log:
  assumes rec: "receiver_ok H out t" and hist: "history_ok H T b" "ok T"
    and inst: "throwaway_num inst \<le> old_num inst" "H (old_num inst) = Some u" "H (new_num inst) = Some (u @ d)" "inst_diff inst = enc d"
    and ref: "ref \<in> set (received_states t)" "num ref = old_num inst" "new_num inst \<notin> num ` set (received_states t)"
    and acc: "accept_state ops now inst ref t = (t', r)"
  shows "r = Inr ()" "receiver_ok H out t'" "num ` set (received_states t') = insert (new_num inst) (num ` set (received_states t))"
proof -
  let ?xs = "received_states t"
  obtain base v where base: "base @ last_receiver_state t = out" "\<forall>x \<in> set ?xs. H (num x) = Some (base @ state x)"
    "H (num (last ?xs)) = Some v" "prefix out v"
    using rec unfolding receiver_ok_def by blast
  have ne: "?xs \<noteq> []" and sorted: "sorted_wrt (<) (map num ?xs)" and ack: "s_ack_num (sender t) = num (last ?xs)"
    using rec by (auto simp: receiver_ok_def)
  have "prefix (u @ d) T" using history_current [OF hist(1) inst(3)] .
  then obtain w where "T = u @ d @ w" by (auto simp: prefix_def)
  then have okd: "ok d" using hist(2) log_ok_append [of u "d @ w"] log_ok_append [of d w] by simp
  have u: "u = base @ state ref" using base(2) ref(1,2) inst(2) by auto
  let ?new = "\<lparr>timestamp = now, num = new_num inst, state = state ref @ d\<rparr>"
  have st: "(if inst_diff inst \<noteq> [] then op_apply_string ops (state ref) (inst_diff inst) else Inr (state ref)) = Inr (state ref @ d)"
    using inst(4) okd log_apply [OF okd] log_enc_Nil [OF okd] by auto
  have new: "H (num ?new) = Some (base @ state ?new)" using inst(3) u by simp
  have fresh: "\<forall>x \<in> set ?xs. num x \<noteq> num ?new" using ref(3) by (metis image_eqI timestamped_state.select_convs(2))
  have acc': "(t', r) = (case insert_before ?new ?xs of
       Some states \<Rightarrow> (t\<lparr>received_states := states\<rparr>, Inr ())
     | None \<Rightarrow> (let s1 = remote_heard now (set_ack_num (new_num inst) (sender t));
                    s2 = (if inst_diff inst \<noteq> [] then set_data_ack s1 else s1)
                in (t\<lparr>received_states := ?xs @ [?new], sender := s2\<rparr>, Inr ())))"
    unfolding acc [symmetric] accept_state_def st using ref(1) by (auto simp: Let_def)
  show "r = Inr ()" using acc' by (simp add: Let_def split: option.splits)
  have "receiver_ok H out t' \<and> num ` set (received_states t') = insert (new_num inst) (num ` set ?xs)"
  proof (cases "insert_before ?new ?xs")
    case (Some zs)
    then have t': "t' = t\<lparr>received_states := zs\<rparr>"
      using acc' by simp
    note zs = insert_before_Some [OF Some sorted fresh]
    have "zs \<noteq> []" using zs(2) by auto
    moreover have "\<forall>x \<in> set zs. H (num x) = Some (base @ state x)" unfolding zs(2) using base(2) new by blast
    ultimately have "receiver_ok H out t'"
      unfolding receiver_ok_def using t' zs base ack by auto
    then show ?thesis using t' zs(2) by simp
  next
    case None
    then have below: "\<forall>x \<in> set ?xs. num x < num ?new"
      using fresh by (force simp: insert_before_None intro: le_neq_trans)
    have t': "received_states t' = ?xs @ [?new]" "last_receiver_state t' = last_receiver_state t"
        "s_ack_num (sender t') = new_num inst"
      using acc' None
      by (auto simp: Let_def remote_heard_def set_ack_num_def set_data_ack_def split: if_splits)
    have "num (last ?xs) \<le> num ?new" using below ne by (simp add: less_imp_le)
    then have "prefix v (base @ state ?new)" using history_prefix [OF hist(1) base(3) new] by simp
    then have pre: "prefix out (base @ state ?new)" using base(4) by (rule prefix_order.trans [rotated])
    have "\<forall>x \<in> set (received_states t'). H (num x) = Some (base @ state x)" unfolding t'(1) using base(2) new by auto
    moreover have "sorted_wrt (<) (map num (received_states t'))" using t'(1) sorted below by (simp add: sorted_wrt_append)
    moreover have "\<exists>v. H (num (last (received_states t'))) = Some v \<and> prefix out v" using t'(1) new pre by auto
    ultimately have "receiver_ok H out t'"
      unfolding receiver_ok_def using t' base(1) by auto
    then show ?thesis using t'(1) by simp
  qed
  then show "receiver_ok H out t'" "num ` set (received_states t') = insert (new_num inst) (num ` set ?xs)" by auto
qed

lemma throwaway_log:
  assumes "receiver_ok H out t" "ref \<in> set (received_states t)" "\<not> num ref < n"
    "received_states t' = filter (\<lambda>x. \<not> num x < n) (received_states t)" "last_receiver_state t' = last_receiver_state t"
    "s_ack_num (sender t') = s_ack_num (sender t)"
  shows "receiver_ok H out t'"
proof -
  have sorted: "sorted_wrt (<) (map num (received_states t))" using assms(1) by (simp add: receiver_ok_def)
  have ne: "filter (\<lambda>x. \<not> num x < n) (received_states t) \<noteq> []" using assms(2,3) by (auto simp: filter_empty_conv)
  obtain base where base: "base @ last_receiver_state t = out" "\<forall>x \<in> set (received_states t). H (num x) = Some (base @ state x)"
    using assms(1) unfolding receiver_ok_def by blast
  have "\<forall>x \<in> set (received_states t'). H (num x) = Some (base @ state x)" using assms(4) base(2) by simp
  then show ?thesis
    using assms(1,4-6) ne base(1) sorted_wrt_filter_last [OF sorted assms(2,3)] unfolding receiver_ok_def by auto
qed

lemma receive_log:
  assumes rec: "receiver_ok H out t" "history_ok H T b" "ok T" and inst: "inst_ok enc H inst"
    "protocol_version inst = MOSH_PROTOCOL_VERSION"
    and ack: "process_acknowledgment_through (ack_num inst) (sender t) = Inr s1" "s_ack_num s1 = s_ack_num (sender t)"
    and run: "receive_instruction ops now inst t = (t', r)"
  shows "r = Inr ()" "receiver_ok H out t'"
    "\<forall>n \<in> num ` set (received_states t). throwaway_num inst \<le> n \<longrightarrow> n \<in> num ` set (received_states t')"
    "old_num inst \<in> num ` set (received_states t) \<Longrightarrow> new_num inst \<in> num ` set (received_states t')
      \<or> length (received_states t) > 1024 \<and> now < receiver_quench_timer t"
proof -
  have "inst \<noteq> last_instruction Fragmenter" using inst(2) by (auto simp: Fragmenter_def MOSH_PROTOCOL_VERSION_def)
  then obtain u d where i: "throwaway_num inst \<le> old_num inst" "H (old_num inst) = Some u" "H (new_num inst) = Some (u @ d)"
    "inst_diff inst = enc d"
    using inst(1) unfolding inst_ok_def by blast
  have keep: "receiver_ok H out (after_ack s1 t)"
    using rec(1) ack(2) receiver_ok_cong [of "after_ack s1 t" t] by simp
  let ?ys = "filter (\<lambda>x. \<not> num x < throwaway_num inst) (received_states t)"
  have "r = Inr () \<and> receiver_ok H out t'
    \<and> (\<forall>n \<in> num ` set (received_states t). throwaway_num inst \<le> n \<longrightarrow> n \<in> num ` set (received_states t'))
    \<and> (old_num inst \<in> num ` set (received_states t) \<longrightarrow> new_num inst \<in> num ` set (received_states t')
      \<or> length (received_states t) > 1024 \<and> now < receiver_quench_timer t)"
    using run inst(2) ack(1)
  proof (cases rule: receive_paths)
    case (fatal ref)
    then have "\<not> \<not> num ref < throwaway_num inst" unfolding filter_empty_conv by blast
    then show ?thesis using fatal(3) i(1) by simp
  next
    case (full ref)
    have "receiver_ok H out t'"
      by (rule throwaway_log [OF rec(1) full(2), of "throwaway_num inst"]) (use full i(1) ack(2) in auto)
    moreover have "length (received_states t) > 1024"
      using full(6) length_filter_le [of "\<lambda>x. \<not> num x < throwaway_num inst" "received_states t"] by linarith
    ultimately show ?thesis using full by auto
  next
    case (accepted ref q)
    let ?t2 = "(after_ack s1 t)\<lparr>received_states := ?ys, receiver_quench_timer := q\<rparr>"
    have t2: "receiver_ok H out ?t2"
      by (rule throwaway_log [OF rec(1) accepted(2), of "throwaway_num inst"]) (use accepted i(1) ack(2) in auto)
    have ref: "ref \<in> set (received_states ?t2)" "new_num inst \<notin> num ` set (received_states ?t2)"
      using accepted i(1) by auto
    note acc = accept_log [OF t2 rec(2,3) i ref(1) accepted(3) ref(2) accepted(5)]
    show ?thesis using acc by auto
  qed (use keep in auto)
  then show "r = Inr ()" "receiver_ok H out t'"
    "\<forall>n \<in> num ` set (received_states t). throwaway_num inst \<le> n \<longrightarrow> n \<in> num ` set (received_states t')"
    "old_num inst \<in> num ` set (received_states t) \<Longrightarrow> new_num inst \<in> num ` set (received_states t')
      \<or> length (received_states t) > 1024 \<and> now < receiver_quench_timer t"
    by auto
qed

end

lemma sorted_wrt_hd_le: "sorted_wrt (<) (map num xs) \<Longrightarrow> x \<in> set xs \<Longrightarrow> num (hd xs) \<le> num x"
  by (intro sorted_hd_le strict_sorted_imp_sorted)

lemma receiver_okI:
  "base @ last_receiver_state t = out \<Longrightarrow> \<forall>x \<in> set (received_states t). H (num x) = Some (base @ state x) \<Longrightarrow>
   received_states t \<noteq> [] \<Longrightarrow> sorted_wrt (<) (map num (received_states t)) \<Longrightarrow>
   H (num (last (received_states t))) = Some v \<Longrightarrow> prefix out v \<Longrightarrow>
   s_ack_num (sender t) = num (last (received_states t)) \<Longrightarrow> receiver_ok H out t"
  unfolding receiver_ok_def by blast

context append_log
begin

lemma remote_diff_log:
  assumes "receiver_ok H out t" "history_ok H T b" "ok T"
  obtains t' d where "get_remote_diff ops t = Inr (t', enc d)" "receiver_ok H (out @ d) t'" "ok d"
    "H (num (last (received_states t))) = Some (out @ d)" "map num (received_states t') = map num (received_states t)"
    "sender t' = sender t"
proof -
  let ?xs = "received_states t" and ?p = "state (hd (received_states t))"
  obtain base v where base: "base @ last_receiver_state t = out" "\<forall>x \<in> set ?xs. H (num x) = Some (base @ state x)"
    "H (num (last ?xs)) = Some v" "prefix out v"
    using assms(1) unfolding receiver_ok_def by blast
  have ne: "?xs \<noteq> []" and sorted: "sorted_wrt (<) (map num ?xs)" and ack: "s_ack_num (sender t) = num (last ?xs)"
    using assms(1) by (auto simp: receiver_ok_def)
  have v: "v = base @ state (last ?xs)" using base(2,3) ne by simp
  obtain d where d: "state (last ?xs) = last_receiver_state t @ d" "v = out @ d"
    using base(1,4) v by (auto simp: prefix_def)
  obtain w where "T = out @ d @ w" using history_current [OF assms(2) base(3)] d(2) by (auto simp: prefix_def)
  then have okd: "ok d" using assms(3) log_ok_append [of out "d @ w"] log_ok_append [of d w] by simp
  have "prefix ?p (state x)" if "x \<in> set ?xs" for x
  proof -
    have "H (num (hd ?xs)) = Some (base @ ?p)" "H (num x) = Some (base @ state x)" using base(2) ne that by auto
    then have "prefix (base @ ?p) (base @ state x)"
      using history_prefix [OF assms(2)] sorted_wrt_hd_le [OF sorted that] by blast
    then show ?thesis by simp
  qed
  then obtain ys where ys: "subtract_front ops ?xs = Inr ys" "map state ?xs = map (\<lambda>y. ?p @ state y) ys"
    using subtract_front_log [OF ne] by blast
  have nums: "map num ys = map num ?xs" using subtract_front_nums [OF ys(1)] by simp
  have len: "length ys = length ?xs" using map_eq_imp_length_eq [OF nums] .
  have nth: "num (ys ! i) = num (?xs ! i)" "state (?xs ! i) = ?p @ state (ys ! i)" if "i < length ?xs" for i
    using nums ys(2) that len by (metis nth_map)+
  have all: "\<forall>y \<in> set ys. H (num y) = Some ((base @ ?p) @ state y)"
  proof
    fix y assume "y \<in> set ys"
    then obtain i where i: "i < length ys" "y = ys ! i" by (metis in_set_conv_nth)
    then show "H (num y) = Some ((base @ ?p) @ state y)" using nth [of i] base(2) len by simp
  qed
  have ys_ne: "ys \<noteq> []" using len ne by auto
  have last: "num (last ys) = num (last ?xs)" "state (last ?xs) = ?p @ state (last ys)"
    using nth [of "length ?xs - 1"] ne ys_ne len by (simp_all add: last_conv_nth)
  let ?t' = "t\<lparr>received_states := ys, last_receiver_state := state (last ys)\<rparr>"
  have get: "get_remote_diff ops t = Inr (?t', enc d)"
    using ne ys(1) d(1) log_diff [of "last_receiver_state t" d] by (simp add: get_remote_diff_def)
  have "(base @ ?p) @ state (last ys) = out @ d" using last(2) v d(2) by simp
  then have "receiver_ok H (out @ d) ?t'"
    using all ys_ne nums sorted last(1) base(3) d(2) ack by (intro receiver_okI [of "base @ ?p" _ _ H v]) simp_all
  then show thesis using that [OF get] okd base(3) d(2) nums by simp
qed

end

section \<open>Client and server\<close>

text \<open>Both ends, the instructions each has handed to its fragmenter, what was typed and what the server has taken.
  The clocks are those of the two machines.\<close>

record ('e, 'r) sync_system =
  client :: "('e list, 'r) transport"
  server_end :: "('r, 'e list) transport"
  client_counter :: u64
  server_counter :: u64
  up :: "instruction set"
  down :: "instruction set"
  typed :: "'e list"
  delivered :: "'e list"
  client_clock :: u64

definition aborts :: "failure \<Rightarrow> bool" where
  "aborts e \<longleftrightarrow> (case e of CryptoException _ _ \<Rightarrow> False | NetworkException _ _ \<Rightarrow> False | _ \<Rightarrow> True)"

definition survives :: "'a result \<Rightarrow> bool" where
  "survives r \<longleftrightarrow> (case r of Inl e \<Rightarrow> \<not> aborts e | Inr _ \<Rightarrow> True)"

definition system_start :: "u64 \<Rightarrow> u64 \<Rightarrow> Connection.connection \<Rightarrow> Connection.connection \<Rightarrow> 'r \<Rightarrow> ('e, 'r) sync_system" where
  "system_start now now' c c' initial =
     \<lparr>client = Transport now c [] initial, server_end = Transport now' c' initial [], client_counter = 0, server_counter = 0,
      up = {last_instruction Fragmenter}, down = {last_instruction Fragmenter}, typed = [], delivered = [], client_clock = now\<rparr>"

text \<open>One step of either end.  An exception leaves the state as the operation returned it and the program goes on; an
  abort ends it.  The network delivers any instruction that was ever sent, in any order and any number of times, or not at
  all.  Everything else that happens to a connection (roaming, estimates, new sockets) is an arbitrary change of it.\<close>

inductive sync_step :: "'e list sync_ops \<Rightarrow> 'r sync_ops \<Rightarrow> send_lib \<Rightarrow> send_lib \<Rightarrow> ('e \<Rightarrow> bool)
    \<Rightarrow> ('e, 'r) sync_system \<Rightarrow> ('e, 'r) sync_system \<Rightarrow> bool" for ops rops lib rlib good where
  client_types: "good e \<Longrightarrow> change_current_state (\<lambda>st. st @ [e]) (sender (client S)) = Inr s \<Longrightarrow>
    sync_step ops rops lib rlib good S (S\<lparr>client := (client S)\<lparr>sender := s\<rparr>, typed := typed S @ [e]\<rparr>)"
| client_shutdown:
    "sync_step ops rops lib rlib good S (S\<lparr>client := (client S)\<lparr>sender := start_shutdown now (sender (client S))\<rparr>\<rparr>)"
| client_ticks: "client_clock S \<le> now \<Longrightarrow>
    transport_tick ops lib now env (client_counter S) (client S) = Some (t, k, r) \<Longrightarrow> survives r \<Longrightarrow>
    sync_step ops rops lib rlib good S (S\<lparr>client := t, client_counter := k, client_clock := now,
      up := insert (last_instruction (s_fragmenter (sender t))) (up S)\<rparr>)"
| client_waits: "client_clock S \<le> now \<Longrightarrow> transport_wait_time ops now (client S) = Inr (t, n) \<Longrightarrow>
    sync_step ops rops lib rlib good S (S\<lparr>client := t, client_clock := now\<rparr>)"
| client_receives: "inst \<in> down S \<Longrightarrow> receive_instruction rops now inst (client S) = (t, r) \<Longrightarrow> survives r \<Longrightarrow>
    sync_step ops rops lib rlib good S (S\<lparr>client := t\<rparr>)"
| client_connection: "sync_step ops rops lib rlib good S (S\<lparr>client := (client S)\<lparr>connection := c\<rparr>\<rparr>)"
| server_changes: "change_current_state f (sender (server_end S)) = Inr s \<Longrightarrow>
    sync_step ops rops lib rlib good S (S\<lparr>server_end := (server_end S)\<lparr>sender := s\<rparr>\<rparr>)"
| server_shutdown:
    "sync_step ops rops lib rlib good S (S\<lparr>server_end := (server_end S)\<lparr>sender := start_shutdown now (sender (server_end S))\<rparr>\<rparr>)"
| server_ticks: "transport_tick rops rlib now env (server_counter S) (server_end S) = Some (t, k, r) \<Longrightarrow> survives r \<Longrightarrow>
    sync_step ops rops lib rlib good S (S\<lparr>server_end := t, server_counter := k,
      down := insert (last_instruction (s_fragmenter (sender t))) (down S)\<rparr>)"
| server_waits: "transport_wait_time rops now (server_end S) = Inr (t, n) \<Longrightarrow>
    sync_step ops rops lib rlib good S (S\<lparr>server_end := t\<rparr>)"
| server_receives: "inst \<in> up S \<Longrightarrow> receive_instruction ops now inst (server_end S) = (t, r) \<Longrightarrow> survives r \<Longrightarrow>
    sync_step ops rops lib rlib good S (S\<lparr>server_end := t\<rparr>)"
| server_connection: "sync_step ops rops lib rlib good S (S\<lparr>server_end := (server_end S)\<lparr>connection := c\<rparr>\<rparr>)"
| server_takes: "get_remote_diff ops (server_end S) = Inr (t, d) \<Longrightarrow> op_apply_string ops [] d = Inr es \<Longrightarrow>
    sync_step ops rops lib rlib good S (S\<lparr>server_end := t, delivered := delivered S @ es\<rparr>)"

text \<open>States after \<open>n\<close> steps.\<close>

inductive sync_reach :: "'e list sync_ops \<Rightarrow> 'r sync_ops \<Rightarrow> send_lib \<Rightarrow> send_lib \<Rightarrow> ('e \<Rightarrow> bool)
    \<Rightarrow> ('e, 'r) sync_system \<Rightarrow> nat \<Rightarrow> ('e, 'r) sync_system \<Rightarrow> bool" for ops rops lib rlib good S0 where
  reach_start: "sync_reach ops rops lib rlib good S0 0 S0"
| reach_step: "sync_reach ops rops lib rlib good S0 n S \<Longrightarrow> sync_step ops rops lib rlib good S S' \<Longrightarrow>
    sync_reach ops rops lib rlib good S0 (Suc n) S'"

section \<open>The invariant of the system\<close>

text \<open>For any state type: sending keeps the acknowledgement number, which is the one its instructions carry.\<close>

lemma transmit_frame:
  assumes "send_in_fragments lib now env d n counter c s = Some (s', counter', c', r)"
  shows "sent_states s' = sent_states s" "s_ack_num s' = s_ack_num s"
    "last_instruction (s_fragmenter s') = last_instruction (s_fragmenter s)
      \<or> ack_num (last_instruction (s_fragmenter s')) = s_ack_num s"
  by (rule send_in_fragments_shape [OF assms]; auto simp: instruction_of_def)+

definition ack_frame :: "'s sender \<Rightarrow> 's sender \<Rightarrow> bool" where
  "ack_frame s s' \<longleftrightarrow> sent_states s' \<noteq> [] \<and> s_ack_num s' = s_ack_num s
     \<and> (last_instruction (s_fragmenter s') = last_instruction (s_fragmenter s)
        \<or> ack_num (last_instruction (s_fragmenter s')) = s_ack_num s)"

lemma add_sent_state_not_Nil [simp]: "sent_states (add_sent_state t n st s) \<noteq> []"
  by (auto simp: add_sent_state_def Let_def)

lemma empty_ack_frame:
  assumes "send_empty_ack lib now env counter c s = Some (s', counter', c', r)" "sent_states s \<noteq> []"
  shows "ack_frame s s'"
proof (cases "now < next_ack_time s")
  case True
  then show ?thesis using assms by (simp add: send_empty_ack_def ack_frame_def)
next
  case False
  define n where "n = (if shutdown_in_progress s then - 1 else num (last (sent_states s)) + 1)"
  obtain s2 r2 where s2: "send_in_fragments lib now env [] n counter c (add_sent_state now n (current_state s) s)
      = Some (s2, counter', c', r2)" "core s' = core s2"
    using assms(1) False by (auto simp: send_empty_ack_def n_def [symmetric] Let_def split: option.splits sum.splits prod.splits)
  show ?thesis using transmit_frame [OF s2(1)] core_eqD [OF s2(2)] by (simp add: ack_frame_def)
qed

lemma to_receiver_frame:
  assumes "send_to_receiver ops lib now env d counter c s = Some (s', counter', c', r)"
  shows "ack_frame s s'"
proof -
  let ?s1 = "receiver_sender ops now s"
  obtain s2 r2 where s2: "send_in_fragments lib now env d (receiver_num ops s) counter c ?s1 = Some (s2, counter', c', r2)"
      "core s' = core s2"
    using assms unfolding send_to_receiver_eq by (auto split: option.splits sum.splits prod.splits)
  have "sent_states ?s1 \<noteq> []" "s_ack_num ?s1 = s_ack_num s" "s_fragmenter ?s1 = s_fragmenter s"
    by (auto simp: receiver_sender_def)
  then show ?thesis using transmit_frame [OF s2(1)] core_eqD [OF s2(2)] by (simp add: ack_frame_def)
qed

lemma tick_frame:
  assumes "tick ops lib now env counter c s0 = Some (s', counter', c', r)" "sent_states s0 \<noteq> []"
  shows "ack_frame s0 s'"
proof -
  have timers: "sent_states s \<noteq> [] \<and> s_ack_num s = s_ack_num s0 \<and> s_fragmenter s = s_fragmenter s0"
    if "calculate_timers ops now c s0 = Inr s" for s
    using timers_frame [OF that] assms(2) by auto
  from assms(1) show ?thesis
  proof (cases rule: tick_paths)
    case (idle s)
    then show ?thesis using timers [of s] core_eqD [of s' s] by (simp add: ack_frame_def)
  next
    case (ack s s1 s2)
    have c1: "core s1 = core s" by (rule prepare_diff_shape [OF ack(2)]) simp
    then have "ack_frame s1 s2" using empty_ack_frame [OF ack(4)] timers [OF ack(1)] core_eqD [OF c1] by simp
    then show ?thesis using timers [OF ack(1)] core_eqD [OF c1] core_eqD [OF ack(5)] by (simp add: ack_frame_def)
  next
    case (data s s1 d s2)
    have c1: "core s1 = core s" by (rule prepare_diff_shape [OF data(2)]) simp
    have "ack_frame s1 s2" using to_receiver_frame [OF data(4)] .
    then show ?thesis using timers [OF data(1)] core_eqD [OF c1] core_eqD [OF data(5)] by (simp add: ack_frame_def)
  qed (use assms(2) timers in \<open>auto simp: ack_frame_def\<close>)
qed

lemma wait_time_timers: "wait_time ops now c s = Inr (s', n) \<Longrightarrow> calculate_timers ops now c s = Inr s'"
  by (auto simp: wait_time_def result_simps Let_def split: if_splits)

definition front_num :: "('e, 'r) sync_system \<Rightarrow> u64" where
  "front_num S = num (hd (sent_states (sender (client S))))"

definition received_nums :: "('e, 'r) sync_system \<Rightarrow> u64 set" where
  "received_nums S = num ` set (received_states (server_end S))"

definition sync_ok :: "('e list \<Rightarrow> bytes) \<Rightarrow> ('e list \<Rightarrow> bool) \<Rightarrow> (u64 \<Rightarrow> 'e list option) \<Rightarrow> nat \<Rightarrow> ('e, 'r) sync_system \<Rightarrow> bool" where
  "sync_ok enc ok H N S \<longleftrightarrow>
     sender_ok enc ok H (typed S) (client_clock S) N (sender (client S))
     \<and> receiver_ok H (delivered S) (server_end S)
     \<and> (\<forall>i \<in> up S. inst_ok enc H i \<and> throwaway_num i \<le> front_num S)
     \<and> front_num S \<in> received_nums S
     \<and> (\<forall>i \<in> down S. front_num S \<le> ack_num i \<longrightarrow> ack_num i \<in> received_nums S)
     \<and> last_instruction (s_fragmenter (sender (server_end S))) \<in> down S
     \<and> sent_states (sender (server_end S)) \<noteq> []"

lemma sync_okD:
  assumes "sync_ok enc ok H N S"
  shows "sender_ok enc ok H (typed S) (client_clock S) N (sender (client S))" "receiver_ok H (delivered S) (server_end S)"
    "i \<in> up S \<Longrightarrow> inst_ok enc H i \<and> throwaway_num i \<le> front_num S" "front_num S \<in> received_nums S"
    "i \<in> down S \<Longrightarrow> front_num S \<le> ack_num i \<Longrightarrow> ack_num i \<in> received_nums S"
    "last_instruction (s_fragmenter (sender (server_end S))) \<in> down S" "sent_states (sender (server_end S)) \<noteq> []"
    "history_ok H (typed S) (num (last (sent_states (sender (client S)))))" "ok (typed S)"
  using assms by (auto simp: sync_ok_def sender_ok_def)

text \<open>A step of the client alone: the server's part stays, the history may grow, the first state may advance to a version
  the server has.\<close>

lemma sync_ok_client:
  assumes "sync_ok enc ok H N S" "H \<subseteq>\<^sub>m H'"
    "sender_ok enc ok H' (typed S') (client_clock S') N' (sender (client S'))"
    "server_end S' = server_end S" "delivered S' = delivered S" "down S' = down S"
    "up S' \<subseteq> insert (last_instruction (s_fragmenter (sender (client S')))) (up S)"
    "front_num S' \<in> received_nums S" "front_num S \<le> front_num S'"
  shows "sync_ok enc ok H' N' S'"
proof -
  note D = sync_okD [OF assms(1)]
  have nums: "received_nums S' = received_nums S" using assms(4) by (simp add: received_nums_def)
  have "inst_ok enc H' i \<and> throwaway_num i \<le> front_num S'" if mem: "i \<in> up S'" for i
  proof -
    consider "i \<in> up S" | "i = last_instruction (s_fragmenter (sender (client S')))" using mem assms(7) by blast
    then show ?thesis
    proof cases
      case 1
      then show ?thesis using D(3) [OF 1] inst_ok_mono [OF _ assms(2)] assms(9) by (auto intro: order_trans)
    next
      case 2
      then show ?thesis using assms(3) by (simp add: sender_ok_def front_num_def)
    qed
  qed
  moreover have "receiver_ok H' (delivered S') (server_end S')" using receiver_ok_mono [OF D(2) assms(2)] assms(4,5) by simp
  moreover have "ack_num i \<in> received_nums S'" if "i \<in> down S'" "front_num S' \<le> ack_num i" for i
    using D(5) [of i] that assms(6,9) nums order_trans [of "front_num S" "front_num S'" "ack_num i"] by simp
  ultimately show ?thesis using assms(3,4,6,8) D(6,7) nums unfolding sync_ok_def by simp
qed

text \<open>A step of the server alone.\<close>

lemma sync_ok_server:
  assumes "sync_ok enc ok H N S" "receiver_ok H (delivered S') (server_end S')"
    "client S' = client S" "typed S' = typed S" "client_clock S' = client_clock S" "up S' = up S"
    "\<And>n. n \<in> received_nums S \<Longrightarrow> front_num S \<le> n \<Longrightarrow> n \<in> received_nums S'"
    "sent_states (sender (server_end S')) \<noteq> []"
    "down S' = insert (last_instruction (s_fragmenter (sender (server_end S')))) (down S)"
    "last_instruction (s_fragmenter (sender (server_end S'))) = last_instruction (s_fragmenter (sender (server_end S)))
      \<or> ack_num (last_instruction (s_fragmenter (sender (server_end S')))) \<in> received_nums S'"
  shows "sync_ok enc ok H N S'"
proof -
  note D = sync_okD [OF assms(1)]
  have front: "front_num S' = front_num S" using assms(3) by (simp add: front_num_def)
  have "ack_num i \<in> received_nums S'" if "i \<in> down S'" "front_num S' \<le> ack_num i" for i
  proof (cases "i \<in> down S")
    case True
    then show ?thesis using D(5) [OF True] that(2) front assms(7) by simp
  next
    case False
    then have "i = last_instruction (s_fragmenter (sender (server_end S')))" using that(1) assms(9) by simp
    then show ?thesis using assms(10) D(6) False by auto
  qed
  then show ?thesis
    using D assms(2-9) front unfolding sync_ok_def by auto
qed


lemma change_current_state_Inr:
  "change_current_state f s = Inr s' \<longleftrightarrow> \<not> shutdown_in_progress s \<and> s' = s\<lparr>current_state := f (current_state s)\<rparr>"
  by (auto simp: change_current_state_def result_simps)

lemma start_shutdown_fields [simp]:
  "current_state (start_shutdown now s) = current_state s" "sent_states (start_shutdown now s) = sent_states s"
  "s_fragmenter (start_shutdown now s) = s_fragmenter s" "s_ack_num (start_shutdown now s) = s_ack_num s"
  "shutdown_in_progress (start_shutdown now s)"
  by (auto simp: start_shutdown_def)

lemma receiver_last_num: "receiver_ok H out t \<Longrightarrow> s_ack_num (sender t) \<in> num ` set (received_states t)"
  by (auto simp: receiver_ok_def)

lemma received_nums_cong: "map num (received_states t') = map num (received_states t) \<Longrightarrow>
    num ` set (received_states t') = num ` set (received_states t)"
  by (metis image_set)

context append_log
begin

lemma sync_ok_later: "sync_ok enc ok H N S \<Longrightarrow> sync_ok enc ok H (N + 1) S"
  using sender_ok_mono [of enc ok H "typed S" "client_clock S" N "sender (client S)" "client_clock S" "N + 1"]
  by (simp add: sync_ok_def)

lemma typing_ok:
  assumes "sync_ok enc ok H N S" "change_current_state (\<lambda>st. st @ [e]) (sender (client S)) = Inr s" "ok (typed S @ [e])"
  shows "sync_ok enc ok H N (S\<lparr>client := (client S)\<lparr>sender := s\<rparr>, typed := typed S @ [e]\<rparr>)"
proof -
  note D = sync_okD [OF assms(1)]
  have s: "\<not> shutdown_in_progress (sender (client S))"
      "s = (sender (client S))\<lparr>current_state := current_state (sender (client S)) @ [e]\<rparr>"
    using assms(2) by (simp_all add: change_current_state_Inr)
  have "sender_ok enc ok H (typed S @ [e]) (client_clock S) N s"
    using D(1) s assms(3) history_ok_grow [OF D(8), of "typed S @ [e]"] unfolding sender_ok_def by (auto split: if_splits)
  then show ?thesis by (intro sync_ok_client [OF assms(1) map_le_refl]) (use s(2) D(4) in \<open>auto simp: front_num_def\<close>)
qed

lemma shutdown_ok:
  assumes "sync_ok enc ok H N S"
  shows "sync_ok enc ok H N (S\<lparr>client := (client S)\<lparr>sender := start_shutdown now (sender (client S))\<rparr>\<rparr>)"
proof -
  note D = sync_okD [OF assms]
  have "sender_ok enc ok H (typed S) (client_clock S) N (start_shutdown now (sender (client S)))"
    using D(1) unfolding sender_ok_def by (auto split: if_splits)
  then show ?thesis by (intro sync_ok_client [OF assms map_le_refl]) (use D(4) in \<open>auto simp: front_num_def\<close>)
qed

lemma client_tick_ok:
  assumes "sync_ok enc ok H N S" "N + 2 < 2 ^ 64" "client_clock S \<le> now"
    "transport_tick ops lib now env (client_counter S) (client S) = Some (t, k, r)"
  shows "\<exists>H'. sync_ok enc ok H' (N + 1) (S\<lparr>client := t, client_counter := k, client_clock := now,
      up := insert (last_instruction (s_fragmenter (sender t))) (up S)\<rparr>)"
proof -
  note D = sync_okD [OF assms(1)]
  obtain s c where run: "tick ops lib now env (client_counter S) (connection (client S)) (sender (client S)) = Some (s, k, c, r)"
      "t = (client S)\<lparr>sender := s, connection := c\<rparr>"
    using assms(4) by (auto simp: transport_tick_def split: option.splits prod.splits)
  obtain H' where H': "H \<subseteq>\<^sub>m H'" "sender_ok enc ok H' (typed S) now (N + 1) s"
      "num (hd (sent_states s)) = num (hd (sent_states (sender (client S))))"
    using tick_log [OF D(1) assms(3,2) run(1)] unfolding step_ok_def by blast
  show ?thesis
    by (intro exI [of _ H'] sync_ok_client [OF assms(1) H'(1)]) (use run(2) H' D(4) in \<open>auto simp: front_num_def\<close>)
qed

lemma client_wait_ok:
  assumes "sync_ok enc ok H N S" "client_clock S \<le> now" "transport_wait_time ops now (client S) = Inr (t, n)"
  shows "sync_ok enc ok H N (S\<lparr>client := t, client_clock := now\<rparr>)"
proof -
  note D = sync_okD [OF assms(1)]
  obtain s where s: "wait_time ops now (connection (client S)) (sender (client S)) = Inr (s, n)" "t = (client S)\<lparr>sender := s\<rparr>"
    using assms(3) by (auto simp: transport_wait_time_def result_simps)
  have ok0: "sender_ok enc ok H (typed S) now N (sender (client S))" using sender_ok_mono [OF D(1) assms(2) order_refl] .
  obtain s' a where s': "calculate_timers ops now (connection (client S)) (sender (client S)) = Inr s'"
      "sender_ok enc ok H (typed S) now N s'" "assumed_receiver_state s' = Some a"
      "a = 0 \<or> a = length (sent_states s') - 1" "map num (sent_states s') = map num (sent_states (sender (client S)))"
    by (rule timers_log [OF ok0])
  have eq: "s' = s" using s'(1) wait_time_timers [OF s(1)] by simp
  have "sent_states s \<noteq> []" "sent_states (sender (client S)) \<noteq> []"
    using s'(2) eq ok0 by (auto simp: sender_ok_def queue_ok_def)
  then have "num (hd (sent_states s)) = num (hd (sent_states (sender (client S))))"
    using s'(5) eq hd_map [of _ num] by metis
  then show ?thesis
    by (intro sync_ok_client [OF assms(1) map_le_refl]) (use s(2) s'(2) eq D(4) in \<open>auto simp: front_num_def\<close>)
qed

lemma client_receive_ok:
  assumes "sync_ok enc ok H N S" "inst \<in> down S" "receive_instruction rops now inst (client S) = (t, r)"
  shows "sync_ok enc ok H N (S\<lparr>client := t\<rparr>)"
proof (cases "protocol_version inst = MOSH_PROTOCOL_VERSION")
  case True
  note D = sync_okD [OF assms(1)]
  obtain s1 where s1: "process_acknowledgment_through (ack_num inst) (sender (client S)) = Inr s1"
      "sender_ok enc ok H (typed S) (client_clock S) N s1"
      "num (hd (sent_states s1)) = num (hd (sent_states (sender (client S))))
        \<or> num (hd (sent_states s1)) = ack_num inst \<and> num (hd (sent_states (sender (client S)))) \<le> ack_num inst"
      "s_ack_num s1 = s_ack_num (sender (client S))"
    by (rule process_ack_log [OF D(1)])
  have kept: "sender_kept s1 (sender t)" using receive_sender [OF assms(3) True s1(1)] .
  then have "sender_ok enc ok H (typed S) (client_clock S) N (sender t)"
    using s1(2) sender_ok_cong [of "sender t" s1] by (simp add: sender_kept_def)
  moreover have "num (hd (sent_states (sender t))) \<in> received_nums S" "front_num S \<le> num (hd (sent_states (sender t)))"
    using kept s1(3) D(4) D(5) [OF assms(2)] by (auto simp: sender_kept_def front_num_def)
  ultimately show ?thesis
    by (intro sync_ok_client [OF assms(1) map_le_refl]) (auto simp: front_num_def)
next
  case False
  then have "t = client S" using receive_version assms(3) by blast
  then show ?thesis using assms(1) by simp
qed

lemma client_connection_ok:
  assumes "sync_ok enc ok H N S"
  shows "sync_ok enc ok H N (S\<lparr>client := (client S)\<lparr>connection := c\<rparr>\<rparr>)"
  by (intro sync_ok_client [OF assms map_le_refl]) (use sync_okD(1,4) [OF assms] in \<open>auto simp: front_num_def\<close>)

text \<open>The server's own state may change in any way that keeps its acknowledgement number.\<close>

lemma server_sender_ok:
  assumes "sync_ok enc ok H N S" "ack_frame (sender (server_end S)) (sender t)"
    "received_states t = received_states (server_end S)" "last_receiver_state t = last_receiver_state (server_end S)"
  shows "sync_ok enc ok H N (S\<lparr>server_end := t, server_counter := k,
    down := insert (last_instruction (s_fragmenter (sender t))) (down S)\<rparr>)"
proof -
  note D = sync_okD [OF assms(1)]
  have rec: "receiver_ok H (delivered S) t"
    using D(2) assms(2-4) receiver_ok_cong [of t "server_end S"] by (simp add: ack_frame_def)
  have "s_ack_num (sender (server_end S)) \<in> received_nums S" using receiver_last_num [OF D(2)] by (simp add: received_nums_def)
  then show ?thesis
    by (intro sync_ok_server [OF assms(1)]) (use rec assms(2,3) in \<open>auto simp: ack_frame_def received_nums_def\<close>)
qed

lemma server_same_ok:
  assumes "sync_ok enc ok H N S" "s_ack_num (sender t) = s_ack_num (sender (server_end S))"
    "sent_states (sender t) \<noteq> []" "s_fragmenter (sender t) = s_fragmenter (sender (server_end S))"
    "received_states t = received_states (server_end S)" "last_receiver_state t = last_receiver_state (server_end S)"
  shows "sync_ok enc ok H N (S\<lparr>server_end := t\<rparr>)"
proof -
  have "ack_frame (sender (server_end S)) (sender t)" using assms(2-4) by (simp add: ack_frame_def)
  then have "sync_ok enc ok H N (S\<lparr>server_end := t, server_counter := server_counter S,
      down := insert (last_instruction (s_fragmenter (sender t))) (down S)\<rparr>)"
    using server_sender_ok [OF assms(1) _ assms(5,6)] by blast
  then show ?thesis using assms(4) sync_okD(6) [OF assms(1)] by (simp add: insert_absorb)
qed

lemma server_receive_ok:
  assumes "sync_ok enc ok H N S" "inst \<in> up S" "receive_instruction ops now inst (server_end S) = (t, r)"
  shows "sync_ok enc ok H N (S\<lparr>server_end := t\<rparr>)"
proof (cases "protocol_version inst = MOSH_PROTOCOL_VERSION")
  case True
  note D = sync_okD [OF assms(1)]
  have inst: "inst_ok enc H inst" "throwaway_num inst \<le> front_num S" using D(3) [OF assms(2)] by auto
  obtain s1 where s1: "process_acknowledgment_through (ack_num inst) (sender (server_end S)) = Inr s1" "sent_states s1 \<noteq> []"
      "current_state s1 = current_state (sender (server_end S))" "s_fragmenter s1 = s_fragmenter (sender (server_end S))"
      "s_ack_num s1 = s_ack_num (sender (server_end S))"
    using process_ack_nonempty [OF D(7)] by metis
  note rec = receive_log [OF D(2,8,9) inst(1) True s1(1,5) assms(3)]
  have kept: "sender_kept s1 (sender t)" using receive_sender [OF assms(3) True s1(1)] .
  show ?thesis
    by (rule sync_ok_server [OF assms(1)])
      (use rec inst(2) kept s1(2,4) D(6) in \<open>auto simp: sender_kept_def received_nums_def insert_absorb intro: order_trans\<close>)
next
  case False
  then have "t = server_end S" using receive_version assms(3) by blast
  then show ?thesis using assms(1) by simp
qed

lemma server_take_ok:
  assumes "sync_ok enc ok H N S" "get_remote_diff ops (server_end S) = Inr (t, d)" "op_apply_string ops [] d = Inr es"
  shows "sync_ok enc ok H N (S\<lparr>server_end := t, delivered := delivered S @ es\<rparr>)"
proof -
  note D = sync_okD [OF assms(1)]
  obtain t' d' where g: "get_remote_diff ops (server_end S) = Inr (t', enc d')" "receiver_ok H (delivered S @ d') t'" "ok d'"
      "H (num (last (received_states (server_end S)))) = Some (delivered S @ d')"
      "map num (received_states t') = map num (received_states (server_end S))" "sender t' = sender (server_end S)"
    by (rule remote_diff_log [OF D(2,8,9)])
  then have eqs: "t = t'" "es = d'" using assms(2,3) log_apply [OF g(3), of "[]"] by auto
  show ?thesis
    by (rule sync_ok_server [OF assms(1)])
      (use eqs g D(6,7) received_nums_cong [OF g(5)] in \<open>auto simp: received_nums_def insert_absorb\<close>)
qed

lemma sync_step_ok:
  assumes inv: "sync_ok enc ok H N S" and N: "N + 2 < 2 ^ 64" and good: "\<And>T e. ok T \<Longrightarrow> good e \<Longrightarrow> ok (T @ [e])"
    and step: "sync_step ops rops lib rlib good S S'"
  shows "\<exists>H'. sync_ok enc ok H' (N + 1) S'"
  using step
proof cases
  case (client_types e s)
  then have "sync_ok enc ok H N S'" using typing_ok [OF inv] good sync_okD(9) [OF inv] by blast
  then show ?thesis using sync_ok_later by blast
next
  case (client_ticks now env t k r)
  then show ?thesis using client_tick_ok [OF inv N] by blast
next
  case (server_changes f s)
  have "sync_ok enc ok H N S'" unfolding server_changes(1)
    by (rule server_same_ok [OF inv]) (use server_changes(2) sync_okD(7) [OF inv] in \<open>auto simp: change_current_state_Inr\<close>)
  then show ?thesis using sync_ok_later by blast
next
  case (server_shutdown now)
  have "sync_ok enc ok H N S'" unfolding server_shutdown
    by (rule server_same_ok [OF inv]) (use sync_okD(7) [OF inv] in auto)
  then show ?thesis using sync_ok_later by blast
next
  case (server_ticks now env t k r)
  then obtain s c where run: "tick rops rlib now env (server_counter S) (connection (server_end S)) (sender (server_end S)) = Some (s, k, c, r)"
      "t = (server_end S)\<lparr>sender := s, connection := c\<rparr>"
    by (auto simp: transport_tick_def split: option.splits prod.splits)
  have "ack_frame (sender (server_end S)) s" using tick_frame [OF run(1) sync_okD(7) [OF inv]] .
  then have "sync_ok enc ok H N S'" unfolding server_ticks(1)
    by (intro server_sender_ok [OF inv]) (use run(2) in simp_all)
  then show ?thesis using sync_ok_later by blast
next
  case (server_waits now t n)
  then obtain s where s: "wait_time rops now (connection (server_end S)) (sender (server_end S)) = Inr (s, n)"
      "t = (server_end S)\<lparr>sender := s\<rparr>"
    by (auto simp: transport_wait_time_def result_simps)
  note frame = timers_frame [OF wait_time_timers [OF s(1)]]
  have "sync_ok enc ok H N S'" unfolding server_waits(1)
    by (rule server_same_ok [OF inv]) (use s(2) frame sync_okD(7) [OF inv] in auto)
  then show ?thesis using sync_ok_later by blast
next
  case (server_connection c)
  have "sync_ok enc ok H N S'" unfolding server_connection
    by (rule server_same_ok [OF inv]) (use sync_okD(7) [OF inv] in auto)
  then show ?thesis using sync_ok_later by blast
qed (use sync_ok_later [OF shutdown_ok [OF inv]] sync_ok_later [OF client_wait_ok [OF inv]]
    sync_ok_later [OF client_receive_ok [OF inv]] sync_ok_later [OF client_connection_ok [OF inv]]
    sync_ok_later [OF server_receive_ok [OF inv]] sync_ok_later [OF server_take_ok [OF inv]] in blast)+

end

end
