(* ===== verification/Delivery.thy ===== *)
theory Delivery
  imports Synchronisation
begin

text \<open>
  The promises of the transport to the application, for the user's input travelling from client to server: exactly once
  and in order, nothing lost at an acknowledged shutdown, recovery from the last acknowledged state, and no failed
  assertion at either end as long as both follow the protocol.
\<close>

section \<open>No aborts\<close>

text \<open>A connection fit for sending: a socket is open, the MTU is one the code sets, and a client knows its server's address.\<close>

definition sendable :: "Connection.connection \<Rightarrow> bool" where
  "sendable c \<longleftrightarrow> socks c \<noteq> [] \<and> 500 \<le> MTU c \<and> MTU c \<le> 1252 \<and> (server c \<or> remote_addr_len c \<noteq> 0)"

lemma aborts_simps [simp]:
  "\<not> aborts (CryptoException m f)" "\<not> aborts (NetworkException m' n)" "aborts AssertFailed" "aborts FatalAssert"
  "aborts UndefinedBehaviour" "aborts (ProcessExit k)"
  by (simp_all add: aborts_def)

lemma survives_simps [simp]: "survives (Inr x)" "survives (Inl e) \<longleftrightarrow> \<not> aborts e"
  by (simp_all add: survives_def)

lemma maintain_sendable:
  assumes "sendable c" "maintain now ns c = (c', r)"
  shows "sendable c' \<and> survives r"
  using assms
  by (auto simp: maintain_def hop_port_def conn_setup_def sendable_def prune_sockets_def MAX_PORTS_OPEN_def Let_def split: if_splits sum.splits)

lemma note_sendto_sendable: "sendable c \<Longrightarrow> sendable (note_sendto oc c)"
  by (auto simp: note_sendto_def sendable_def DEFAULT_SEND_MTU_def Let_def split: send_outcome.splits)

lemma encrypt_survives:
  assumes "length (msg_text m) + 16 \<le> RECEIVE_MTU" "encrypt E s m = (s', r)"
  shows "survives r"
proof -
  have small: "length (msg_text m) + 16 < 2 ^ 31" using assms(1) by (simp add: RECEIVE_MTU_def)
  have "size_of_int (int_of_size (length (msg_text m) + 16)) = length (msg_text m) + 16"
    using int_of_size_small [OF small] size_of_int_small [OF small] by simp
  then show ?thesis using assms by (auto simp: encrypt_def Let_def split: prod.splits if_splits)
qed

lemma send_sendable:
  assumes "sendable c" "length s + 20 \<le> RECEIVE_MTU" "send E counter now oc ns c s = (counter', c', r)"
  shows "sendable c' \<and> survives r"
proof (cases "has_remote_addr c")
  case True
  obtain k1 c1 rp where np: "new_packet counter now c s = (k1, c1, rp)" by (metis prod_cases3)
  have c1: "sendable (c1\<lparr>conn_session := ses\<rparr>)" for ses
    using assms(1) np
    by (cases "now - saved_timestamp_received_at c < 1000") (auto simp: new_packet_def sendable_def Let_def split: prod.splits)
  show ?thesis
  proof (cases rp)
    case (Inl e)
    then have "\<not> aborts e" using np by (auto simp: new_packet_def Packet_def unique_def Let_def split: if_splits)
    moreover have "sendable c1" using c1 [of "conn_session c1"] by (simp add: sendable_def)
    ultimately show ?thesis using assms(3) True np Inl by (auto simp: send_def)
  next
    case (Inr px)
    then have px: "payload px = s" using new_packet_Inr np by blast
    obtain ses re where en: "encrypt E (conn_session c1) (toMessage px) = (ses, re)" by force
    have "length (msg_text (toMessage px)) + 16 \<le> RECEIVE_MTU" using assms(2) px by simp
    then have surv: "survives re" using encrypt_survives en by blast
    show ?thesis
    proof (cases re)
      case (Inl e)
      then show ?thesis using assms(3) True np Inr en surv c1 [of ses] by (auto simp: send_def)
    next
      case (Inr p)
      obtain c4 rm where m: "maintain now ns (note_sendto oc (c1\<lparr>conn_session := ses\<rparr>)) = (c4, rm)" by force
      have "sendable c4 \<and> survives rm" using maintain_sendable [OF note_sendto_sendable [OF c1] m] .
      moreover have "socks c1 \<noteq> []" using c1 [of ses] by (simp add: sendable_def)
      ultimately show ?thesis using assms(3) True np \<open>rp = Inr px\<close> en Inr m by (cases rm) (auto simp: send_def)
    qed
  qed
qed (use assms in \<open>auto simp: send_def\<close>)

lemma send_each_sendable:
  assumes "sendable c" "\<forall>f \<in> set fs. initialized f \<and> \<not> bit (fragment_num f) 15 \<and> length (contents f) + 30 \<le> RECEIVE_MTU"
    "send_each E now env k fs (counter, c) = (counter', c', r)"
  shows "sendable c' \<and> survives r"
  using assms
proof (induction fs arbitrary: k counter c)
  case (Cons f fs)
  obtain s where s: "tostring f = Inr s" using Cons.prems(2) tostring_eq_Inr [of f] by simp
  have "length s = 10 + length (contents f)" using s tostring_eq_Inr [of f s] by (auto simp: network_order_string64_def network_order_string16_def)
  then have len: "length s + 20 \<le> RECEIVE_MTU" using Cons.prems(2) by simp
  obtain k1 c1 r1 where st: "send E counter now (fst (sendto_outcomes env k)) (snd (sendto_outcomes env k)) c s = (k1, c1, r1)"
    by (metis prod_cases3)
  note one = send_sendable [OF Cons.prems(1) len st]
  show ?case
  proof (cases r1)
    case (Inl e)
    then show ?thesis using Cons.prems(3) s st one by auto
  next
    case (Inr p)
    then have "send_each E now env (k + 1) fs (k1, c1) = (counter', c', r)" using Cons.prems(3) s st by simp
    then show ?thesis using Cons.IH [of c1 "k + 1" k1] Cons.prems(2) one by auto
  qed
qed (simp, metis survives_simps(1))

text \<open>The fragments of an instruction: few enough, and each fits a datagram.\<close>

lemma fragment_MTU_bounds:
  assumes "sendable c"
  shows "462 \<le> unat (fragment_MTU c - of_nat frag_header_len)" "unat (fragment_MTU c - of_nat frag_header_len) \<le> 1214"
proof -
  obtain m where m: "MTU c = int m" "500 \<le> m" "m \<le> 1252" using assms nonneg_int_cases [of "MTU c"] by (auto simp: sendable_def)
  have "fragment_MTU c - of_nat frag_header_len = of_nat (m - 38)"
    using m by (simp add: fragment_MTU_def ADDED_BYTES_def SESSION_ADDED_BYTES_def frag_header_len_def of_nat_diff)
  moreover have "unat (of_nat (m - 38) :: u64) = m - 38" using m by (intro unat_of_nat_u64) simp
  ultimately have "unat (fragment_MTU c - of_nat frag_header_len) = m - 38" by simp
  then show "462 \<le> unat (fragment_MTU c - of_nat frag_header_len)" "unat (fragment_MTU c - of_nat frag_header_len) \<le> 1214"
    using m by simp_all
qed

lemma length_chunks: "0 < n \<Longrightarrow> length (chunks n xs) * n < length xs + n"
proof (induction n xs rule: chunks.induct)
  case (1 n xs)
  show ?case
  proof (cases "xs = [] \<or> length xs \<le> n")
    case True
    then show ?thesis using 1(2) by (auto simp: chunks.simps [of n xs])
  next
    case False
    then have "length (chunks n (drop n xs)) * n < length (drop n xs) + n" using 1 by simp
    then show ?thesis using False 1(2) by (simp add: chunks.simps [of n xs])
  qed
qed

lemma cut_payload_fits:
  assumes "462 \<le> n" "n \<le> 1214" "length p \<le> BUFFER_SIZE"
  obtains fs where "cut_payload i n 0 p = Some fs"
    "\<forall>f \<in> set fs. initialized f \<and> \<not> bit (fragment_num f) 15 \<and> length (contents f) + 30 \<le> RECEIVE_MTU"
proof -
  let ?fs = "number i 0 (chunks n p)"
  have cut: "cut_payload i n 0 p = Some ?fs" using assms(1) by (intro cut_payload_terminates) simp
  have "length (chunks n p) * 462 \<le> length (chunks n p) * n" using assms(1) by (rule mult_le_mono2)
  then have "length (chunks n p) * 462 < BUFFER_SIZE + 1214"
    using length_chunks [of n p] assms by linarith
  then have few: "length (chunks n p) < 0x8000" by (simp add: BUFFER_SIZE_def)
  have "initialized f \<and> \<not> bit (fragment_num f) 15 \<and> length (contents f) + 30 \<le> RECEIVE_MTU" if f: "f \<in> set ?fs" for f
  proof -
    obtain k where k: "k < length (chunks n p)" "f = ?fs ! k" using f by (auto simp: in_set_conv_nth)
    then have fk: "f = Fragment i (of_nat k) (Suc k = length (chunks n p)) (chunks n p ! k)" using nth_number_0 by blast
    have "length (chunks n p ! k) \<le> n" using chunks_bound [of n "chunks n p ! k" p] assms(1) k(1) by simp
    moreover have "\<not> bit (of_nat k :: u16) 15"
    proof -
      have "k < 2 ^ 15" using k(1) few by simp
      then have "take_bit 15 (of_nat k :: u16) = of_nat k" by (simp add: take_bit_of_nat take_bit_nat_eq_self)
      then show ?thesis by (metis bit_take_bit_iff less_irrefl)
    qed
    ultimately show ?thesis using fk assms(2) by (simp add: Fragment_def RECEIVE_MTU_def)
  qed
  then show thesis using that cut by blast
qed


text \<open>The inputs of a transmission behave: the random generator throws only exceptions, and compressed data fits the
  buffer that zlib was given.\<close>

definition env_ok :: "send_env \<Rightarrow> bool" where
  "env_ok env \<longleftrightarrow> survives (rnd_uint8 env) \<and> (\<forall>n. survives (rnd_fill env n))"

definition zlib_fits :: "(nat \<Rightarrow> bytes \<Rightarrow> bytes option) \<Rightarrow> bool" where
  "zlib_fits z \<longleftrightarrow> (\<forall>n b p. z n b = Some p \<longrightarrow> length p \<le> n)"

lemma make_chaff_survives: "env_ok env \<Longrightarrow> survives (make_chaff env)"
  unfolding env_ok_def make_chaff_def by (cases "rnd_uint8 env") (auto simp: Let_def)

lemma inst_diff_unique:
  assumes "inst_ok enc H l" "H (old_num l) = Some u" "H (new_num l) = Some (u @ d)" "enc [] = []"
  shows "inst_diff l = enc d"
  using assms unfolding inst_ok_def by (auto simp: Fragmenter_def)

text \<open>A transmission with an instruction that does not contradict the previous one: it returns, keeps the rest of the sender,
  and the fragmenter remembers the instruction whatever happens on the connection.\<close>

lemma transmit_outcome:
  assumes "assumed s = Inr x" "make_chaff env = Inr ch" "sendable c" "zlib_fits (lib_compress lib)"
    "num x = old_num (last_instruction (s_fragmenter s)) \<and> n = new_num (last_instruction (s_fragmenter s))
      \<longrightarrow> d = inst_diff (last_instruction (s_fragmenter s))"
  obtains tries g pend counter' c' r where "send_in_fragments lib now env d n counter c s
      = Some (s\<lparr>shutdown_tries := tries, s_fragmenter := g, pending_data_ack := pend\<rparr>, counter', c', r)"
    "survives r" "sendable c'" "last_instruction g = instruction_of (num x) n (s_ack_num s) (num (hd (sent_states s))) d ch"
proof -
  define inst where "inst = instruction_of (num x) n (s_ack_num s) (num (hd (sent_states s))) d ch"
  define tries where "tries = (if n = - 1 then shutdown_tries s + 1 else shutdown_tries s)"
  let ?l = "last_instruction (s_fragmenter s)"
  have same: "\<not> (old_num inst = old_num ?l \<and> new_num inst = new_num ?l \<and> inst_diff inst \<noteq> inst_diff ?l)"
    using assms(5) by (auto simp: inst_def instruction_of_def)
  obtain g mr where g: "make_fragments (lib_compress lib) (lib_ser lib) (s_fragmenter s) inst (fragment_MTU c) = (g, mr)" by force
  have last: "last_instruction g = inst" using g same unfolding make_fragments_def Let_def by (auto split: if_splits)
  let ?s2 = "s\<lparr>shutdown_tries := tries, s_fragmenter := g\<rparr>"
  have unf: "send_in_fragments lib now env d n counter c s = (case mr of
         Inl e \<Rightarrow> Some (?s2, counter, c, Inl e)
       | Inr None \<Rightarrow> None
       | Inr (Some fs) \<Rightarrow> (case send_each (lib_E lib) now env 0 fs (counter, c) of
            (counter', c', Inl e) \<Rightarrow> Some (?s2, counter', c', Inl e)
          | (counter', c', Inr _) \<Rightarrow> Some (?s2\<lparr>pending_data_ack := False\<rparr>, counter', c', Inr ())))"
    using assms(1,2) g unfolding send_in_fragments_def inst_def instruction_of_def tries_def
    by (cases "n = - 1") (simp_all add: Let_def split: sum.split option.split prod.split)
  note finish = that [where tries = tries and g = g, unfolded inst_def [symmetric], OF _ _ _ last]
  have keep: "?s2 = s\<lparr>shutdown_tries := tries, s_fragmenter := g, pending_data_ack := pending_data_ack s\<rparr>" by simp
  show thesis
  proof (cases "lib_compress lib BUFFER_SIZE (lib_ser lib inst)")
    case None
    then have "mr = Inl (CryptoException ''Illegal counterparty input (possible denial of service)'' False)"
      using g same unfolding make_fragments_def Let_def by (auto simp: compress_str_def dos_assert_def split: if_splits)
    then show thesis using finish [where pend = "pending_data_ack s"] unf assms(3) keep by simp
  next
    case (Some p)
    then have "length p \<le> BUFFER_SIZE" using assms(4) by (auto simp: zlib_fits_def)
    note fit = cut_payload_fits [OF fragment_MTU_bounds [OF assms(3)] this]
    obtain i where i: "mr = Inr (cut_payload i (unat (fragment_MTU c - of_nat frag_header_len)) 0 p)"
      using g same Some unfolding make_fragments_def Let_def
      by (auto simp: compress_str_def dos_assert_def split: if_splits)
    obtain fs where fs: "mr = Inr (Some fs)"
        "\<forall>f \<in> set fs. initialized f \<and> \<not> bit (fragment_num f) 15 \<and> length (contents f) + 30 \<le> RECEIVE_MTU"
      by (rule fit [of i]) (use i in simp)
    obtain k1 c1 r1 where se: "send_each (lib_E lib) now env 0 fs (counter, c) = (k1, c1, r1)" by (metis prod_cases3)
    note ok = send_each_sendable [OF assms(3) fs(2) se]
    show thesis
    proof (cases r1)
      case (Inl e)
      then show thesis using finish [where pend = "pending_data_ack s"] unf fs(1) se ok keep by simp
    next
      case (Inr u)
      then show thesis using finish [where pend = False] unf fs(1) se ok by simp
    qed
  qed
qed

context append_log
begin

lemma transmit_survives:
  assumes "transmittable enc ok H T now N s d n H' s1" "sendable c" "env_ok env" "zlib_fits (lib_compress lib)"
  obtains s2 counter' c' r where "send_in_fragments lib now env (enc d) n counter c s1 = Some (s2, counter', c', r)"
    "survives r" "sendable c'"
proof -
  obtain x u where t: "sender_ok enc ok H' T now (N + 1) s1" "H' n = Some T" "assumed s1 = Inr x" "H' (num x) = Some u" "T = u @ d"
    using assms(1) unfolding transmittable_def by blast
  show thesis
  proof (cases "make_chaff env")
    case (Inl e)
    then show thesis using that [of s1 counter c "Inl e"] t(3) make_chaff_survives [OF assms(3)] assms(2)
      by (simp add: send_in_fragments_def)
  next
    case (Inr ch)
    have l: "inst_ok enc H' (last_instruction (s_fragmenter s1))" using t(1) by (simp add: sender_ok_def)
    have "enc [] = []" using enc_Nil [of T] t(1) by (simp add: sender_ok_def)
    then have same: "num x = old_num (last_instruction (s_fragmenter s1)) \<and> n = new_num (last_instruction (s_fragmenter s1))
        \<longrightarrow> enc d = inst_diff (last_instruction (s_fragmenter s1))"
      using inst_diff_unique [OF l, of u d] t(2,4,5) by auto
    show thesis by (rule transmit_outcome [OF t(3) Inr assms(2,4) same, where now = now and counter = counter])
        (rule that, assumption+)
  qed
qed

end

definition good_run :: "'s sending option \<Rightarrow> bool" where
  "good_run x \<longleftrightarrow> (\<exists>s counter c r. x = Some (s, counter, c, r) \<and> survives r \<and> sendable c)"

lemma good_runI: "x = Some (s, counter, c, r) \<Longrightarrow> survives r \<Longrightarrow> sendable c \<Longrightarrow> good_run x"
  by (simp add: good_run_def)

context append_log
begin

lemma empty_ack_survives:
  assumes "sender_ok enc ok H T now N s" "N + 2 < 2 ^ 64" "assumed_receiver_state s = Some a"
    "a = 0 \<or> a = length (sent_states s) - 1" "current_state s = state (sent_states s ! a)" "next_ack_time s \<le> now"
    and env: "sendable c" "env_ok env" "zlib_fits (lib_compress lib)"
  shows "good_run (send_empty_ack lib now env counter c s)"
proof -
  define n where "n = (if shutdown_in_progress s then - 1 else num (last (sent_states s)) + 1)"
  have "current_state s = state (sent_states s ! a) @ []" using assms(5) by simp
  note t = add_transmittable [OF assms(1-4) this n_def]
  obtain s2 k c' r where r: "send_in_fragments lib now env (enc []) n counter c (add_sent_state now n (current_state s) s)
      = Some (s2, k, c', r)" "survives r" "sendable c'"
    by (rule transmit_survives [OF t env])
  have "enc [] = []" using enc_Nil [of T] assms(1) by (simp add: sender_ok_def)
  then show ?thesis using r leD [OF assms(6)]
    by (cases r) (auto simp: send_empty_ack_def n_def [symmetric] good_run_def)
qed

lemma to_receiver_survives:
  assumes "sender_ok enc ok H T now N s" "N + 2 < 2 ^ 64" "assumed_receiver_state s = Some a"
    "a = 0 \<or> a = length (sent_states s) - 1" "current_state s = state (sent_states s ! a) @ d"
    and env: "sendable c" "env_ok env" "zlib_fits (lib_compress lib)"
  shows "good_run (send_to_receiver ops lib now env (enc d) counter c s)"
proof -
  obtain H' where t: "transmittable enc ok H T now N s d (receiver_num ops s) H' (receiver_sender ops now s)"
    using receiver_transmittable [OF assms(1-5)] by blast
  obtain s2 k c' r where r: "send_in_fragments lib now env (enc d) (receiver_num ops s) counter c (receiver_sender ops now s)
      = Some (s2, k, c', r)" "survives r" "sendable c'"
    by (rule transmit_survives [OF t env])
  then show ?thesis unfolding send_to_receiver_eq by (cases r) (auto simp: good_run_def)
qed

lemma tick_survives:
  assumes "sender_ok enc ok H T t0 N s0" "t0 \<le> now" "N + 2 < 2 ^ 64"
    and env: "sendable c" "env_ok env" "zlib_fits (lib_compress lib)"
  shows "good_run (tick ops lib now env counter c s0)"
proof -
  have ok0: "sender_ok enc ok H T now N s0" using sender_ok_mono [OF assms(1,2) order_refl] .
  obtain s a where s: "calculate_timers ops now c s0 = Inr s" "sender_ok enc ok H T now N s"
      "assumed_receiver_state s = Some a" "a = 0 \<or> a = length (sent_states s) - 1"
      "map num (sent_states s) = map num (sent_states s0)"
    by (rule timers_log [OF ok0])
  obtain a' d where p: "prepare_diff ops s = Inr (s\<lparr>assumed_receiver_state := Some a'\<rparr>, enc d)"
    "a' = 0 \<or> a' = length (sent_states s) - 1" "current_state s = state (sent_states s ! a') @ d" "ok d"
    by (rule prepare_log [OF s(2-4)])
  let ?s1 = "s\<lparr>assumed_receiver_state := Some a'\<rparr>"
  have ok1: "sender_ok enc ok H T now N ?s1" using s(2) sender_ok_core [of ?s1 s] by simp
  show ?thesis
  proof (cases "\<not> has_remote_addr c \<or> now < next_ack_time s \<and> now < next_send_time s")
    case True
    then show ?thesis using s(1) env(1) by (auto simp: tick_def good_run_def)
  next
    case busy: False
    show ?thesis
    proof (cases "enc d = []")
      case nil: True
      then have d: "d = []" using log_enc_Nil [OF p(4)] by simp
      show ?thesis
      proof (cases "next_ack_time s \<le> now")
        case True
        have "good_run (send_empty_ack lib now env counter c ?s1)"
          using True p(2,3) d assms(3) env by (intro empty_ack_survives [OF ok1]) auto
        then obtain s2 k c' r where r: "send_empty_ack lib now env counter c ?s1 = Some (s2, k, c', r)" "survives r" "sendable c'"
          by (auto simp: good_run_def)
        then show ?thesis using s(1) p(1) busy nil True by (cases r) (auto simp: tick_def good_run_def Let_def)
      next
        case False
        then show ?thesis using s(1) p(1) busy nil env(1) by (auto simp: tick_def good_run_def Let_def)
      qed
    next
      case data: False
      show ?thesis
      proof (cases "next_send_time s \<le> now \<or> next_ack_time s \<le> now")
        case True
        have "good_run (send_to_receiver ops lib now env (enc d) counter c ?s1)"
          using p(2,3) assms(3) env by (intro to_receiver_survives [OF ok1]) auto
        then obtain s2 k c' r where r: "send_to_receiver ops lib now env (enc d) counter c ?s1 = Some (s2, k, c', r)"
            "survives r" "sendable c'"
          by (auto simp: good_run_def)
        then show ?thesis using s(1) p(1) busy data True by (cases r) (auto simp: tick_def good_run_def)
      next
        case False
        then show ?thesis using s(1) p(1) busy data env(1) by (auto simp: tick_def good_run_def)
      qed
    qed
  qed
qed

lemma start_ok:
  assumes "ok []"
  shows "sync_ok enc ok [0 \<mapsto> []] 0 (system_start now now' c c' initial)"
proof -
  have "sender_ok enc ok [0 \<mapsto> []] [] now 0 (TransportSender now [])"
    using assms by (auto simp: sender_ok_def TransportSender_def queue_ok_def history_ok_def inst_ok_def Fragmenter_def)
  moreover have "receiver_ok [0 \<mapsto> []] [] (Transport now' c' initial [])"
    by (simp add: receiver_ok_def Transport_def TransportSender_def)
  ultimately show ?thesis
    by (simp add: sync_ok_def system_start_def Transport_def TransportSender_def inst_ok_def front_num_def received_nums_def
        Fragmenter_def)
qed

lemma reach_ok:
  assumes "sync_reach ops rops lib rlib good (system_start now now' c c' initial) n S" "n + 2 < 2 ^ 64"
    and "ok []" "\<And>T e. ok T \<Longrightarrow> good e \<Longrightarrow> ok (T @ [e])"
  shows "\<exists>H. sync_ok enc ok H n S"
  using assms(1,2)
proof (induction rule: sync_reach.induct)
  case reach_start
  show ?case by (rule exI, rule start_ok [OF assms(3)])
next
  case (reach_step n S S')
  obtain H where "sync_ok enc ok H n S" using reach_step.IH reach_step.prems by auto
  from sync_step_ok [OF this _ assms(4) reach_step.hyps(2)] show ?case using reach_step.prems by simp
qed

end

context append_log
begin

text \<open>Taking from a correct receiver gives the rest of the newest version it has.\<close>

lemma take_log:
  assumes "sync_ok enc ok H N S"
  obtains t d es where "get_remote_diff ops (server_end S) = Inr (t, d)" "op_apply_string ops [] d = Inr es"
    "H (num (last (received_states (server_end S)))) = Some (delivered S @ es)" "prefix (delivered S @ es) (typed S)"
proof -
  note D = sync_okD [OF assms]
  obtain t d where g: "get_remote_diff ops (server_end S) = Inr (t, enc d)" "receiver_ok H (delivered S @ d) t" "ok d"
      "H (num (last (received_states (server_end S)))) = Some (delivered S @ d)"
      "map num (received_states t) = map num (received_states (server_end S))" "sender t = sender (server_end S)"
    by (rule remote_diff_log [OF D(2,8,9)])
  show thesis
    by (rule that [OF g(1) _ g(4)]) (use log_apply [OF g(3), of "[]"] history_current [OF D(8) g(4)] in simp_all)
qed

text \<open>A receiver that has the newest version of the sender has everything.\<close>

lemma newest_version:
  assumes "sync_ok enc ok H N S" "H n = Some (typed S)" "n = num (last (sent_states (sender (client S))))" "n \<in> received_nums S"
  shows "H (num (last (received_states (server_end S)))) = Some (typed S)"
proof -
  note D = sync_okD [OF assms(1)]
  let ?xs = "received_states (server_end S)"
  have ne: "?xs \<noteq> []" and sorted: "sorted_wrt (<) (map num ?xs)" using D(2) by (auto simp: receiver_ok_def)
  obtain x where x: "x \<in> set ?xs" "num x = n" using assms(4) by (auto simp: received_nums_def)
  have "n \<le> num (last ?xs)" using sorted_le_last [OF strict_sorted_imp_sorted [OF sorted] x(1)] x(2) by simp
  moreover obtain v where "H (num (last ?xs)) = Some v" using D(2) by (auto simp: receiver_ok_def)
  then have "num (last ?xs) \<le> n" using D(8) assms(3) unfolding history_ok_def by blast
  ultimately show ?thesis using assms(2) by (simp add: antisym)
qed

lemma delivered_prefix:
  assumes "sync_ok enc ok H N S"
  shows "prefix (delivered S) (typed S)"
  using take_log [OF assms] by (metis append_prefixD)

lemma shutdown_delivered:
  assumes "sync_ok enc ok H N S" "get_shutdown_acknowledged (sender (client S))"
  shows "H (num (last (received_states (server_end S)))) = Some (typed S)"
proof -
  note D = sync_okD [OF assms(1)]
  let ?s = "sender (client S)"
  obtain base where q: "queue_ok H base (client_clock S) (sent_states ?s)" using D(1) by (auto simp: sender_ok_def)
  have front: "num (hd (sent_states ?s)) = - 1" using assms(2) by (simp add: get_shutdown_acknowledged_def)
  have "num (hd (sent_states ?s)) \<le> num (last (sent_states ?s))"
    using q sorted_hd_le [of num "sent_states ?s" "last (sent_states ?s)"] by (simp add: queue_ok_def)
  then have last: "num (last (sent_states ?s)) = - 1" using front by (simp add: word_order.extremum_unique)
  then have "H (- 1) = Some (typed S)" using D(1) by (simp add: sender_ok_def)
  then show ?thesis using newest_version [OF assms(1) _ last [symmetric]] D(4) front by (simp add: front_num_def)
qed

lemma resync_log:
  assumes inv: "sync_ok enc ok H N S" and inst: "inst \<in> up S" "protocol_version inst = MOSH_PROTOCOL_VERSION"
    and from_acked: "old_num inst = get_sent_state_acked (sender (client S))"
    and to_last: "new_num inst = get_sent_state_last (sender (client S))"
    and sent: "current_state (sender (client S)) = state (last (sent_states (sender (client S))))"
    and room: "length (received_states (server_end S)) \<le> 1024"
    and run: "receive_instruction ops now inst (server_end S) = (t, r)"
  shows "r = Inr ()" "H (num (last (received_states t))) = Some (typed S)"
proof -
  note D = sync_okD [OF inv]
  obtain s1 where s1: "process_acknowledgment_through (ack_num inst) (sender (server_end S)) = Inr s1"
      "s_ack_num s1 = s_ack_num (sender (server_end S))"
    using process_ack_nonempty [OF D(7)] by metis
  have i: "inst_ok enc H inst" using D(3) [OF inst(1)] by blast
  note rec = receive_log [OF D(2,8,9) i inst(2) s1 run]
  show "r = Inr ()" using rec(1) .
  have "old_num inst \<in> num ` set (received_states (server_end S))"
    using D(4) from_acked by (simp add: front_num_def received_nums_def get_sent_state_acked_def)
  then have new: "new_num inst \<in> num ` set (received_states t)" using rec(4) room by auto
  obtain base where base: "base @ current_state (sender (client S)) = typed S"
      "queue_ok H base (client_clock S) (sent_states (sender (client S)))"
    using D(1) by (auto simp: sender_ok_def)
  then have "H (new_num inst) = Some (typed S)"
    using sent to_last by (simp add: queue_ok_def get_sent_state_last_def)
  then show "H (num (last (received_states t))) = Some (typed S)"
    using newest_version [OF server_receive_ok [OF inv inst(1) run], of "new_num inst"] new to_last
    by (simp add: received_nums_def get_sent_state_last_def)
qed

end

section \<open>Promises for the user's input\<close>

text \<open>C1. Keystrokes arrive exactly once and in order.  However the network loses, repeats and reorders instructions, and
  whatever either program does in between, what the server has taken is at every moment a prefix of what the user typed,
  and the next difference can always be taken and only extends that prefix.  The number of steps stays below 2^64 so that
  version numbers do not wrap.\<close>

theorem input_delivered_in_order:
  assumes "protobuf_ok ser parse" "n + 2 < 2 ^ 64"
    "sync_reach (user_ops ser parse) rops lib rlib event_ok (system_start now now' c c' initial) n S"
  shows "prefix (delivered S) (typed S)
    \<and> (\<exists>t d es. get_remote_diff (user_ops ser parse) (server_end S) = Inr (t, d)
        \<and> user_apply_string parse [] d = Inr es \<and> prefix (delivered S @ es) (typed S))"
proof -
  obtain H where inv: "sync_ok (\<lambda>x. ser (foldl add_event [] x)) (\<lambda>x. list_all event_ok x \<and> protobuf_ok ser parse) H n S"
    using user_log.reach_ok [OF assms(3,2)] assms(1) by auto
  show ?thesis
    by (rule user_log.take_log [OF inv])
      (use user_log.delivered_prefix [OF inv] in \<open>auto simp: user_ops_def\<close>)
qed

text \<open>C2. Nothing is lost at an acknowledged shutdown.  Once the client sees its shutdown acknowledged, everything the user
  typed is at the server: the next difference the server takes completes the input.\<close>

theorem acknowledged_shutdown_loses_nothing:
  assumes "protobuf_ok ser parse" "n + 2 < 2 ^ 64"
    "sync_reach (user_ops ser parse) rops lib rlib event_ok (system_start now now' c c' initial) n S"
    "get_shutdown_acknowledged (sender (client S))"
  shows "\<exists>t d es. get_remote_diff (user_ops ser parse) (server_end S) = Inr (t, d)
    \<and> user_apply_string parse [] d = Inr es \<and> delivered S @ es = typed S"
proof -
  obtain H where inv: "sync_ok (\<lambda>x. ser (foldl add_event [] x)) (\<lambda>x. list_all event_ok x \<and> protobuf_ok ser parse) H n S"
    using user_log.reach_ok [OF assms(3,2)] assms(1) by auto
  show ?thesis
    by (rule user_log.take_log [OF inv])
      (use user_log.shutdown_delivered [OF inv assms(4)] in \<open>auto simp: user_ops_def\<close>)
qed

text \<open>C6. Recovery from the last acknowledged state.  In every reachable state, an instruction that leads from the state
  the client knows to be acknowledged to the one it sent last is accepted by the server whatever was lost before, unless
  the server's queue is full; if the client has sent all its input, the server then has all of it.\<close>

theorem resend_from_acknowledged_state:
  assumes "protobuf_ok ser parse" "n + 2 < 2 ^ 64"
    "sync_reach (user_ops ser parse) rops lib rlib event_ok (system_start now now' c c' initial) n S"
    "inst \<in> up S" "protocol_version inst = MOSH_PROTOCOL_VERSION"
    "old_num inst = get_sent_state_acked (sender (client S))" "new_num inst = get_sent_state_last (sender (client S))"
    "current_state (sender (client S)) = state (last (sent_states (sender (client S))))"
    "length (received_states (server_end S)) \<le> 1024"
  shows "\<exists>t t' d es. receive_instruction (user_ops ser parse) later inst (server_end S) = (t, Inr ())
    \<and> get_remote_diff (user_ops ser parse) t = Inr (t', d) \<and> user_apply_string parse [] d = Inr es
    \<and> delivered S @ es = typed S"
proof -
  obtain H where inv: "sync_ok (\<lambda>x. ser (foldl add_event [] x)) (\<lambda>x. list_all event_ok x \<and> protobuf_ok ser parse) H n S"
    using user_log.reach_ok [OF assms(3,2)] assms(1) by auto
  obtain t r where run: "receive_instruction (user_ops ser parse) later inst (server_end S) = (t, r)" by force
  note res = user_log.resync_log [OF inv assms(4-9) run]
  have inv': "sync_ok (\<lambda>x. ser (foldl add_event [] x)) (\<lambda>x. list_all event_ok x \<and> protobuf_ok ser parse) H n (S\<lparr>server_end := t\<rparr>)"
    using user_log.server_receive_ok [OF inv assms(4) run] .
  show ?thesis
    by (rule user_log.take_log [OF inv']) (use run res in \<open>auto simp: user_ops_def\<close>)
qed

text \<open>C4. The client's send path always returns and never aborts.  In every reachable state, for every clock that does not go
  back and on a connection with an open socket, an MTU the code sets and a server's address, \<^verbatim>\<open>tick\<close> ends (the fragmenter's
  loop does), its iterator never dangles, no assertion fails (in the sender, the fragmenter, the cipher or the connection,
  that of \<^verbatim>\<open>sock()\<close> included), every fragment fits a datagram; it can only throw an exception, and it leaves the
  connection fit for the next \<^verbatim>\<open>tick\<close>.\<close>

theorem client_tick_never_aborts:
  assumes "protobuf_ok ser parse" "n + 2 < 2 ^ 64"
    "sync_reach (user_ops ser parse) rops lib rlib event_ok (system_start now now' c c' initial) n S"
    "client_clock S \<le> later" "sendable (connection (client S))" "env_ok env" "zlib_fits (lib_compress lib)"
  shows "\<exists>t k r. transport_tick (user_ops ser parse) lib later env (client_counter S) (client S) = Some (t, k, r)
    \<and> survives r \<and> sendable (connection t)"
proof -
  obtain H where inv: "sync_ok (\<lambda>x. ser (foldl add_event [] x)) (\<lambda>x. list_all event_ok x \<and> protobuf_ok ser parse) H n S"
    using user_log.reach_ok [OF assms(3,2)] assms(1) by auto
  have "good_run (tick (user_ops ser parse) lib later env (client_counter S) (connection (client S)) (sender (client S)))"
    by (rule user_log.tick_survives [OF sync_okD(1) [OF inv] assms(4,2,5-7)])
  then show ?thesis by (auto simp: good_run_def transport_tick_def)
qed

text \<open>C5. A server whose client follows the protocol never aborts on what it receives: every instruction the client ever sent,
  in any order and any number of times, is processed without a failed assertion, without reading an erased state, and with
  a diff that applies; the only exception is a mismatch of protocol versions.\<close>

theorem server_receive_never_aborts:
  assumes "protobuf_ok ser parse" "n + 2 < 2 ^ 64"
    "sync_reach (user_ops ser parse) rops lib rlib event_ok (system_start now now' c c' initial) n S" "inst \<in> up S"
  shows "snd (receive_instruction (user_ops ser parse) later inst (server_end S)) =
    (if protocol_version inst = MOSH_PROTOCOL_VERSION then Inr ()
     else Inl (NetworkException ''mosh protocol version mismatch'' 0))"
proof -
  obtain H where inv: "sync_ok (\<lambda>x. ser (foldl add_event [] x)) (\<lambda>x. list_all event_ok x \<and> protobuf_ok ser parse) H n S"
    using user_log.reach_ok [OF assms(3,2)] assms(1) by auto
  note D = sync_okD [OF inv]
  obtain s1 where s1: "process_acknowledgment_through (ack_num inst) (sender (server_end S)) = Inr s1"
      "s_ack_num s1 = s_ack_num (sender (server_end S))"
    using process_ack_nonempty [OF D(7)] by metis
  obtain t r where run: "receive_instruction (user_ops ser parse) later inst (server_end S) = (t, r)" by force
  have "inst_ok (\<lambda>x. ser (foldl add_event [] x)) H inst" using D(3) [OF assms(4)] by blast
  from user_log.receive_log(1) [OF D(2,8,9) this _ s1 run] show ?thesis
    using receive_version [OF _ run] run by auto
qed

section \<open>A concrete run\<close>

definition example_key :: user_event where
  "example_key = UserEvent_byte \<lparr>key_c = 104\<rparr>"

definition example_ops :: "user_stream sync_ops" where
  "example_ops = user_ops put_user_message get_user_message"

definition example_lib :: send_lib where
  "example_lib = \<lparr>lib_E = swap_if_le, lib_compress = (\<lambda>n b. if length b \<le> n then Some b else None), lib_ser = inst_diff\<rparr>"

definition example_env :: send_env where
  "example_env = \<lparr>rnd_uint8 = Inr 0, rnd_fill = (\<lambda>n. Inr (replicate n 0)), sendto_outcomes = (\<lambda>k. (SendOk, Inr 3))\<rparr>"

definition example_conn :: "bool \<Rightarrow> Connection.connection" where
  "example_conn is_server = (example_connection is_server)\<lparr>remote_addr_len := 16\<rparr>"

definition example_start :: "(user_event, user_stream) sync_system" where
  "example_start = system_start 1000 1000 (example_conn False) (example_conn True) []"

text \<open>After a key was typed, and with \<open>b\<close> also a shutdown requested.\<close>

definition example_sender :: "bool \<Rightarrow> user_stream sender" where
  "example_sender b = (TransportSender 1000 [])\<lparr>current_state := [example_key], shutdown_in_progress := b,
     shutdown_start := if b then 1500 else - 1\<rparr>"

definition example_typed :: "bool \<Rightarrow> (user_event, user_stream) sync_system" where
  "example_typed b = example_start\<lparr>client := (client example_start)\<lparr>sender := example_sender b\<rparr>, typed := [example_key]\<rparr>"

definition example_num :: "bool \<Rightarrow> u64" where
  "example_num b = (if b then - 1 else 1)"

definition example_diff :: bytes where
  "example_diff = put_user_message [\<lparr>keystroke = Some [104], resize_msg = None\<rparr>]"

definition example_inst :: "bool \<Rightarrow> instruction" where
  "example_inst b = instruction_of 0 (example_num b) 0 0 example_diff []"

lemma example_lib_fits: "zlib_fits (lib_compress example_lib)"
  by (simp add: zlib_fits_def example_lib_def)

lemma example_env_ok: "env_ok example_env"
  by (simp add: env_ok_def example_env_def)

lemma example_sendable: "sendable (example_conn b)"
  by (simp add: sendable_def example_conn_def example_connection_def initial_connection_def DEFAULT_SEND_MTU_def)

lemma example_timers: "timeout (example_conn b) = 1000" "send_interval (example_conn b) = 250"
proof -
  have "dbl 2000 = 2000" "dbl 3000 = 3000" "dbl 500 = 500"
    using dbl_of_nat [of 2000] dbl_of_nat [of 3000] dbl_of_nat [of 500] by simp_all
  then show "timeout (example_conn b) = 1000" "send_interval (example_conn b) = 250"
    by (simp_all add: timeout_def send_interval_def example_conn_def example_connection_def initial_connection_def
      MIN_RTO_def MAX_RTO_def SEND_INTERVAL_MIN_def SEND_INTERVAL_MAX_def dadd_def dmul_def ddiv_def)
qed

lemma tick_data:
  assumes "calculate_timers ops now c s0 = Inr s" "has_remote_addr c" "next_ack_time s \<le> now"
    "prepare_diff ops s = Inr (s, d)" "d \<noteq> []"
    "send_to_receiver ops lib now env d counter c s = Some (s2, counter', c', r)"
  shows "\<exists>s'. tick ops lib now env counter c s0 = Some (s', counter', c', r) \<and> core s' = core s2"
  using assms by (cases r) (auto simp: tick_def)

lemma tick_ack:
  assumes "calculate_timers ops now c s0 = Inr s" "has_remote_addr c" "next_ack_time s \<le> now"
    "prepare_diff ops s = Inr (s, [])"
    "send_empty_ack lib now env counter c s = Some (s2, counter', c', r)"
  shows "\<exists>s'. tick ops lib now env counter c s0 = Some (s', counter', c', r) \<and> core s' = core s2"
  using assms by (cases r) (auto simp: tick_def Let_def)

lemma example_chaff: "make_chaff example_env = Inr []"
  by (simp add: make_chaff_def example_env_def)

definition example_due :: "bool \<Rightarrow> user_stream sender" where
  "example_due b = (example_sender b)\<lparr>next_send_time := 2008, mindelay_clock := 2000, next_ack_time := if b then 1250 else 1000\<rparr>"

lemma example_timers_client: "calculate_timers example_ops 2000 (example_conn False) (example_sender b) = Inr (example_due b)"
  by (simp add: calculate_timers_def update_assumed_receiver_state_def rationalize_states_def subtract_front_def
      example_sender_def example_due_def TransportSender_def example_ops_def user_ops_def user_subtract_def assumed_def
      send_timer_def ack_timer_def example_timers Let_def)

lemma example_prepare_client: "prepare_diff example_ops (example_due b) = Inr (example_due b, example_diff)"
  by (simp add: prepare_diff_def example_due_def example_sender_def TransportSender_def assumed_def example_ops_def user_ops_def
      user_diff_from_def attempt_prospective_resend_optimization_def verify_diff_def example_diff_def example_key_def
      add_event_def UserEvent_byte_def Let_def)

lemma example_diff_eq: "example_diff = [1, 1, 104, 0, 0]"
  by (simp add: example_diff_def put_user_message_def put_user_instruction_def put_keys_def)

definition example_sent :: "bool \<Rightarrow> user_stream timestamped_state list" where
  "example_sent b = [\<lparr>timestamp = 1000, num = 0, state = []\<rparr>, \<lparr>timestamp = 2000, num = example_num b, state = [example_key]\<rparr>]"

lemma example_typed_client [simp]:
  "sender (client (example_typed b)) = example_sender b" "connection (client (example_typed b)) = example_conn False"
  "server_end (example_typed b) = Transport 1000 (example_conn True) [] []" "client_counter (example_typed b) = 0"
  "client_clock (example_typed b) = 1000" "typed (example_typed b) = [example_key]" "delivered (example_typed b) = []"
  "received_states (client (example_typed b)) = [\<lparr>timestamp = 1000, num = 0, state = []\<rparr>]" "server_counter (example_typed b) = 0"
  by (simp_all add: example_typed_def example_start_def system_start_def Transport_def)

lemma example_tick:
  obtains t k r where "transport_tick example_ops example_lib 2000 example_env 0 (client (example_typed b)) = Some (t, k, r)"
    "survives r" "sendable (connection t)" "current_state (sender t) = [example_key]" "sent_states (sender t) = example_sent b"
    "last_instruction (s_fragmenter (sender t)) = example_inst b" "received_states t = [\<lparr>timestamp = 1000, num = 0, state = []\<rparr>]"
proof -
  let ?s = "example_due b" and ?n = "example_num b"
  have num: "receiver_num example_ops ?s = ?n"
    by (simp add: receiver_num_def example_due_def example_sender_def TransportSender_def example_ops_def user_ops_def example_num_def)
  have snd: "receiver_sender example_ops 2000 ?s = ?s\<lparr>sent_states := example_sent b\<rparr>"
    unfolding receiver_sender_def num
    by (simp add: example_due_def example_sender_def TransportSender_def add_sent_state_def example_sent_def example_num_def)
  have as: "assumed (?s\<lparr>sent_states := example_sent b\<rparr>) = Inr \<lparr>timestamp = 1000, num = 0, state = []\<rparr>"
    by (simp add: assumed_def example_due_def example_sender_def TransportSender_def example_sent_def)
  obtain tries g pend k c' r where out: "send_in_fragments example_lib 2000 example_env example_diff ?n 0 (example_conn False)
      (?s\<lparr>sent_states := example_sent b\<rparr>)
      = Some (?s\<lparr>sent_states := example_sent b, shutdown_tries := tries, s_fragmenter := g, pending_data_ack := pend\<rparr>, k, c', r)"
      "survives r" "sendable c'" "last_instruction g = instruction_of 0 ?n 0 0 example_diff []"
    by (rule transmit_outcome [OF as example_chaff example_sendable example_lib_fits, where d = example_diff and n = ?n
          and now = 2000 and counter = 0 and b1 = False])
      (auto simp: example_due_def example_sender_def TransportSender_def Fragmenter_def example_sent_def)
  have due: "has_remote_addr (example_conn False)" "next_ack_time ?s \<le> 2000" "example_diff \<noteq> []"
    by (simp_all add: example_conn_def example_due_def example_diff_eq)
  obtain s2 where s2: "send_to_receiver example_ops example_lib 2000 example_env example_diff 0 (example_conn False) ?s = Some (s2, k, c', r)"
      "current_state s2 = [example_key]" "sent_states s2 = example_sent b" "s_fragmenter s2 = g"
    unfolding send_to_receiver_eq num snd out(1) by (cases r) (auto simp: example_due_def example_sender_def)
  obtain s' where s': "tick example_ops example_lib 2000 example_env 0 (example_conn False) (example_sender b) = Some (s', k, c', r)"
      "core s' = core s2"
    using tick_data [OF example_timers_client due(1,2) example_prepare_client due(3) s2(1)] by blast
  show thesis
    by (rule that [of "(client (example_typed b))\<lparr>sender := s', connection := c'\<rparr>" k r])
      (use s' s2 core_eqD [OF s'(2)] out(2-4) in \<open>simp_all add: transport_tick_def example_inst_def\<close>)
qed

definition example_server :: "bool \<Rightarrow> (user_stream, user_stream) transport" where
  "example_server b = (Transport 1000 (example_conn True) [] [])\<lparr>received_states := [\<lparr>timestamp = 1000, num = 0, state = []\<rparr>,
       \<lparr>timestamp = 1500, num = example_num b, state = [example_key]\<rparr>],
     sender := (TransportSender 1000 [])\<lparr>s_ack_num := example_num b, s_last_heard := 1500, pending_data_ack := True\<rparr>,
     connection := (example_conn True)\<lparr>last_roundtrip_success := 1000\<rparr>\<rparr>"

lemma example_receive:
  "receive_instruction example_ops 1500 (example_inst b) (Transport 1000 (example_conn True) [] []) = (example_server b, Inr ())"
  by (simp add: receive_instruction_def example_inst_def instruction_of_def example_server_def example_num_def
      Transport_def TransportSender_def process_acknowledgment_through_def process_throwaway_until_def accept_state_def
      example_diff_eq example_ops_def user_ops_def user_apply_string_def get_user_message_def get_keystroke_def get_resize_def
      apply_instruction_def example_key_def remote_heard_def set_ack_num_def set_data_ack_def assumed_def Let_def
      numeral_eq_Suc)

lemma example_take:
  "\<exists>t. get_remote_diff example_ops (example_server b) = Inr (t, example_diff)" "op_apply_string example_ops [] example_diff = Inr [example_key]"
  by (simp_all add: get_remote_diff_def example_server_def Transport_def example_ops_def user_ops_def user_diff_from_def
      subtract_front_def user_subtract_def example_diff_def example_key_def add_event_def UserEvent_byte_def
      user_apply_string_def get_user_message_def put_user_message_def put_user_instruction_def put_keys_def get_keystroke_def
      get_resize_def apply_instruction_def Let_def numeral_eq_Suc)


definition example_reach :: "nat \<Rightarrow> (user_event, user_stream) sync_system \<Rightarrow> bool" where
  "example_reach = sync_reach example_ops example_ops example_lib example_lib event_ok example_start"

lemma example_reach_step:
  "example_reach n S \<Longrightarrow> sync_step example_ops example_ops example_lib example_lib event_ok S S' \<Longrightarrow> example_reach (Suc n) S'"
  unfolding example_reach_def by (rule reach_step)

lemma example_reach_typed: "example_reach 1 (example_typed False)" "example_reach 2 (example_typed True)"
proof -
  have key: "event_ok example_key" by (simp add: event_ok_def example_key_def UserEvent_byte_def)
  have "sync_step example_ops example_ops example_lib example_lib event_ok example_start (example_typed False)"
    using client_types [where good = event_ok and e = example_key and S = example_start and s = "example_sender False"
        and ops = example_ops and rops = example_ops and lib = example_lib and rlib = example_lib] key
    by (simp add: example_typed_def example_start_def system_start_def Transport_def example_sender_def TransportSender_def
        change_current_state_def)
  then show one: "example_reach 1 (example_typed False)"
    using example_reach_step [of 0 example_start] by (simp add: example_reach_def reach_start)
  have "sync_step example_ops example_ops example_lib example_lib event_ok (example_typed False) (example_typed True)"
    using client_shutdown [of example_ops example_ops example_lib example_lib event_ok "example_typed False" 1500]
    by (simp add: example_typed_def example_start_def system_start_def Transport_def example_sender_def TransportSender_def
        start_shutdown_def)
  then show "example_reach 2 (example_typed True)" using example_reach_step [OF one] by (simp add: numeral_2_eq_2)
qed

text \<open>After the client's transmission.\<close>

lemma example_reach_sent:
  obtains S where "example_reach (if b then 3 else 2) S" "example_inst b \<in> up S" "server_end S = Transport 1000 (example_conn True) [] []"
    "sent_states (sender (client S)) = example_sent b" "current_state (sender (client S)) = [example_key]"
    "typed S = [example_key]" "delivered S = []" "received_states (client S) = [\<lparr>timestamp = 1000, num = 0, state = []\<rparr>]"
    "server_counter S = 0"
proof -
  obtain t k r where t: "transport_tick example_ops example_lib 2000 example_env 0 (client (example_typed b)) = Some (t, k, r)"
    "survives r" "sendable (connection t)" "current_state (sender t) = [example_key]" "sent_states (sender t) = example_sent b"
    "last_instruction (s_fragmenter (sender t)) = example_inst b" "received_states t = [\<lparr>timestamp = 1000, num = 0, state = []\<rparr>]"
    by (rule example_tick)
  let ?S = "(example_typed b)\<lparr>client := t, client_counter := k, client_clock := 2000,
      up := insert (last_instruction (s_fragmenter (sender t))) (up (example_typed b))\<rparr>"
  have "sync_step example_ops example_ops example_lib example_lib event_ok (example_typed b) ?S"
    by (rule client_ticks [where now = 2000 and env = example_env and r = r]) (use t in simp_all)
  then have "example_reach (if b then 3 else 2) ?S"
    using example_reach_step [OF example_reach_typed(1)] example_reach_step [OF example_reach_typed(2)]
    by (cases b) (simp_all add: numeral_2_eq_2 numeral_3_eq_3)
  then show thesis using that [of ?S] t by simp
qed

text \<open>After the server received it.\<close>

lemma example_reach_received:
  obtains S where "example_reach (if b then 4 else 3) S" "example_inst b \<in> up S" "server_end S = example_server b"
    "sent_states (sender (client S)) = example_sent b" "current_state (sender (client S)) = [example_key]"
    "typed S = [example_key]" "delivered S = []" "received_states (client S) = [\<lparr>timestamp = 1000, num = 0, state = []\<rparr>]"
    "server_counter S = 0"
proof -
  obtain S where S: "example_reach (if b then 3 else 2) S" "example_inst b \<in> up S" "server_end S = Transport 1000 (example_conn True) [] []"
    "sent_states (sender (client S)) = example_sent b" "current_state (sender (client S)) = [example_key]"
    "typed S = [example_key]" "delivered S = []" "received_states (client S) = [\<lparr>timestamp = 1000, num = 0, state = []\<rparr>]"
    "server_counter S = 0"
    by (rule example_reach_sent)
  let ?S = "S\<lparr>server_end := example_server b\<rparr>"
  have "sync_step example_ops example_ops example_lib example_lib event_ok S ?S"
    by (rule server_receives [OF S(2), where now = 1500 and r = "Inr ()"]) (use S(3) example_receive in simp_all)
  then have "example_reach (if b then 4 else 3) ?S"
    using example_reach_step [OF S(1)] by (cases b) (simp_all add: eval_nat_numeral)
  then show thesis using that [of ?S] S by simp
qed

text \<open>The server acknowledges a shutdown.\<close>

definition example_answer :: instruction where
  "example_answer = instruction_of 0 1 (- 1) 0 [] []"

lemma example_server_tick:
  obtains t k r where "transport_tick example_ops example_lib 1600 example_env 0 (example_server True) = Some (t, k, r)" "survives r"
    "last_instruction (s_fragmenter (sender t)) = example_answer" "received_states t = received_states (example_server True)"
    "last_receiver_state t = last_receiver_state (example_server True)"
proof -
  let ?c = "(example_conn True)\<lparr>last_roundtrip_success := 1000\<rparr>"
  let ?s0 = "(TransportSender 1000 [])\<lparr>s_ack_num := - 1, s_last_heard := 1500, pending_data_ack := True\<rparr> :: user_stream sender"
  define s where "s = ?s0\<lparr>next_ack_time := 1250, next_send_time := - 1\<rparr>"
  have c: "timeout ?c = 1000" "send_interval ?c = 250" "has_remote_addr ?c" "sendable ?c"
    using example_timers [of True] example_sendable [of True]
    by (simp_all add: timeout_def send_interval_def sendable_def example_conn_def)
  have timers: "calculate_timers example_ops 1600 ?c ?s0 = Inr s"
    by (simp add: s_def calculate_timers_def update_assumed_receiver_state_def rationalize_states_def subtract_front_def
        TransportSender_def example_ops_def user_ops_def user_subtract_def assumed_def send_timer_def ack_timer_def c(1,2) Let_def)
  have prep: "prepare_diff example_ops s = Inr (s, [])"
    by (simp add: s_def prepare_diff_def TransportSender_def assumed_def example_ops_def user_ops_def user_diff_from_def
        attempt_prospective_resend_optimization_def verify_diff_def put_user_message_def)
  define s1 where "s1 = add_sent_state 1600 1 (current_state s) s"
  have as: "assumed s1 = Inr \<lparr>timestamp = 1000, num = 0, state = []\<rparr>"
    by (simp add: s1_def s_def assumed_def TransportSender_def add_sent_state_def)
  obtain tries g pend k c' r where out: "send_in_fragments example_lib 1600 example_env [] 1 0 ?c s1
      = Some (s1\<lparr>shutdown_tries := tries, s_fragmenter := g, pending_data_ack := pend\<rparr>, k, c', r)"
      "survives r" "sendable c'" "last_instruction g = instruction_of 0 1 (- 1) 0 [] []"
    by (rule transmit_outcome [OF as example_chaff c(4) example_lib_fits, where d = "[]" and n = 1 and now = 1600 and counter = 0])
      (auto simp: s1_def s_def TransportSender_def Fragmenter_def add_sent_state_def)
  have num: "(if shutdown_in_progress s then - 1 else num (last (sent_states s)) + 1) = 1" "next_ack_time s \<le> 1600"
    by (simp_all add: s_def TransportSender_def)
  obtain s2 where s2: "send_empty_ack example_lib 1600 example_env 0 ?c s = Some (s2, k, c', r)" "s_fragmenter s2 = g"
    unfolding send_empty_ack_def Let_def num(1) s1_def [symmetric] out(1) using leD [OF num(2)] by (cases r) auto
  obtain s' where s': "tick example_ops example_lib 1600 example_env 0 ?c ?s0 = Some (s', k, c', r)" "core s' = core s2"
    using tick_ack [OF timers c(3) num(2) prep s2(1)] by blast
  show thesis
    by (rule that [of "(example_server True)\<lparr>sender := s', connection := c'\<rparr>" k r])
      (use s' s2(2) core_eqD [OF s'(2)] out(2,4) in \<open>simp_all add: transport_tick_def example_answer_def example_server_def example_num_def\<close>)
qed


lemma example_reach_shutdown:
  obtains S where "example_reach 6 S" "get_shutdown_acknowledged (sender (client S))" "typed S = [example_key]" "delivered S = []"
proof -
  obtain S where S: "example_reach (if True then 4 else 3) S" "example_inst True \<in> up S" "server_end S = example_server True"
    "sent_states (sender (client S)) = example_sent True" "current_state (sender (client S)) = [example_key]"
    "typed S = [example_key]" "delivered S = []" "received_states (client S) = [\<lparr>timestamp = 1000, num = 0, state = []\<rparr>]"
    "server_counter S = 0"
    by (rule example_reach_received)
  obtain t k r where t: "transport_tick example_ops example_lib 1600 example_env 0 (example_server True) = Some (t, k, r)" "survives r"
    "last_instruction (s_fragmenter (sender t)) = example_answer" "received_states t = received_states (example_server True)"
    "last_receiver_state t = last_receiver_state (example_server True)"
    by (rule example_server_tick)
  let ?S = "S\<lparr>server_end := t, server_counter := k, down := insert (last_instruction (s_fragmenter (sender t))) (down S)\<rparr>"
  have "sync_step example_ops example_ops example_lib example_lib event_ok S ?S"
    by (rule server_ticks [where now = 1600 and env = example_env and r = r]) (use t S in simp_all)
  then have r5: "example_reach 5 ?S" using example_reach_step [OF S(1)] by (simp add: eval_nat_numeral)
  have ne: "sent_states (sender (client S)) \<noteq> []" using S(4) by (simp add: example_sent_def)
  obtain s1 where s1: "process_acknowledgment_through (- 1) (sender (client S)) = Inr s1"
    "sent_states s1 = (if \<exists>x \<in> set (sent_states (sender (client S))). num x = - 1
        then filter (\<lambda>x. \<not> num x < - 1) (sent_states (sender (client S))) else sent_states (sender (client S)))"
    by (rule process_ack_nonempty [OF ne, of "- 1"]) (rule that, assumption+)
  obtain t' r' where t': "receive_instruction example_ops 1700 example_answer (client S) = (t', r')" by force
  have v: "protocol_version example_answer = MOSH_PROTOCOL_VERSION" "ack_num example_answer = - 1"
    by (simp_all add: example_answer_def instruction_of_def)
  have "sender_kept s1 (sender t')" using receive_sender [OF t' v(1)] v(2) s1(1) by simp
  moreover have "(0 :: u64) < - 1" by (simp add: word_neq_0_conv [symmetric])
  ultimately have front: "get_shutdown_acknowledged (sender t')"
    using s1(2) S(4) by (simp add: sender_kept_def get_shutdown_acknowledged_def example_sent_def example_num_def)
  have "r' = Inr ()"
    using t' S(8) s1(1) by (simp add: receive_instruction_def example_answer_def instruction_of_def process_throwaway_until_def
        accept_state_def)
  moreover have "example_answer \<in> down ?S" using t(3) by simp
  ultimately have "sync_step example_ops example_ops example_lib example_lib event_ok ?S (?S\<lparr>client := t'\<rparr>)"
    using t' by (intro client_receives [where inst = example_answer and now = 1700 and r = r']) simp_all
  then have "example_reach 6 (?S\<lparr>client := t'\<rparr>)" using example_reach_step [OF r5] by (simp add: eval_nat_numeral)
  then show thesis using that [of "?S\<lparr>client := t'\<rparr>"] front S(6,7) by simp
qed

section \<open>Instances\<close>

lemmas example_reach_defs = example_reach_def example_start_def example_ops_def

theorem input_delivered_in_order_witness:
  "\<exists>S. example_reach 4 S \<and> typed S = [example_key] \<and> delivered S = [example_key] \<and> prefix (delivered S) (typed S)"
proof -
  obtain S where S: "example_reach (if False then 4 else 3) S" "server_end S = example_server False" "typed S = [example_key]" "delivered S = []"
    by (rule example_reach_received) (rule that, assumption+)
  obtain t where t: "get_remote_diff example_ops (example_server False) = Inr (t, example_diff)" using example_take(1) by blast
  let ?S = "S\<lparr>server_end := t, delivered := delivered S @ [example_key]\<rparr>"
  have "sync_step example_ops example_ops example_lib example_lib event_ok S ?S"
    by (rule server_takes [where d = example_diff]) (use t S(2) example_take(2) in simp_all)
  then have r: "example_reach 4 ?S" using example_reach_step [OF S(1)] by (simp add: eval_nat_numeral)
  show ?thesis
    using input_delivered_in_order [OF codec_ok _ r [unfolded example_reach_defs]] r S(3,4) by (intro exI [of _ ?S]) simp
qed

theorem acknowledged_shutdown_loses_nothing_witness:
  "\<exists>S. example_reach 6 S \<and> get_shutdown_acknowledged (sender (client S)) \<and>
     (\<exists>t d es. get_remote_diff example_ops (server_end S) = Inr (t, d) \<and> user_apply_string get_user_message [] d = Inr es
        \<and> delivered S @ es = [example_key])"
proof -
  obtain S where S: "example_reach 6 S" "get_shutdown_acknowledged (sender (client S))" "typed S = [example_key]" "delivered S = []"
    by (rule example_reach_shutdown)
  show ?thesis
    using acknowledged_shutdown_loses_nothing [OF codec_ok _ S(1) [unfolded example_reach_defs] S(2)] S
    unfolding example_ops_def by (intro exI [of _ S]) simp
qed

theorem resend_from_acknowledged_state_witness:
  "\<exists>S. example_reach 2 S \<and> (\<exists>t t' d es. receive_instruction example_ops 5000 (example_inst False) (server_end S) = (t, Inr ())
    \<and> get_remote_diff example_ops t = Inr (t', d) \<and> user_apply_string get_user_message [] d = Inr es
    \<and> delivered S @ es = [example_key])"
proof -
  obtain S where S: "example_reach (if False then 3 else 2) S" "example_inst False \<in> up S" "server_end S = Transport 1000 (example_conn True) [] []"
    "sent_states (sender (client S)) = example_sent False" "current_state (sender (client S)) = [example_key]" "typed S = [example_key]"
    by (rule example_reach_sent) (rule that, assumption+)
  have reach: "example_reach 2 S" using S(1) by simp
  have inst: "protocol_version (example_inst False) = MOSH_PROTOCOL_VERSION" "old_num (example_inst False) = get_sent_state_acked (sender (client S))"
      "new_num (example_inst False) = get_sent_state_last (sender (client S))"
      "current_state (sender (client S)) = state (last (sent_states (sender (client S))))"
      "length (received_states (server_end S)) \<le> 1024"
    using S(3-5) by (simp_all add: example_inst_def instruction_of_def get_sent_state_acked_def get_sent_state_last_def example_sent_def
        Transport_def)
  show ?thesis
    using resend_from_acknowledged_state [OF codec_ok _ reach [unfolded example_reach_defs] S(2) inst] reach S(6)
    unfolding example_ops_def by (intro exI [of _ S]) simp
qed

theorem client_tick_never_aborts_witness:
  "\<exists>t k r. transport_tick example_ops example_lib 2000 example_env 0 (client (example_typed False)) = Some (t, k, r) \<and> survives r"
  using client_tick_never_aborts [OF codec_ok _ example_reach_typed(1) [unfolded example_reach_defs], of 2000 example_env]
    example_sendable example_env_ok example_lib_fits
  unfolding example_ops_def by auto

theorem server_receive_never_aborts_witness:
  "\<exists>S. example_reach 3 S \<and> snd (receive_instruction example_ops 9000 (example_inst False) (server_end S)) = Inr ()"
proof -
  obtain S where S: "example_reach (if False then 4 else 3) S" "example_inst False \<in> up S" by (rule example_reach_received) (rule that, assumption+)
  have reach: "example_reach 3 S" using S(1) by simp
  show ?thesis
    using server_receive_never_aborts [OF codec_ok _ reach [unfolded example_reach_defs] S(2)] reach
    unfolding example_ops_def by (intro exI [of _ S]) (simp add: example_inst_def instruction_of_def)
qed

section \<open>Limits of the queues and of the peer's good will\<close>

text \<open>C20. The client's queue of sent states: in every reachable state it has between 1 and 32 entries, with numbers and times in
  order and none from the future, and the iterator that a tick works with points into it.\<close>

theorem sent_queue_bounded:
  assumes "protobuf_ok ser parse" "n + 2 < 2 ^ 64"
    "sync_reach (user_ops ser parse) rops lib rlib event_ok (system_start now now' c c' initial) n S"
  shows "sent_states (sender (client S)) \<noteq> [] \<and> length (sent_states (sender (client S))) \<le> 32
    \<and> sorted (map num (sent_states (sender (client S)))) \<and> sorted (map timestamp (sent_states (sender (client S))))
    \<and> (\<forall>x \<in> set (sent_states (sender (client S))). timestamp x \<le> client_clock S)
    \<and> (\<forall>later conn. client_clock S \<le> later \<longrightarrow>
        (\<exists>s x. calculate_timers (user_ops ser parse) later conn (sender (client S)) = Inr s \<and> assumed s = Inr x))"
proof -
  obtain H where inv: "sync_ok (\<lambda>x. ser (foldl add_event [] x)) (\<lambda>x. list_all event_ok x \<and> protobuf_ok ser parse) H n S"
    using user_log.reach_ok [OF assms(3,2)] assms(1) by auto
  note D = sync_okD(1) [OF inv]
  obtain base where q: "queue_ok H base (client_clock S) (sent_states (sender (client S)))" using D by (auto simp: sender_ok_def)
  have "\<exists>s x. calculate_timers (user_ops ser parse) later conn (sender (client S)) = Inr s \<and> assumed s = Inr x"
    if "client_clock S \<le> later" for later conn
  proof -
    have ok: "sender_ok (\<lambda>x. ser (foldl add_event [] x)) (\<lambda>x. list_all event_ok x \<and> protobuf_ok ser parse) H (typed S) later n (sender (client S))"
      using sender_ok_mono [OF D that order_refl] .
    obtain s a where s: "calculate_timers (user_ops ser parse) later conn (sender (client S)) = Inr s"
        "sender_ok (\<lambda>x. ser (foldl add_event [] x)) (\<lambda>x. list_all event_ok x \<and> protobuf_ok ser parse) H (typed S) later n s"
        "assumed_receiver_state s = Some a" "a = 0 \<or> a = length (sent_states s) - 1"
        "map num (sent_states s) = map num (sent_states (sender (client S)))"
      by (rule user_log.timers_log [OF ok])
    have "sent_states s \<noteq> []" using s(2) by (auto simp: sender_ok_def queue_ok_def)
    then have "\<exists>x. assumed s = Inr x" using s(3,4) by (auto simp: assumed_def)
    then show ?thesis using s(1) by blast
  qed
  then show ?thesis using q by (simp add: queue_ok_def)
qed

theorem sent_queue_bounded_witness:
  "example_reach 1 (example_typed False) \<and> length (sent_states (sender (client (example_typed False)))) \<le> 32"
  using sent_queue_bounded [OF codec_ok _ example_reach_typed(1) [unfolded example_reach_defs]] example_reach_typed(1) by simp

text \<open>C22. The receiver trusts the throwaway number of an authenticated peer.  Take an instruction of the right protocol version
  for a state the receiver does not have, relative to a reference state it has.  When its throwaway number lies above the
  number of that reference state, and not above every state the receiver holds (else \<^verbatim>\<open>fatal_assert\<close> ends the program), and the
  queue is within its limit of 1024 states, \<^verbatim>\<open>recv\<close> erases the reference state from its list and then reads it through
  the iterator it has kept: undefined behaviour.\<close>

theorem throwaway_above_reference_undefined:
  assumes "protocol_version inst = MOSH_PROTOCOL_VERSION" "sent_states (sender t) \<noteq> []"
    "new_num inst \<notin> num ` set (received_states t)" "old_num inst \<in> num ` set (received_states t)"
    "old_num inst < throwaway_num inst" "\<exists>x \<in> set (received_states t). throwaway_num inst \<le> num x"
    "length (received_states t) \<le> 1024"
  shows "snd (receive_instruction ops now inst t) = Inl UndefinedBehaviour"
proof -
  obtain s1 where s1: "process_acknowledgment_through (ack_num inst) (sender t) = Inr s1"
    by (rule process_ack_nonempty [OF assms(2), of "ack_num inst"])
  obtain t' r where run: "receive_instruction ops now inst t = (t', r)" by force
  have "r = Inl UndefinedBehaviour"
    using run assms(1) s1
  proof (cases rule: receive_paths)
    case (fatal ref)
    then show ?thesis using assms(6) by (auto simp: filter_empty_conv not_less)
  next
    case (full ref)
    then show ?thesis
      using assms(7) length_filter_le [of "\<lambda>x. \<not> num x < throwaway_num inst" "received_states t"] by linarith
  next
    case (accepted ref q)
    then have "\<not> (\<exists>i \<in> set (filter (\<lambda>x. \<not> num x < throwaway_num inst) (received_states t)). num i = num ref)"
      using assms(5) by auto
    with accepted(5) show ?thesis by (auto simp: accept_state_def)
  qed (use assms(3,4) in auto)
  then show ?thesis using run by simp
qed

theorem throwaway_above_reference_undefined_witness:
  "snd (receive_instruction example_ops 4000 (instruction_of 0 2 0 1 [] []) (example_server False)) = Inl UndefinedBehaviour"
  by (rule throwaway_above_reference_undefined)
    (simp_all add: instruction_of_def example_server_def TransportSender_def example_num_def)

end
