(* ===== verification/Cells.thy ===== *)
theory Cells
  imports C_Library
begin

text \<open>
  What a screen is made of (src/mosh/src/terminal/terminalframebuffer.h and terminalframebuffer.cc): renditions with their
  printed form, hyperlinks, cells and rows.

  Rows are shared between framebuffers through pointers and copied before they are written, so a row is a value here; the
  number \<^verbatim>\<open>Row::get_gen\<close> draws from its static counter is an argument.  \<^verbatim>\<open>wcrtomb\<close> belongs to the C library and is an
  argument.  An access outside a vector is \<open>UndefinedBehaviour\<close>.
\<close>

section \<open>Renditions\<close>

datatype attribute_type = bold | faint | italic | underlined | blink | inverse | invisible

primrec attr_bit :: "attribute_type \<Rightarrow> nat" where
  "attr_bit bold = 0"
| "attr_bit faint = 1"
| "attr_bit italic = 2"
| "attr_bit underlined = 3"
| "attr_bit blink = 4"
| "attr_bit inverse = 5"
| "attr_bit invisible = 6"

record renditions =
  foreground_color :: "25 word"
  background_color :: "25 word"
  attributes :: byte

definition Renditions :: "u32 \<Rightarrow> renditions" where
  "Renditions s_background = \<lparr>foreground_color = 0, background_color = ucast s_background, attributes = 0\<rparr>"

definition true_color_mask :: u32 where "true_color_mask = 0x1000000"

definition make_true_color :: "u32 \<Rightarrow> u32 \<Rightarrow> u32 \<Rightarrow> u32" where
  "make_true_color r g b = true_color_mask OR push_bit 16 r OR push_bit 8 g OR b"

definition is_true_color :: "u32 \<Rightarrow> bool" where
  "is_true_color color \<longleftrightarrow> color AND true_color_mask \<noteq> 0"

definition get_background_rendition :: "renditions \<Rightarrow> u32" where
  "get_background_rendition r = ucast (background_color r)"

definition set_attribute :: "attribute_type \<Rightarrow> bool \<Rightarrow> renditions \<Rightarrow> renditions" where
  "set_attribute attr val r =
     r\<lparr>attributes := (if val then attributes r OR push_bit (attr_bit attr) 1
                      else attributes r AND NOT (push_bit (attr_bit attr) 1))\<rparr>"

definition get_attribute :: "attribute_type \<Rightarrow> renditions \<Rightarrow> bool" where
  "get_attribute attr r \<longleftrightarrow> attributes r AND push_bit (attr_bit attr) 1 \<noteq> 0"

definition set_rendition :: "u32 \<Rightarrow> renditions \<Rightarrow> renditions" where
  "set_rendition num r =
     (if num = 0 then r\<lparr>attributes := 0, foreground_color := 0, background_color := 0\<rparr>
      else if num = 39 then r\<lparr>foreground_color := 0\<rparr>
      else if num = 49 then r\<lparr>background_color := 0\<rparr>
      else if 30 \<le> num \<and> num \<le> 37 then r\<lparr>foreground_color := ucast num\<rparr>
      else if 40 \<le> num \<and> num \<le> 47 then r\<lparr>background_color := ucast num\<rparr>
      else if 90 \<le> num \<and> num \<le> 97 then r\<lparr>foreground_color := ucast (num - 90 + 38)\<rparr>
      else if 100 \<le> num \<and> num \<le> 107 then r\<lparr>background_color := ucast (num - 100 + 48)\<rparr>
      else
        (let value = num < 9 in
         if num = 1 \<or> num = 22 then set_attribute bold value r
         else if num = 3 \<or> num = 23 then set_attribute italic value r
         else if num = 4 \<or> num = 24 then set_attribute underlined value r
         else if num = 5 \<or> num = 25 then set_attribute blink value r
         else if num = 7 \<or> num = 27 then set_attribute inverse value r
         else if num = 8 \<or> num = 28 then set_attribute invisible value r
         else r))"

text \<open>The argument of the colour setters is an \<^verbatim>\<open>int\<close>; its sign matters for a true colour whose red part is too large.\<close>

definition set_foreground_color :: "u32 \<Rightarrow> renditions \<Rightarrow> renditions" where
  "set_foreground_color num r =
     (if 0 \<le> sint num \<and> sint num \<le> 255 then r\<lparr>foreground_color := 30 + ucast num\<rparr>
      else if is_true_color num then r\<lparr>foreground_color := ucast num\<rparr>
      else r)"

definition set_background_color :: "u32 \<Rightarrow> renditions \<Rightarrow> renditions" where
  "set_background_color num r =
     (if 0 \<le> sint num \<and> sint num \<le> 255 then r\<lparr>background_color := 40 + ucast num\<rparr>
      else if is_true_color num then r\<lparr>background_color := ucast num\<rparr>
      else r)"

definition color_byte :: "nat \<Rightarrow> 25 word \<Rightarrow> int" where
  "color_byte n c = uint (drop_bit n c AND 0xff)"

definition sgr_foreground :: "25 word \<Rightarrow> string" where
  "sgr_foreground c =
     (if c = 0 then []
      else if is_true_color (ucast c)
      then '';38;2;'' @ show_int (color_byte 16 c) @ '';'' @ show_int (color_byte 8 c) @ '';'' @ show_int (color_byte 0 c)
      else if c > 37 then '';38;5;'' @ show_int (uint c - 30)
      else '';'' @ show_int (uint c))"

definition sgr_background :: "25 word \<Rightarrow> string" where
  "sgr_background c =
     (if c = 0 then []
      else if is_true_color (ucast c)
      then '';48;2;'' @ show_int (color_byte 16 c) @ '';'' @ show_int (color_byte 8 c) @ '';'' @ show_int (color_byte 0 c)
      else if c > 47 then '';48;5;'' @ show_int (uint c - 40)
      else '';'' @ show_int (uint c))"

definition ESC :: char where "ESC = char_of (0x1B :: nat)"

definition sgr :: "renditions \<Rightarrow> string" where
  "sgr r =
     ESC # ''[0''
       @ (if get_attribute bold r then '';1'' else [])
       @ (if get_attribute italic r then '';3'' else [])
       @ (if get_attribute underlined r then '';4'' else [])
       @ (if get_attribute blink r then '';5'' else [])
       @ (if get_attribute inverse r then '';7'' else [])
       @ (if get_attribute invisible r then '';8'' else [])
       @ sgr_foreground (foreground_color r) @ sgr_background (background_color r) @ ''m''"

section \<open>Hyperlinks\<close>

text \<open>A hyperlink is its parameters and its URL, or nothing.\<close>

type_synonym hyperlink = "(string \<times> string) option"

definition Hyperlink :: "string \<Rightarrow> string \<Rightarrow> hyperlink" where
  "Hyperlink params url = (if url = [] then None else Some (params, url))"

definition osc8 :: "hyperlink \<Rightarrow> string" where
  "osc8 h =
     ESC # '']8;'' @ (case h of None \<Rightarrow> [] | Some (params, url) \<Rightarrow> params) @ '';''
       @ (case h of None \<Rightarrow> [] | Some (params, url) \<Rightarrow> url) @ [ESC, char_of (0x5C :: nat)]"

section \<open>Cells\<close>

record cell =
  contents :: bytes
  cell_renditions :: renditions
  cell_hyperlink :: hyperlink
  wide :: bool
  fallback :: bool
  wrap :: bool

definition Cell :: "u32 \<Rightarrow> cell" where
  "Cell background = \<lparr>contents = [], cell_renditions = Renditions background, cell_hyperlink = None,
     wide = False, fallback = False, wrap = False\<rparr>"

definition Cell_reset :: "u32 \<Rightarrow> cell \<Rightarrow> cell" where
  "Cell_reset background c = c\<lparr>contents := [], cell_renditions := Renditions background, cell_hyperlink := None,
     wide := False, fallback := False, wrap := False\<rparr>"

definition full :: "cell \<Rightarrow> bool" where
  "full c \<longleftrightarrow> length (contents c) \<ge> 32"

definition is_blank :: "cell \<Rightarrow> bool" where
  "is_blank c \<longleftrightarrow> contents c = [] \<or> contents c = [0x20] \<or> contents c = [0xC2, 0xA0]"

definition contents_match :: "cell \<Rightarrow> cell \<Rightarrow> bool" where
  "contents_match c other \<longleftrightarrow> (is_blank c \<and> is_blank other) \<or> contents c = contents other"

definition isprint_iso8859_1 :: "int \<Rightarrow> bool" where
  "isprint_iso8859_1 c \<longleftrightarrow> (c \<le> 0xff \<and> c \<ge> 0xa0) \<or> (c \<le> 0x7e \<and> c \<ge> 0x20)"

text \<open>\<^verbatim>\<open>wcrtomb\<close> is \<open>None\<close> where it returns \<^verbatim>\<open>(size_t)-1\<close>, which the source then uses as a length.\<close>

definition append :: "(int \<Rightarrow> bytes option) \<Rightarrow> int \<Rightarrow> cell \<Rightarrow> cell result" where
  "append wcrtomb c cl =
     (if 0 \<le> c \<and> c \<le> 0x7f then Inr (cl\<lparr>contents := contents cl @ [of_int c]\<rparr>)
      else case wcrtomb c of
             None \<Rightarrow> Inl UndefinedBehaviour
           | Some tmp \<Rightarrow> Inr (cl\<lparr>contents := contents cl @ tmp\<rparr>))"

definition print_grapheme :: "cell \<Rightarrow> bytes" where
  "print_grapheme c =
     (if contents c = [] then [0x20] else (if fallback c then [0xC2, 0xA0] else []) @ contents c)"

definition compare :: "cell \<Rightarrow> cell \<Rightarrow> bool" where
  "compare c other =
     (print_grapheme c \<noteq> print_grapheme other \<or> wide c \<noteq> wide other
      \<or> cell_renditions c \<noteq> cell_renditions other \<or> wrap c \<noteq> wrap other)"

section \<open>Rows\<close>

record row =
  cells :: "cell list"
  gen :: u64

definition Row :: "nat \<Rightarrow> u32 \<Rightarrow> u64 \<Rightarrow> row" where
  "Row s_width background g = \<lparr>cells = replicate s_width (Cell background), gen = g\<rparr>"

definition Row_insert_cell :: "int \<Rightarrow> u32 \<Rightarrow> row \<Rightarrow> row result" where
  "Row_insert_cell col background r =
     (if 0 \<le> col \<and> col \<le> int (length (cells r))
      then Inr (r\<lparr>cells := butlast (take (nat col) (cells r) @ Cell background # drop (nat col) (cells r))\<rparr>)
      else Inl UndefinedBehaviour)"

definition Row_delete_cell :: "int \<Rightarrow> u32 \<Rightarrow> row \<Rightarrow> row result" where
  "Row_delete_cell col background r =
     (if 0 \<le> col \<and> col \<le> int (length (cells r))
      then (let cs = cells r @ [Cell background] in Inr (r\<lparr>cells := take (nat col) cs @ drop (nat col + 1) cs\<rparr>))
      else Inl UndefinedBehaviour)"

definition Row_reset :: "u32 \<Rightarrow> u64 \<Rightarrow> row \<Rightarrow> row" where
  "Row_reset background g r = r\<lparr>gen := g, cells := map (Cell_reset background) (cells r)\<rparr>"

definition set_wrap :: "bool \<Rightarrow> row \<Rightarrow> row result" where
  "set_wrap w r =
     (if cells r = [] then Inl UndefinedBehaviour
      else Inr (r\<lparr>cells := butlast (cells r) @ [(last (cells r))\<lparr>wrap := w\<rparr>]\<rparr>))"

section \<open>Well-formedness\<close>

text \<open>The colours the setters produce: none, one of the 256 indexed colours above the offset, or a true colour.  The bits of the
  attributes that have no setter stay clear.\<close>

definition color_ok :: "25 word \<Rightarrow> 25 word \<Rightarrow> bool" where
  "color_ok offset c \<longleftrightarrow> c = 0 \<or> (offset \<le> c \<and> c \<le> offset + 255) \<or> bit c 24"

definition rend_ok :: "renditions \<Rightarrow> bool" where
  "rend_ok r \<longleftrightarrow> color_ok 30 (foreground_color r) \<and> color_ok 40 (background_color r)
     \<and> \<not> bit (attributes r) 1 \<and> \<not> bit (attributes r) 7"

definition link_char :: "char \<Rightarrow> bool" where
  "link_char ch \<longleftrightarrow> 32 \<le> (of_char ch :: nat) \<and> (of_char ch :: nat) \<le> 126"

definition link_ok :: "hyperlink \<Rightarrow> bool" where
  "link_ok h = (case h of None \<Rightarrow> True | Some (ps, url) \<Rightarrow>
     url \<noteq> [] \<and> list_all link_char (ps @ url) \<and> CHR '';'' \<notin> set ps \<and> length ps + length url + 3 \<le> 16384)"

definition bg_ok :: "u32 \<Rightarrow> bool" where
  "bg_ok bg \<longleftrightarrow> color_ok 40 (ucast bg)"

definition cell_ok :: "cell \<Rightarrow> bool" where
  "cell_ok c \<longleftrightarrow> (wide c \<longrightarrow> contents c \<noteq> []) \<and> rend_ok (cell_renditions c) \<and> link_ok (cell_hyperlink c)"

definition row_ok :: "nat \<Rightarrow> row \<Rightarrow> bool" where
  "row_ok w r \<longleftrightarrow> length (cells r) = w \<and> list_all cell_ok (cells r)"

lemma color_ok_0 [simp]: "color_ok n 0"
  by (simp add: color_ok_def)

lemma rend_ok_Renditions [simp]: "rend_ok (Renditions bg) = bg_ok bg"
  by (simp add: rend_ok_def Renditions_def bg_ok_def)

lemma bg_ok_0 [simp]: "bg_ok 0"
  by (simp add: bg_ok_def)

lemma link_ok_None [simp]: "link_ok None"
  by (simp add: link_ok_def)

lemma ucast_u32_25: "(ucast (ucast (c :: 25 word) :: u32) :: 25 word) = c"
  by (rule bit_word_eqI) (simp add: bit_simps)

lemma rend_ok_background: "rend_ok r \<Longrightarrow> bg_ok (get_background_rendition r)"
  by (simp add: rend_ok_def bg_ok_def get_background_rendition_def ucast_u32_25)

lemma bit_true_color_mask: "bit true_color_mask n \<longleftrightarrow> n = 24"
proof -
  have m: "true_color_mask = push_bit 24 1" by (simp add: true_color_mask_def)
  show ?thesis unfolding m bit_push_bit_iff by (auto simp: bit_1_iff)
qed

lemma is_true_color_iff: "is_true_color c \<longleftrightarrow> bit c 24"
proof -
  have "bit (c AND true_color_mask) n \<longleftrightarrow> bit c 24 \<and> n = 24" for n
    by (auto simp: bit_and_iff bit_true_color_mask)
  then show ?thesis unfolding is_true_color_def by (metis bit_0_eq bot_apply bot_bool_def bit_eqI)
qed

lemma bit_ucast_24: "bit (ucast (c :: u32) :: 25 word) 24 = bit c 24" "bit (ucast (c' :: 25 word) :: u32) 24 = bit c' 24"
  by (simp_all add: bit_ucast_iff)

lemma small_color:
  assumes "0 \<le> sint (num :: u32)" "sint num \<le> 255"
  obtains n where "n \<le> 255" "num = of_nat n" "(ucast num :: 25 word) = of_nat n"
proof -
  have "num = of_int (sint num)" by simp
  then have n: "num = of_nat (nat (sint num))" using assms(1) by (metis of_int_of_nat_eq nat_0_le)
  have "(ucast (of_nat k :: u32) :: 25 word) = of_nat k" for k
    by (simp add: unsigned_of_nat word_of_nat_eq_iff take_bit_take_bit)
  then have "(ucast num :: 25 word) = of_nat (nat (sint num))" by (subst n) simp
  then show ?thesis using that [of "nat (sint num)"] assms n by simp
qed

lemma color_ok_indexed: "n \<le> 255 \<Longrightarrow> k \<le> 255 \<Longrightarrow> color_ok (of_nat k) (of_nat k + of_nat n)"
  by (simp add: color_ok_def word_le_nat_alt unat_word_ariths unsigned_of_nat take_bit_eq_mod
      flip: of_nat_add)

lemma set_foreground_color_ok: "rend_ok r \<Longrightarrow> rend_ok (set_foreground_color num r)"
proof -
  assume r: "rend_ok r"
  show ?thesis
  proof (cases "0 \<le> sint num \<and> sint num \<le> 255")
    case True
    then obtain n where "n \<le> 255" "(ucast num :: 25 word) = of_nat n" using small_color by blast
    then show ?thesis
      using True r color_ok_indexed [of n 30] by (simp add: set_foreground_color_def rend_ok_def)
  next
    case False
    moreover have "is_true_color num \<Longrightarrow> color_ok 30 (ucast num)"
      by (simp add: is_true_color_iff color_ok_def bit_ucast_24)
    ultimately show ?thesis
      using r by (auto simp: set_foreground_color_def rend_ok_def)
  qed
qed

lemma set_background_color_ok: "rend_ok r \<Longrightarrow> rend_ok (set_background_color num r)"
proof -
  assume r: "rend_ok r"
  show ?thesis
  proof (cases "0 \<le> sint num \<and> sint num \<le> 255")
    case True
    then obtain n where "n \<le> 255" "(ucast num :: 25 word) = of_nat n" using small_color by blast
    then show ?thesis
      using True r color_ok_indexed [of n 40] by (simp add: set_background_color_def rend_ok_def)
  next
    case False
    moreover have "is_true_color num \<Longrightarrow> color_ok 40 (ucast num)"
      by (simp add: is_true_color_iff color_ok_def bit_ucast_24)
    ultimately show ?thesis
      using r by (auto simp: set_background_color_def rend_ok_def)
  qed
qed

lemma set_attribute_ok:
  assumes "rend_ok r" "attr \<noteq> faint"
  shows "rend_ok (set_attribute attr v r)"
  using assms
  by (cases attr) (auto simp: set_attribute_def rend_ok_def bit_or_iff bit_and_iff bit_not_iff bit_push_bit_iff bit_1_iff)

lemma color_ok_ucast:
  assumes "k \<le> unat (num :: u32)" "unat num \<le> k + 255" "k \<le> 255"
  shows "color_ok (of_nat k) (ucast num)"
proof -
  have "(ucast num :: 25 word) = of_nat (unat num)" by simp
  also have "\<dots> = of_nat k + of_nat (unat num - k)" using assms(1) by (simp flip: of_nat_add)
  finally show ?thesis using color_ok_indexed [of "unat num - k" k] assms by simp
qed

lemma rend_ok_if: "(b \<Longrightarrow> rend_ok x) \<Longrightarrow> (\<not> b \<Longrightarrow> rend_ok y) \<Longrightarrow> rend_ok (if b then x else y)"
  by simp

lemma set_rendition_ok:
  assumes "rend_ok r"
  shows "rend_ok (set_rendition num r)"
proof -
  have fg: "color_ok 30 (ucast num)" if "30 \<le> num" "num \<le> 37"
    using color_ok_ucast [of 30 num] that by (simp add: word_le_nat_alt)
  have bg: "color_ok 40 (ucast num)" if "40 \<le> num" "num \<le> 47"
    using color_ok_ucast [of 40 num] that by (simp add: word_le_nat_alt)
  have fg': "color_ok 30 (ucast (num - 90 + 38))" if "90 \<le> num" "num \<le> 97"
  proof -
    have e: "num - 90 + 38 = num - 52" by simp
    have "52 \<le> num" using that(1) by (rule order_trans [rotated]) simp
    then have "unat (num - 52) = unat num - 52" by (simp add: unat_sub)
    then show ?thesis using color_ok_ucast [of 30 "num - 52"] that unfolding e by (simp add: word_le_nat_alt)
  qed
  have bg': "color_ok 40 (ucast (num - 100 + 48))" if "100 \<le> num" "num \<le> 107"
  proof -
    have e: "num - 100 + 48 = num - 52" by simp
    have "52 \<le> num" using that(1) by (rule order_trans [rotated]) simp
    then have "unat (num - 52) = unat num - 52" by (simp add: unat_sub)
    then show ?thesis using color_ok_ucast [of 40 "num - 52"] that unfolding e by (simp add: word_le_nat_alt)
  qed
  have put: "color_ok 30 c \<Longrightarrow> rend_ok (r\<lparr>foreground_color := c\<rparr>)" "color_ok 40 c \<Longrightarrow> rend_ok (r\<lparr>background_color := c\<rparr>)" for c
    using assms by (simp_all add: rend_ok_def)
  have zero: "rend_ok (r\<lparr>attributes := 0, foreground_color := 0, background_color := 0\<rparr>)"
    by (simp add: rend_ok_def)
  show ?thesis
    unfolding set_rendition_def Let_def
    by (intro rend_ok_if zero put color_ok_0 assms set_attribute_ok fg bg fg' bg'; (elim conjE, assumption | simp))
qed

lemma cell_ok_Cell [simp]: "bg_ok bg \<Longrightarrow> cell_ok (Cell bg)"
  by (simp add: cell_ok_def Cell_def)

lemma cell_ok_reset [simp]: "bg_ok bg \<Longrightarrow> cell_ok (Cell_reset bg c)"
  by (simp add: cell_ok_def Cell_reset_def)

lemma cell_ok_wrap [simp]: "cell_ok (c\<lparr>wrap := w\<rparr>) = cell_ok c"
  by (simp add: cell_ok_def)

end
