(* ===== verification/Framebuffer.thy ===== *)
theory Framebuffer
  imports Cells
begin

text \<open>
  The screen of the terminal emulator (src/mosh/src/terminal/terminalframebuffer.h and terminalframebuffer.cc): the draw state
  (cursor, tab stops, scrolling region, modes) and the framebuffer.

  C++ \<^verbatim>\<open>int\<close>s are integers.  Every value the code computes lies within the screen size plus 65535, the largest parameter of a
  control sequence, so for the 16-bit sizes of a terminal none of them wraps; for a screen within 65535 of the largest
  \<^verbatim>\<open>int\<close> the sums of a cursor motion (\<open>move_row\<close>, \<open>move_col\<close>) would, and the properties of whole sessions are stated for
  16-bit sizes.  The static counter behind \<^verbatim>\<open>Row::get_gen\<close> is
  a field of the framebuffer.  A checked access (\<^verbatim>\<open>at\<close>) out of range is \<open>OutOfRange\<close>, an unchecked one
  \<open>UndefinedBehaviour\<close>.
\<close>

section \<open>Vectors\<close>

definition vec_at :: "'a list \<Rightarrow> int \<Rightarrow> 'a result" where
  "vec_at xs i = (if 0 \<le> i \<and> i < int (length xs) then Inr (xs ! nat i) else Inl UndefinedBehaviour)"

definition vec_set :: "'a list \<Rightarrow> int \<Rightarrow> 'a \<Rightarrow> 'a list result" where
  "vec_set xs i v = (if 0 \<le> i \<and> i < int (length xs) then Inr (xs[nat i := v]) else Inl UndefinedBehaviour)"

definition vec_resize :: "nat \<Rightarrow> 'a \<Rightarrow> 'a list \<Rightarrow> 'a list" where
  "vec_resize n v xs = take n xs @ replicate (n - length xs) v"

definition vec_erase :: "int \<Rightarrow> int \<Rightarrow> 'a list \<Rightarrow> 'a list result" where
  "vec_erase start n xs =
     (if 0 \<le> start \<and> 0 \<le> n \<and> start + n \<le> int (length xs)
      then Inr (take (nat start) xs @ drop (nat (start + n)) xs) else Inl UndefinedBehaviour)"

definition vec_insert :: "int \<Rightarrow> int \<Rightarrow> 'a \<Rightarrow> 'a list \<Rightarrow> 'a list result" where
  "vec_insert start n v xs =
     (if 0 \<le> start \<and> 0 \<le> n \<and> start \<le> int (length xs)
      then Inr (take (nat start) xs @ replicate (nat n) v @ drop (nat start) xs) else Inl UndefinedBehaviour)"

section \<open>The draw state\<close>

record saved_cursor =
  saved_col :: int
  saved_row :: int
  saved_renditions :: renditions
  saved_auto_wrap_mode :: bool
  saved_origin_mode :: bool

definition SavedCursor :: saved_cursor where
  "SavedCursor = \<lparr>saved_col = 0, saved_row = 0, saved_renditions = Renditions 0, saved_auto_wrap_mode = True,
     saved_origin_mode = False\<rparr>"

record draw_state =
  width :: int
  height :: int
  cursor_col :: int
  cursor_row :: int
  combining_char_col :: int
  combining_char_row :: int
  default_tabs :: bool
  tabs :: "bool list"
  scrolling_region_top_row :: int
  scrolling_region_bottom_row :: int
  ds_renditions :: renditions
  ds_hyperlink :: hyperlink
  save :: saved_cursor
  next_print_will_wrap :: bool
  origin_mode :: bool
  auto_wrap_mode :: bool
  insert_mode :: bool
  cursor_visible :: bool
  reverse_video :: bool
  bracketed_paste :: bool
  mouse_reporting_mode :: int
  mouse_focus_event :: bool
  mouse_alternate_scroll :: bool
  mouse_encoding_mode :: int
  application_mode_cursor_keys :: bool

definition MOUSE_REPORTING_NONE :: int where "MOUSE_REPORTING_NONE = 0"
definition MOUSE_ENCODING_DEFAULT :: int where "MOUSE_ENCODING_DEFAULT = 0"

definition reinitialize_tabs :: "nat \<Rightarrow> draw_state \<Rightarrow> draw_state result" where
  "reinitialize_tabs start d =
     bindE (assertE (default_tabs d) AssertFailed) (\<lambda>_.
     Inr (d\<lparr>tabs := map (\<lambda>i. if i < start then tabs d ! i else i mod 8 = 0) [0..<length (tabs d)]\<rparr>))"

definition DrawState :: "int \<Rightarrow> int \<Rightarrow> draw_state result" where
  "DrawState s_width s_height =
     reinitialize_tabs 0
       \<lparr>width = s_width, height = s_height, cursor_col = 0, cursor_row = 0, combining_char_col = 0, combining_char_row = 0,
        default_tabs = True, tabs = replicate (nat s_width) False, scrolling_region_top_row = 0,
        scrolling_region_bottom_row = s_height - 1, ds_renditions = Renditions 0, ds_hyperlink = None, save = SavedCursor,
        next_print_will_wrap = False, origin_mode = False, auto_wrap_mode = True, insert_mode = False, cursor_visible = True,
        reverse_video = False, bracketed_paste = False, mouse_reporting_mode = MOUSE_REPORTING_NONE,
        mouse_focus_event = False, mouse_alternate_scroll = False, mouse_encoding_mode = MOUSE_ENCODING_DEFAULT,
        application_mode_cursor_keys = False\<rparr>"

definition limit_top :: "draw_state \<Rightarrow> int" where
  "limit_top d = (if origin_mode d then scrolling_region_top_row d else 0)"

definition limit_bottom :: "draw_state \<Rightarrow> int" where
  "limit_bottom d = (if origin_mode d then scrolling_region_bottom_row d else height d - 1)"

definition new_grapheme :: "draw_state \<Rightarrow> draw_state" where
  "new_grapheme d = d\<lparr>combining_char_col := cursor_col d, combining_char_row := cursor_row d\<rparr>"

definition snap_cursor_to_border :: "draw_state \<Rightarrow> draw_state" where
  "snap_cursor_to_border d =
     (let r1 = (if cursor_row d < limit_top d then limit_top d else cursor_row d);
          r2 = (if r1 > limit_bottom d then limit_bottom d else r1);
          c1 = (if cursor_col d < 0 then 0 else cursor_col d);
          c2 = (if c1 \<ge> width d then width d - 1 else c1)
      in d\<lparr>cursor_row := r2, cursor_col := c2\<rparr>)"

definition move_row :: "int \<Rightarrow> bool \<Rightarrow> draw_state \<Rightarrow> draw_state" where
  "move_row N relative d =
     (let d1 = d\<lparr>cursor_row := (if relative then cursor_row d + N else N + limit_top d)\<rparr>
      in (new_grapheme (snap_cursor_to_border d1))\<lparr>next_print_will_wrap := False\<rparr>)"

definition move_col :: "int \<Rightarrow> bool \<Rightarrow> bool \<Rightarrow> draw_state \<Rightarrow> draw_state" where
  "move_col N relative implicit d =
     (let d1 = (if implicit then new_grapheme d else d);
          d2 = d1\<lparr>cursor_col := (if relative then cursor_col d1 + N else N)\<rparr>;
          d3 = (if implicit then d2\<lparr>next_print_will_wrap := (cursor_col d2 \<ge> width d2)\<rparr> else d2);
          d4 = snap_cursor_to_border d3
      in if implicit then d4 else (new_grapheme d4)\<lparr>next_print_will_wrap := False\<rparr>)"

definition set_tab :: "draw_state \<Rightarrow> draw_state result" where
  "set_tab d = bindE (vec_set (tabs d) (cursor_col d) True) (\<lambda>ts. Inr (d\<lparr>tabs := ts\<rparr>))"

definition clear_tab :: "int \<Rightarrow> draw_state \<Rightarrow> draw_state result" where
  "clear_tab col d = bindE (vec_set (tabs d) col False) (\<lambda>ts. Inr (d\<lparr>tabs := ts\<rparr>))"

definition clear_default_tabs :: "draw_state \<Rightarrow> draw_state" where
  "clear_default_tabs d = d\<lparr>default_tabs := False\<rparr>"

text \<open>The two loops of \<^verbatim>\<open>get_next_tab\<close>: the columns in the order they are visited, and the step of the counter.\<close>

fun tab_scan :: "bool list \<Rightarrow> int \<Rightarrow> int list \<Rightarrow> int \<Rightarrow> int option result" where
  "tab_scan ts step [] count = Inr None"
| "tab_scan ts step (i # is) count =
     bindE (vec_at ts i) (\<lambda>t.
     if t then (if count + step = 0 then Inr (Some i) else tab_scan ts step is (count + step))
     else tab_scan ts step is count)"

definition get_next_tab :: "int \<Rightarrow> draw_state \<Rightarrow> int result" where
  "get_next_tab count d =
     (if count \<ge> 0
      then bindE (tab_scan (tabs d) (- 1) [cursor_col d + 1..width d - 1] count) (\<lambda>r.
           Inr (case r of Some i \<Rightarrow> i | None \<Rightarrow> - 1))
      else bindE (tab_scan (tabs d) 1 (rev [1..cursor_col d - 1]) count) (\<lambda>r.
           Inr (case r of Some i \<Rightarrow> i | None \<Rightarrow> 0)))"

definition set_scrolling_region :: "int \<Rightarrow> int \<Rightarrow> draw_state \<Rightarrow> draw_state" where
  "set_scrolling_region top_row bottom d =
     (if height d < 1 then d
      else
        (let t = (if top_row < 0 then 0 else top_row);
             b = (if bottom \<ge> height d then height d - 1 else bottom);
             d1 = d\<lparr>scrolling_region_top_row := t, scrolling_region_bottom_row := (if b < t then t else b)\<rparr>
         in if origin_mode d1 then new_grapheme (snap_cursor_to_border d1) else d1))"

definition save_cursor :: "draw_state \<Rightarrow> draw_state" where
  "save_cursor d =
     d\<lparr>save := \<lparr>saved_col = cursor_col d, saved_row = cursor_row d, saved_renditions = ds_renditions d,
                saved_auto_wrap_mode = auto_wrap_mode d, saved_origin_mode = origin_mode d\<rparr>\<rparr>"

definition restore_cursor :: "draw_state \<Rightarrow> draw_state" where
  "restore_cursor d =
     (let s = save d;
          d1 = d\<lparr>cursor_col := saved_col s, cursor_row := saved_row s, ds_renditions := saved_renditions s,
                 auto_wrap_mode := saved_auto_wrap_mode s, origin_mode := saved_origin_mode s\<rparr>
      in new_grapheme (snap_cursor_to_border d1))"

definition clear_saved_cursor :: "draw_state \<Rightarrow> draw_state" where
  "clear_saved_cursor d = d\<lparr>save := SavedCursor\<rparr>"

definition DrawState_resize :: "int \<Rightarrow> int \<Rightarrow> draw_state \<Rightarrow> draw_state result" where
  "DrawState_resize s_width s_height d =
     (let d1 = (if width d \<noteq> s_width \<or> height d \<noteq> s_height
                then d\<lparr>scrolling_region_top_row := 0, scrolling_region_bottom_row := s_height - 1\<rparr> else d);
          d2 = d1\<lparr>tabs := vec_resize (nat s_width) False (tabs d1)\<rparr>
      in bindE (if default_tabs d2 then reinitialize_tabs (nat (width d2)) d2 else Inr d2) (\<lambda>d3.
         let d4 = snap_cursor_to_border (d3\<lparr>width := s_width, height := s_height\<rparr>)
         in Inr (if combining_char_col d4 \<ge> width d4 \<or> combining_char_row d4 \<ge> height d4
                 then d4\<lparr>combining_char_col := - 1, combining_char_row := - 1\<rparr> else d4)))"

text \<open>Only the fields that affect the display are compared.\<close>

definition ds_equal :: "draw_state \<Rightarrow> draw_state \<Rightarrow> bool" where
  "ds_equal d x \<longleftrightarrow>
     width d = width x \<and> height d = height x \<and> cursor_col d = cursor_col x \<and> cursor_row d = cursor_row x
     \<and> cursor_visible d = cursor_visible x \<and> reverse_video d = reverse_video x \<and> ds_renditions d = ds_renditions x
     \<and> bracketed_paste d = bracketed_paste x \<and> mouse_reporting_mode d = mouse_reporting_mode x
     \<and> mouse_focus_event d = mouse_focus_event x \<and> mouse_alternate_scroll d = mouse_alternate_scroll x
     \<and> mouse_encoding_mode d = mouse_encoding_mode x \<and> ds_hyperlink d = ds_hyperlink x"

section \<open>The framebuffer\<close>

record framebuffer =
  rows :: "row list"
  icon_name :: "int list"
  window_title :: "int list"
  clipboard :: "int list"
  bell_count :: u32
  title_initialized :: bool
  ds :: draw_state
  gen_counter :: u64

definition background :: "framebuffer \<Rightarrow> u32" where
  "background fb = get_background_rendition (ds_renditions (ds fb))"

definition newrow :: "framebuffer \<Rightarrow> row \<times> framebuffer" where
  "newrow fb = (Row (nat (width (ds fb))) (background fb) (gen_counter fb), fb\<lparr>gen_counter := gen_counter fb + 1\<rparr>)"

definition Framebuffer :: "u64 \<Rightarrow> int \<Rightarrow> int \<Rightarrow> framebuffer result" where
  "Framebuffer g s_width s_height =
     bindE (DrawState s_width s_height) (\<lambda>d.
     bindE (assertE (s_height > 0) AssertFailed) (\<lambda>_.
     bindE (assertE (s_width > 0) AssertFailed) (\<lambda>_.
     Inr \<lparr>rows = replicate (nat s_height) (Row (nat s_width) 0 g), icon_name = [], window_title = [], clipboard = [],
          bell_count = 0, title_initialized = False, ds = d, gen_counter = g + 1\<rparr>)))"

definition update_ds :: "(draw_state \<Rightarrow> draw_state) \<Rightarrow> framebuffer \<Rightarrow> framebuffer" where
  "update_ds f fb = fb\<lparr>ds := f (ds fb)\<rparr>"

definition update_dsE :: "(draw_state \<Rightarrow> draw_state result) \<Rightarrow> framebuffer \<Rightarrow> framebuffer result" where
  "update_dsE f fb = bindE (f (ds fb)) (\<lambda>d. Inr (fb\<lparr>ds := d\<rparr>))"

text \<open>\<^verbatim>\<open>get_mutable_row\<close> and \<^verbatim>\<open>get_mutable_cell\<close> hand out a pointer through which the caller writes: an update with the caller's function.  An
  argument of -1 stands for the cursor.\<close>

definition get_row :: "int \<Rightarrow> framebuffer \<Rightarrow> row result" where
  "get_row r fb =
     (let i = (if r = - 1 then cursor_row (ds fb) else r)
      in if 0 \<le> i \<and> i < int (length (rows fb)) then Inr (rows fb ! nat i) else Inl OutOfRange)"

definition get_cell :: "int \<Rightarrow> int \<Rightarrow> framebuffer \<Rightarrow> cell result" where
  "get_cell r c fb =
     bindE (get_row r fb) (\<lambda>rw.
     let j = (if c = - 1 then cursor_col (ds fb) else c)
     in if 0 \<le> j \<and> j < int (length (cells rw)) then Inr (cells rw ! nat j) else Inl OutOfRange)"

definition mutable_row :: "int \<Rightarrow> (row \<Rightarrow> row result) \<Rightarrow> framebuffer \<Rightarrow> framebuffer result" where
  "mutable_row r f fb =
     (let i = (if r = - 1 then cursor_row (ds fb) else r)
      in bindE (get_row r fb) (\<lambda>rw. bindE (f rw) (\<lambda>rw'. Inr (fb\<lparr>rows := (rows fb)[nat i := rw']\<rparr>))))"

definition mutable_cell :: "int \<Rightarrow> int \<Rightarrow> (cell \<Rightarrow> cell result) \<Rightarrow> framebuffer \<Rightarrow> framebuffer result" where
  "mutable_cell r c f fb =
     (let j = (if c = - 1 then cursor_col (ds fb) else c)
      in mutable_row r (\<lambda>rw.
           if 0 \<le> j \<and> j < int (length (cells rw))
           then bindE (f (cells rw ! nat j)) (\<lambda>cl. Inr (rw\<lparr>cells := (cells rw)[nat j := cl]\<rparr>))
           else Inl OutOfRange) fb)"

definition reset_cell :: "int \<Rightarrow> int \<Rightarrow> framebuffer \<Rightarrow> framebuffer result" where
  "reset_cell r c fb = mutable_cell r c (\<lambda>cl. Inr (Cell_reset (background fb) cl)) fb"

definition reset_row :: "int \<Rightarrow> framebuffer \<Rightarrow> framebuffer result" where
  "reset_row r fb =
     bindE (mutable_row r (\<lambda>rw. Inr (Row_reset (background fb) (gen_counter fb) rw)) fb) (\<lambda>fb'.
     Inr (fb'\<lparr>gen_counter := gen_counter fb' + 1\<rparr>))"

definition insert_cell :: "int \<Rightarrow> int \<Rightarrow> framebuffer \<Rightarrow> framebuffer result" where
  "insert_cell r col fb = mutable_row r (Row_insert_cell col (background fb)) fb"

definition delete_cell :: "int \<Rightarrow> int \<Rightarrow> framebuffer \<Rightarrow> framebuffer result" where
  "delete_cell r col fb = mutable_row r (Row_delete_cell col (background fb)) fb"

definition insert_line :: "int \<Rightarrow> int \<Rightarrow> framebuffer \<Rightarrow> framebuffer result" where
  "insert_line before_row count fb =
     (let b = scrolling_region_bottom_row (ds fb) in
      if before_row < scrolling_region_top_row (ds fb) \<or> before_row > b + 1 then Inr fb
      else
        (let s = b + 1 - before_row;
             scroll = (if count < s then count else s)
         in if scroll = 0 then Inr fb
            else
              bindE (vec_erase (b + 1 - scroll) scroll (rows fb)) (\<lambda>rs.
              case newrow fb of (nr, fb1) \<Rightarrow>
              bindE (vec_insert before_row scroll nr rs) (\<lambda>rs'. Inr (fb1\<lparr>rows := rs'\<rparr>)))))"

definition delete_line :: "int \<Rightarrow> int \<Rightarrow> framebuffer \<Rightarrow> framebuffer result" where
  "delete_line r count fb =
     (let b = scrolling_region_bottom_row (ds fb) in
      if r < scrolling_region_top_row (ds fb) \<or> r > b then Inr fb
      else
        (let s = b + 1 - r;
             scroll = (if count < s then count else s)
         in if scroll = 0 then Inr fb
            else
              bindE (vec_erase r scroll (rows fb)) (\<lambda>rs.
              case newrow fb of (nr, fb1) \<Rightarrow>
              bindE (vec_insert (b + 1 - scroll) scroll nr rs) (\<lambda>rs'. Inr (fb1\<lparr>rows := rs'\<rparr>)))))"

definition scroll_fb :: "int \<Rightarrow> framebuffer \<Rightarrow> framebuffer result" where
  "scroll_fb N fb =
     (if N \<ge> 0 then delete_line (scrolling_region_top_row (ds fb)) N fb
      else insert_line (scrolling_region_top_row (ds fb)) (- N) fb)"

definition move_rows_autoscroll :: "int \<Rightarrow> framebuffer \<Rightarrow> framebuffer result" where
  "move_rows_autoscroll n fb =
     (let cr = cursor_row (ds fb); t = scrolling_region_top_row (ds fb); b = scrolling_region_bottom_row (ds fb) in
      if cr < t \<or> cr > b then Inr (update_ds (move_row n True) fb)
      else
        bindE
          (if cr + n > b
           then bindE (scroll_fb (cr + n - b) fb) (\<lambda>fb1. Inr (update_ds (move_row (- (cr + n - b)) True) fb1))
           else if cr + n < t
           then bindE (scroll_fb (cr + n - t) fb) (\<lambda>fb1. Inr (update_ds (move_row (- (cr + n - t)) True) fb1))
           else Inr fb) (\<lambda>fb2.
        Inr (update_ds (move_row n True) fb2)))"

definition get_combining_cell :: "framebuffer \<Rightarrow> (int \<times> int) option" where
  "get_combining_cell fb =
     (let c = combining_char_col (ds fb); r = combining_char_row (ds fb)
      in if c < 0 \<or> r < 0 \<or> c \<ge> width (ds fb) \<or> r \<ge> height (ds fb) then None else Some (r, c))"

definition fb_reset :: "framebuffer \<Rightarrow> framebuffer result" where
  "fb_reset fb =
     bindE (DrawState (width (ds fb)) (height (ds fb))) (\<lambda>d.
     case newrow (fb\<lparr>ds := d\<rparr>) of (nr, fb1) \<Rightarrow>
     Inr (fb1\<lparr>rows := replicate (nat (height d)) nr, window_title := [], clipboard := []\<rparr>))"

definition soft_reset :: "framebuffer \<Rightarrow> framebuffer" where
  "soft_reset fb =
     update_ds (\<lambda>d.
       let d1 = d\<lparr>insert_mode := False, origin_mode := False, cursor_visible := True,
                  application_mode_cursor_keys := False\<rparr>;
           d2 = set_scrolling_region 0 (height d1 - 1) d1;
           d3 = d2\<lparr>ds_renditions := set_rendition 0 (ds_renditions d2), ds_hyperlink := None\<rparr>
       in clear_saved_cursor d3) fb"

text \<open>The loop of \<^verbatim>\<open>resize\<close> stops at the first row that is the blank row just made; these are the rows appended, so it runs over
  the old rows that remain.\<close>

definition resize_row :: "int \<Rightarrow> u32 \<Rightarrow> row \<Rightarrow> row result" where
  "resize_row s_width bg r =
     bindE (set_wrap False r) (\<lambda>r'. Inr (r'\<lparr>cells := vec_resize (nat s_width) (Cell bg) (cells r')\<rparr>))"

fun mapE :: "('a \<Rightarrow> 'b result) \<Rightarrow> 'a list \<Rightarrow> 'b list result" where
  "mapE f [] = Inr []"
| "mapE f (x # xs) = bindE (f x) (\<lambda>y. bindE (mapE f xs) (\<lambda>ys. Inr (y # ys)))"

definition fb_resize :: "int \<Rightarrow> int \<Rightarrow> framebuffer \<Rightarrow> framebuffer result" where
  "fb_resize s_width s_height fb =
     bindE (assertE (s_width > 0) AssertFailed) (\<lambda>_.
     bindE (assertE (s_height > 0) AssertFailed) (\<lambda>_.
     let oldheight = height (ds fb); oldwidth = width (ds fb) in
     bindE (update_dsE (DrawState_resize s_width s_height) fb) (\<lambda>fb1.
     case newrow fb1 of (blankrow, fb2) \<Rightarrow>
     let kept = (if oldheight \<noteq> s_height then take (nat s_height) (rows fb2) else rows fb2);
         new = (if oldheight \<noteq> s_height then replicate (nat s_height - length (rows fb2)) blankrow else [])
     in if oldwidth = s_width then Inr (fb2\<lparr>rows := kept @ new\<rparr>)
        else bindE (mapE (resize_row s_width (background fb2)) kept) (\<lambda>rs. Inr (fb2\<lparr>rows := rs @ new\<rparr>)))))"

definition prefix_window_title :: "int list \<Rightarrow> framebuffer \<Rightarrow> framebuffer" where
  "prefix_window_title s fb =
     (let fb1 = (if icon_name fb = window_title fb then fb\<lparr>icon_name := s @ icon_name fb\<rparr> else fb)
      in fb1\<lparr>window_title := s @ window_title fb1\<rparr>)"

definition ring_bell :: "framebuffer \<Rightarrow> framebuffer" where
  "ring_bell fb = fb\<lparr>bell_count := bell_count fb + 1\<rparr>"

section \<open>Well-formedness\<close>

text \<open>The shape of the screen: sizes are positive, tab stops and cells fill them, the scrolling region lies inside; and the
  cursor is on the screen.  The current renditions and hyperlink are well-formed, and so is every cell.\<close>

definition ds_shape :: "draw_state \<Rightarrow> bool" where
  "ds_shape d \<longleftrightarrow>
     0 < width d \<and> 0 < height d \<and> 0 \<le> scrolling_region_top_row d
     \<and> scrolling_region_top_row d \<le> scrolling_region_bottom_row d \<and> scrolling_region_bottom_row d < height d
     \<and> length (tabs d) = nat (width d)
     \<and> rend_ok (ds_renditions d) \<and> rend_ok (saved_renditions (save d)) \<and> link_ok (ds_hyperlink d)"

definition ds_ok :: "draw_state \<Rightarrow> bool" where
  "ds_ok d \<longleftrightarrow> ds_shape d \<and> 0 \<le> cursor_col d \<and> cursor_col d < width d \<and> 0 \<le> cursor_row d \<and> cursor_row d < height d"

definition fb_ok :: "framebuffer \<Rightarrow> bool" where
  "fb_ok fb \<longleftrightarrow> ds_ok (ds fb) \<and> length (rows fb) = nat (height (ds fb)) \<and> list_all (row_ok (nat (width (ds fb)))) (rows fb)"

lemma ds_okD: "ds_ok d \<Longrightarrow> ds_shape d"
  by (simp add: ds_ok_def)

lemma ds_shapeD:
  assumes "ds_shape d"
  shows "0 < width d" "0 < height d" "0 \<le> scrolling_region_top_row d"
    "scrolling_region_top_row d \<le> scrolling_region_bottom_row d" "scrolling_region_bottom_row d < height d"
    "length (tabs d) = nat (width d)" "rend_ok (ds_renditions d)" "rend_ok (saved_renditions (save d))" "link_ok (ds_hyperlink d)"
  using assms by (simp_all add: ds_shape_def)

lemma ds_ok_cursor:
  assumes "ds_ok d"
  shows "0 \<le> cursor_col d" "cursor_col d < width d" "0 \<le> cursor_row d" "cursor_row d < height d"
  using assms by (simp_all add: ds_ok_def)

lemma fb_okD:
  assumes "fb_ok fb"
  shows "ds_ok (ds fb)" "length (rows fb) = nat (height (ds fb))" "list_all (row_ok (nat (width (ds fb)))) (rows fb)"
  using assms by (simp_all add: fb_ok_def)

text \<open>An update of the draw state that keeps the size.\<close>

definition resized :: "draw_state \<Rightarrow> draw_state \<Rightarrow> bool" where
  "resized d d' \<longleftrightarrow> ds_ok d' \<and> width d' = width d \<and> height d' = height d"

lemma fb_ok_ds:
  assumes "fb_ok fb" "resized (ds fb) d"
  shows "fb_ok (fb\<lparr>ds := d\<rparr>)"
  using assms by (simp add: fb_ok_def resized_def)

lemma fb_ok_update_ds: "fb_ok fb \<Longrightarrow> resized (ds fb) (f (ds fb)) \<Longrightarrow> fb_ok (update_ds f fb)"
  by (simp add: update_ds_def fb_ok_ds)

lemma fb_ok_more [simp]:
  "fb_ok (fb\<lparr>gen_counter := g\<rparr>) = fb_ok fb" "fb_ok (fb\<lparr>icon_name := x\<rparr>) = fb_ok fb"
  "fb_ok (fb\<lparr>window_title := x\<rparr>) = fb_ok fb" "fb_ok (fb\<lparr>clipboard := x\<rparr>) = fb_ok fb"
  "fb_ok (fb\<lparr>bell_count := n\<rparr>) = fb_ok fb" "fb_ok (fb\<lparr>title_initialized := b\<rparr>) = fb_ok fb"
  by (simp_all add: fb_ok_def)

section \<open>The cursor\<close>

lemma snap_fields [simp]:
  "width (snap_cursor_to_border d) = width d" "height (snap_cursor_to_border d) = height d"
  "scrolling_region_top_row (snap_cursor_to_border d) = scrolling_region_top_row d"
  "scrolling_region_bottom_row (snap_cursor_to_border d) = scrolling_region_bottom_row d"
  "tabs (snap_cursor_to_border d) = tabs d" "ds_renditions (snap_cursor_to_border d) = ds_renditions d"
  "save (snap_cursor_to_border d) = save d" "ds_hyperlink (snap_cursor_to_border d) = ds_hyperlink d"
  by (simp_all add: snap_cursor_to_border_def Let_def)

lemma snap_ok: "ds_shape d \<Longrightarrow> ds_ok (snap_cursor_to_border d)"
  by (auto simp: ds_ok_def ds_shape_def snap_cursor_to_border_def Let_def limit_top_def limit_bottom_def)

lemma grapheme_ok [simp]: "ds_ok (new_grapheme d) = ds_ok d"
  "width (new_grapheme d) = width d" "height (new_grapheme d) = height d"
  by (simp_all add: ds_ok_def ds_shape_def new_grapheme_def)

lemma ds_ok_modes [simp]:
  "ds_ok (d\<lparr>next_print_will_wrap := b\<rparr>) = ds_ok d"
  "ds_ok (d\<lparr>origin_mode := b\<rparr>) = ds_ok d" "ds_ok (d\<lparr>auto_wrap_mode := b\<rparr>) = ds_ok d"
  "ds_ok (d\<lparr>insert_mode := b\<rparr>) = ds_ok d" "ds_ok (d\<lparr>cursor_visible := b\<rparr>) = ds_ok d"
  "ds_ok (d\<lparr>reverse_video := b\<rparr>) = ds_ok d" "ds_ok (d\<lparr>bracketed_paste := b\<rparr>) = ds_ok d"
  "ds_ok (d\<lparr>mouse_reporting_mode := i\<rparr>) = ds_ok d" "ds_ok (d\<lparr>mouse_focus_event := b\<rparr>) = ds_ok d"
  "ds_ok (d\<lparr>mouse_alternate_scroll := b\<rparr>) = ds_ok d" "ds_ok (d\<lparr>mouse_encoding_mode := i\<rparr>) = ds_ok d"
  "ds_ok (d\<lparr>application_mode_cursor_keys := b\<rparr>) = ds_ok d" "ds_ok (d\<lparr>default_tabs := b\<rparr>) = ds_ok d"
  "ds_ok (d\<lparr>combining_char_col := i\<rparr>) = ds_ok d" "ds_ok (d\<lparr>combining_char_row := i\<rparr>) = ds_ok d"
  by (simp_all add: ds_ok_def ds_shape_def)

lemma ds_ok_display:
  "ds_ok d \<Longrightarrow> rend_ok rn \<Longrightarrow> ds_ok (d\<lparr>ds_renditions := rn\<rparr>)" "ds_ok d \<Longrightarrow> link_ok h \<Longrightarrow> ds_ok (d\<lparr>ds_hyperlink := h\<rparr>)"
  "ds_ok d \<Longrightarrow> rend_ok (saved_renditions sv) \<Longrightarrow> ds_ok (d\<lparr>save := sv\<rparr>)"
  by (simp_all add: ds_ok_def ds_shape_def)

lemma shape_cursor [simp]: "ds_shape (d\<lparr>cursor_row := r\<rparr>) = ds_shape d" "ds_shape (d\<lparr>cursor_col := c\<rparr>) = ds_shape d"
  "ds_shape (new_grapheme d) = ds_shape d" "ds_shape (d\<lparr>next_print_will_wrap := b\<rparr>) = ds_shape d"
  "ds_shape (d\<lparr>auto_wrap_mode := b\<rparr>) = ds_shape d"
  "ds_shape (d\<lparr>origin_mode := b\<rparr>) = ds_shape d"
  by (simp_all add: ds_shape_def new_grapheme_def)

lemma move_row_resized: "ds_shape d \<Longrightarrow> resized d (move_row N relative d)"
  by (simp add: resized_def move_row_def Let_def snap_ok)

lemma move_col_resized: "ds_shape d \<Longrightarrow> resized d (move_col N relative implicit d)"
  by (simp add: resized_def move_col_def Let_def snap_ok)

lemma set_scrolling_region_resized:
  assumes "ds_ok d" "top_row < height d"
  shows "resized d (set_scrolling_region top_row bottom d)"
proof -
  let ?d = "d\<lparr>scrolling_region_top_row := (if top_row < 0 then 0 else top_row),
    scrolling_region_bottom_row := (let t = (if top_row < 0 then 0 else top_row); b = (if bottom \<ge> height d then height d - 1 else bottom)
      in if b < t then t else b)\<rparr>"
  have "ds_ok ?d" using assms by (auto simp: ds_ok_def ds_shape_def Let_def)
  then have "resized d ?d" "resized d (new_grapheme (snap_cursor_to_border ?d))"
    by (simp_all add: resized_def snap_ok ds_okD)
  then show ?thesis
    using assms by (auto simp: set_scrolling_region_def Let_def resized_def)
qed

lemma restore_cursor_resized: "ds_ok d \<Longrightarrow> resized d (restore_cursor d)"
proof -
  assume d: "ds_ok d"
  have "ds_shape (d\<lparr>cursor_col := c, cursor_row := r, ds_renditions := saved_renditions (save d), auto_wrap_mode := a, origin_mode := b\<rparr>)" for c r a b
    using ds_okD [OF d] by (simp add: ds_shape_def)
  then show ?thesis by (simp add: resized_def restore_cursor_def Let_def snap_ok)
qed

lemma save_cursor_resized: "ds_ok d \<Longrightarrow> resized d (save_cursor d)"
  by (simp add: resized_def save_cursor_def ds_ok_display ds_shapeD ds_okD)

lemma DrawState_runs:
  "0 < w \<Longrightarrow> 0 < h \<Longrightarrow> runs (\<lambda>d. ds_ok d \<and> width d = w \<and> height d = h) (DrawState w h)"
  by (simp add: DrawState_def reinitialize_tabs_def ds_ok_def ds_shape_def SavedCursor_def)

lemma length_vec_resize [simp]: "length (vec_resize n v xs) = n"
  by (simp add: vec_resize_def)

lemma DrawState_resize_runs:
  assumes "ds_ok d" "0 < w" "0 < h"
  shows "runs (\<lambda>d'. ds_ok d' \<and> width d' = w \<and> height d' = h) (DrawState_resize w h d)"
proof -
  define d1 where "d1 = (if width d \<noteq> w \<or> height d \<noteq> h
      then d\<lparr>scrolling_region_top_row := 0, scrolling_region_bottom_row := h - 1\<rparr> else d)"
  define d2 where "d2 = d1\<lparr>tabs := vec_resize (nat w) False (tabs d1)\<rparr>"
  have sh: "ds_shape (d2\<lparr>tabs := ts, width := w, height := h\<rparr>)" if "length ts = nat w" for ts
    using assms that by (simp add: ds_ok_def ds_shape_def d1_def d2_def)
  have "runs (\<lambda>d3. ds_shape (d3\<lparr>width := w, height := h\<rparr>))
     (if default_tabs d2 then reinitialize_tabs (nat (width d2)) d2 else Inr d2)"
    using sh [of "tabs d2"] sh by (simp add: reinitialize_tabs_def d2_def)
  then show ?thesis
    unfolding DrawState_resize_def Let_def d1_def [symmetric] d2_def [symmetric]
    by (rule runs_bindE) (simp add: snap_ok)
qed

lemma tab_scan_runs:
  "list_all (\<lambda>i. 0 \<le> i \<and> i < int (length ts)) is \<Longrightarrow> \<exists>r. tab_scan ts step is count = Inr r"
  by (induction "is" arbitrary: count) (auto simp: vec_at_def)

lemma get_next_tab_runs: "ds_ok d \<Longrightarrow> \<exists>i. get_next_tab count d = Inr i"
proof -
  assume d: "ds_ok d"
  then have "int (length (tabs d)) = width d" by (simp add: ds_ok_def ds_shape_def)
  then have "list_all (\<lambda>i. 0 \<le> i \<and> i < int (length (tabs d))) [cursor_col d + 1..width d - 1]"
    "list_all (\<lambda>i. 0 \<le> i \<and> i < int (length (tabs d))) (rev [1..cursor_col d - 1])"
    using d by (auto simp: list_all_iff ds_ok_def)
  from tab_scan_runs [OF this(1), of "- 1" count] tab_scan_runs [OF this(2), of 1 count]
  show ?thesis by (auto simp: get_next_tab_def)
qed

lemma set_tab_runs: "ds_ok d \<Longrightarrow> runs (resized d) (set_tab d)"
  by (auto simp: set_tab_def vec_set_def resized_def ds_ok_def ds_shape_def)

lemma clear_tab_runs: "ds_ok d \<Longrightarrow> 0 \<le> col \<Longrightarrow> col < width d \<Longrightarrow> runs (resized d) (clear_tab col d)"
  by (auto simp: clear_tab_def vec_set_def resized_def ds_ok_def ds_shape_def)

section \<open>Writing to the screen\<close>

definition keeps :: "draw_state \<Rightarrow> framebuffer \<Rightarrow> bool" where
  "keeps d fb \<longleftrightarrow> fb_ok fb \<and> ds fb = d"

lemma background_ok: "fb_ok fb \<Longrightarrow> bg_ok (background fb)"
  by (simp add: background_def rend_ok_background ds_shapeD fb_okD ds_okD)

lemma row_ok_Row [simp]: "bg_ok bg \<Longrightarrow> row_ok w (Row w bg g)"
  by (simp add: row_ok_def Row_def list_all_length)

lemma row_ok_reset: "row_ok w r \<Longrightarrow> bg_ok bg \<Longrightarrow> row_ok w (Row_reset bg g r)"
  by (simp add: row_ok_def Row_reset_def list_all_iff)

lemma list_all_take_drop: "list_all P xs \<Longrightarrow> list_all P (take n xs)" "list_all P xs \<Longrightarrow> list_all P (drop n xs)"
  by (auto simp: list_all_iff dest: in_set_takeD in_set_dropD)

lemma list_all_butlast: "list_all P xs \<Longrightarrow> list_all P (butlast xs)"
  by (auto simp: list_all_iff dest: in_set_butlastD)

lemma list_all_update: "list_all P xs \<Longrightarrow> P x \<Longrightarrow> list_all P (xs[i := x])"
  by (auto simp: list_all_iff dest!: set_update_subset_insert [THEN subsetD])

lemma list_all_replicate [simp]: "P x \<Longrightarrow> list_all P (replicate n x)"
  by (simp add: list_all_iff)

lemma set_wrap_runs: "row_ok w r \<Longrightarrow> 0 < w \<Longrightarrow> runs (row_ok w) (set_wrap b r)"
  by (auto simp: set_wrap_def row_ok_def list_all_iff dest: in_set_butlastD)

lemma Row_insert_cell_runs:
  assumes "row_ok w r" "bg_ok bg" "0 \<le> col" "col < int w"
  shows "runs (row_ok w) (Row_insert_cell col bg r)"
  using assms by (auto simp: Row_insert_cell_def row_ok_def intro!: list_all_butlast list_all_take_drop)

lemma Row_delete_cell_runs:
  assumes "row_ok w r" "bg_ok bg" "0 \<le> col" "col < int w"
  shows "runs (row_ok w) (Row_delete_cell col bg r)"
  using assms by (auto simp: Row_delete_cell_def row_ok_def Let_def intro!: list_all_take_drop)

lemma get_row_runs: "fb_ok fb \<Longrightarrow> r = - 1 \<or> 0 \<le> r \<and> r < height (ds fb) \<Longrightarrow> runs (row_ok (nat (width (ds fb)))) (get_row r fb)"
  by (auto simp: get_row_def fb_ok_def ds_ok_def Let_def list_all_length)

lemma mutable_row_runs:
  assumes "keeps d fb" "r = - 1 \<or> 0 \<le> r \<and> r < height d"
    and f: "\<And>rw. row_ok (nat (width d)) rw \<Longrightarrow> runs (row_ok (nat (width d))) (f rw)"
  shows "runs (keeps d) (mutable_row r f fb)"
proof -
  have fb: "fb_ok fb" and d: "ds fb = d" using assms(1) by (simp_all add: keeps_def)
  have "runs (row_ok (nat (width d))) (get_row r fb)" using get_row_runs [OF fb] assms(2) d by simp
  then show ?thesis
    unfolding mutable_row_def Let_def
  proof (rule runs_bindE)
    fix rw assume "row_ok (nat (width d)) rw"
    from f [OF this] show "runs (keeps d) (bindE (f rw)
        (\<lambda>rw'. Inr (fb\<lparr>rows := (rows fb)[nat (if r = - 1 then cursor_row (ds fb) else r) := rw']\<rparr>)))"
      by (rule runs_bindE) (use fb d in \<open>simp add: keeps_def fb_ok_def list_all_update\<close>)
  qed
qed

lemma mutable_cell_runs:
  assumes "keeps d fb" "r = - 1 \<or> 0 \<le> r \<and> r < height d" "c = - 1 \<or> 0 \<le> c \<and> c < width d"
    and f: "\<And>cl. cell_ok cl \<Longrightarrow> runs cell_ok (f cl)"
  shows "runs (keeps d) (mutable_cell r c f fb)"
  unfolding mutable_cell_def Let_def
proof (rule mutable_row_runs [OF assms(1, 2)])
  fix rw assume rw: "row_ok (nat (width d)) rw"
  define j where "j = (if c = - 1 then cursor_col (ds fb) else c)"
  have j: "0 \<le> j" "j < int (length (cells rw))"
    using assms(1, 3) rw by (auto simp: keeps_def fb_ok_def ds_ok_def row_ok_def j_def)
  have "nat j < length (cells rw)" using j by (simp add: nat_less_iff)
  then have "cell_ok (cells rw ! nat j)"
    using rw by (simp add: row_ok_def list_all_length)
  from f [OF this] have "runs (row_ok (nat (width d))) (bindE (f (cells rw ! nat j)) (\<lambda>cl. Inr (rw\<lparr>cells := (cells rw)[nat j := cl]\<rparr>)))"
    by (rule runs_bindE) (use rw in \<open>simp add: row_ok_def list_all_update\<close>)
  then show "runs (row_ok (nat (width d))) (if 0 \<le> (if c = - 1 then cursor_col (ds fb) else c)
        \<and> (if c = - 1 then cursor_col (ds fb) else c) < int (length (cells rw))
       then bindE (f (cells rw ! nat (if c = - 1 then cursor_col (ds fb) else c)))
         (\<lambda>cl. Inr (rw\<lparr>cells := (cells rw)[nat (if c = - 1 then cursor_col (ds fb) else c) := cl]\<rparr>)) else Inl OutOfRange)"
    unfolding j_def [symmetric] using j by simp
qed

lemma reset_cell_runs:
  assumes "keeps d fb" "r = - 1 \<or> 0 \<le> r \<and> r < height d" "c = - 1 \<or> 0 \<le> c \<and> c < width d"
  shows "runs (keeps d) (reset_cell r c fb)"
  unfolding reset_cell_def by (rule mutable_cell_runs [OF assms]) (use assms(1) in \<open>simp add: keeps_def background_ok\<close>)

lemma reset_row_runs:
  assumes "keeps d fb" "r = - 1 \<or> 0 \<le> r \<and> r < height d"
  shows "runs (keeps d) (reset_row r fb)"
  unfolding reset_row_def
  by (rule runs_bindE [OF mutable_row_runs [OF assms]]) (use assms(1) in \<open>simp_all add: row_ok_reset keeps_def background_ok\<close>)

lemma insert_cell_runs:
  assumes "keeps d fb" "r = - 1 \<or> 0 \<le> r \<and> r < height d" "0 \<le> c" "c < width d"
  shows "runs (keeps d) (insert_cell r c fb)"
  unfolding insert_cell_def by (rule mutable_row_runs [OF assms(1, 2)]) (use assms in \<open>simp add: Row_insert_cell_runs keeps_def background_ok\<close>)

lemma delete_cell_runs:
  assumes "keeps d fb" "r = - 1 \<or> 0 \<le> r \<and> r < height d" "0 \<le> c" "c < width d"
  shows "runs (keeps d) (delete_cell r c fb)"
  unfolding delete_cell_def by (rule mutable_row_runs [OF assms(1, 2)]) (use assms in \<open>simp add: Row_delete_cell_runs keeps_def background_ok\<close>)

section \<open>Scrolling\<close>

lemma newrow_simps: "newrow fb = (nr, fb') \<Longrightarrow> fb_ok fb \<Longrightarrow> row_ok (nat (width (ds fb))) nr \<and> fb' = fb\<lparr>gen_counter := gen_counter fb + 1\<rparr>"
  by (auto simp: newrow_def background_ok)

lemma length_insert: "length (take k xs @ ys @ drop k xs) = length xs + length ys"
  by (simp add: min_def)

text \<open>Both line operations take \<open>n\<close> rows out of the region and put \<open>n\<close> blank ones in elsewhere.\<close>

lemma move_lines_runs:
  assumes fb: "keeps d fb" and from_row: "0 \<le> from_row" "0 \<le> n" "from_row + n \<le> height d"
    and to_row: "0 \<le> to_row" "to_row + n \<le> height d"
  shows "runs (keeps d)
    (bindE (vec_erase from_row n (rows fb)) (\<lambda>rs.
     case newrow fb of (nr, fb1) \<Rightarrow> bindE (vec_insert to_row n nr rs) (\<lambda>rs'. Inr (fb1\<lparr>rows := rs'\<rparr>))))"
proof -
  have h: "int (length (rows fb)) = height d" "0 < height d" "ds fb = d" "list_all (row_ok (nat (width d))) (rows fb)"
    using fb by (auto simp: keeps_def fb_ok_def ds_ok_def ds_shape_def)
  define rs where "rs = take (nat from_row) (rows fb) @ drop (nat (from_row + n)) (rows fb)"
  obtain nr fb1 where nr: "newrow fb = (nr, fb1)" by fastforce
  have e: "vec_erase from_row n (rows fb) = Inr rs"
    using h from_row by (simp add: vec_erase_def rs_def)
  have l: "int (length rs) = height d - n" using h from_row by (auto simp: rs_def)
  have all: "list_all (row_ok (nat (width d))) rs" using h(4) by (simp add: rs_def list_all_take_drop)
  have i: "vec_insert to_row n nr rs = Inr (take (nat to_row) rs @ replicate (nat n) nr @ drop (nat to_row) rs)"
    using l from_row to_row by (simp add: vec_insert_def)
  have "row_ok (nat (width d)) nr" "fb1 = fb\<lparr>gen_counter := gen_counter fb + 1\<rparr>"
    using newrow_simps [OF nr] fb h(3) by (simp_all add: keeps_def)
  moreover have "length rs + nat n = nat (height d)" using l from_row(2) by linarith
  ultimately have "keeps d (fb1\<lparr>rows := take (nat to_row) rs @ replicate (nat n) nr @ drop (nat to_row) rs\<rparr>)"
    using fb h(3) all length_insert [of "nat to_row" rs "replicate (nat n) nr"]
    by (simp add: keeps_def fb_ok_def list_all_take_drop del: length_append length_take length_drop)
  then show ?thesis using e nr i by simp
qed

lemma insert_line_runs:
  assumes "keeps d fb" "0 \<le> count"
  shows "runs (keeps d) (insert_line before_row count fb)"
proof -
  have d: "ds fb = d" "ds_shape d" using assms(1) by (auto simp: keeps_def fb_ok_def ds_ok_def)
  show ?thesis
    unfolding insert_line_def Let_def d(1)
    using assms ds_shapeD [OF d(2)]
    by (auto intro!: move_lines_runs [OF assms(1)] split del: if_split split: if_splits simp del: take_append)
qed

lemma delete_line_runs:
  assumes "keeps d fb" "0 \<le> count"
  shows "runs (keeps d) (delete_line r count fb)"
proof -
  have d: "ds fb = d" "ds_shape d" using assms(1) by (auto simp: keeps_def fb_ok_def ds_ok_def)
  show ?thesis
    unfolding delete_line_def Let_def d(1)
    using assms ds_shapeD [OF d(2)]
    by (auto intro!: move_lines_runs [OF assms(1)] split del: if_split split: if_splits)
qed

lemma scroll_fb_runs: "keeps d fb \<Longrightarrow> runs (keeps d) (scroll_fb N fb)"
  by (simp add: scroll_fb_def delete_line_runs insert_line_runs)

definition same_size :: "framebuffer \<Rightarrow> framebuffer \<Rightarrow> bool" where
  "same_size fb fb' \<longleftrightarrow> fb_ok fb' \<and> width (ds fb') = width (ds fb) \<and> height (ds fb') = height (ds fb)"

lemma same_size_update_ds: "fb_ok fb \<Longrightarrow> resized (ds fb) (f (ds fb)) \<Longrightarrow> same_size fb (update_ds f fb)"
  using fb_ok_update_ds [of fb f] by (simp add: same_size_def resized_def update_ds_def)

lemma same_size_trans: "same_size fb fb1 \<Longrightarrow> same_size fb1 fb2 \<Longrightarrow> same_size fb fb2"
  by (simp add: same_size_def)

lemma keeps_same_size: "keeps (ds fb) fb' \<Longrightarrow> same_size fb fb'"
  by (simp add: keeps_def same_size_def)

lemma same_size_refl: "fb_ok fb \<Longrightarrow> same_size fb fb"
  by (simp add: same_size_def)

lemma fb_ok_shape: "fb_ok fb \<Longrightarrow> ds_shape (ds fb)"
  by (simp add: fb_ok_def ds_ok_def)

lemma same_size_move_row: "fb_ok fb \<Longrightarrow> same_size fb (update_ds (move_row n rel) fb)"
  by (simp add: same_size_update_ds move_row_resized fb_ok_shape)

lemma same_size_move_col: "fb_ok fb \<Longrightarrow> same_size fb (update_ds (move_col n rel imp) fb)"
  by (simp add: same_size_update_ds move_col_resized fb_ok_shape)

lemma scroll_then_move_runs:
  assumes "fb_ok fb"
  shows "runs (same_size fb) (bindE (scroll_fb N fb) (\<lambda>fb1. Inr (update_ds (move_row k True) fb1)))"
proof (rule runs_bindE [OF scroll_fb_runs])
  show "keeps (ds fb) fb" using assms by (simp add: keeps_def)
  fix fb1 assume "keeps (ds fb) fb1"
  then have "same_size fb fb1" "fb_ok fb1" by (simp_all add: keeps_def same_size_def)
  then show "runs (same_size fb) (Inr (update_ds (move_row k True) fb1))"
    using same_size_trans [OF _ same_size_move_row] by simp
qed

lemma move_rows_autoscroll_runs:
  assumes fb: "fb_ok fb"
  shows "runs (same_size fb) (move_rows_autoscroll n fb)"
  unfolding move_rows_autoscroll_def Let_def
proof (cases "cursor_row (ds fb) < scrolling_region_top_row (ds fb) \<or> cursor_row (ds fb) > scrolling_region_bottom_row (ds fb)",
    simp only: if_True runs_Inr same_size_move_row [OF fb], simp only: if_False, rule runs_bindE [of "same_size fb"])
  show "runs (same_size fb)
     (if scrolling_region_bottom_row (ds fb) < cursor_row (ds fb) + n
      then bindE (scroll_fb (cursor_row (ds fb) + n - scrolling_region_bottom_row (ds fb)) fb)
        (\<lambda>fb1. Inr (update_ds (move_row (- (cursor_row (ds fb) + n - scrolling_region_bottom_row (ds fb))) True) fb1))
      else if cursor_row (ds fb) + n < scrolling_region_top_row (ds fb)
      then bindE (scroll_fb (cursor_row (ds fb) + n - scrolling_region_top_row (ds fb)) fb)
        (\<lambda>fb1. Inr (update_ds (move_row (- (cursor_row (ds fb) + n - scrolling_region_top_row (ds fb))) True) fb1))
      else Inr fb)"
    using scroll_then_move_runs [OF fb] same_size_refl [OF fb] by simp
  fix fb2 assume "same_size fb fb2"
  moreover from this have "fb_ok fb2" by (simp add: same_size_def)
  ultimately show "runs (same_size fb) (Inr (update_ds (move_row n True) fb2))"
    using same_size_trans [OF _ same_size_move_row] by simp
qed

section \<open>Resetting and resizing\<close>

lemma fb_reset_runs:
  assumes "fb_ok fb"
  shows "runs (same_size fb) (fb_reset fb)"
proof -
  have "runs (\<lambda>d. ds_ok d \<and> width d = width (ds fb) \<and> height d = height (ds fb)) (DrawState (width (ds fb)) (height (ds fb)))"
    using ds_shapeD [OF fb_ok_shape [OF assms]] by (intro DrawState_runs)
  then show ?thesis
    unfolding fb_reset_def
    by (rule runs_bindE)
      (auto simp: newrow_def same_size_def fb_ok_def background_def rend_ok_background ds_shapeD ds_okD)
qed

lemma soft_reset_same_size:
  assumes "fb_ok fb"
  shows "same_size fb (soft_reset fb)"
proof -
  let ?d = "(ds fb)\<lparr>insert_mode := False, origin_mode := False, cursor_visible := True, application_mode_cursor_keys := False\<rparr>"
  have "ds_ok ?d" using fb_okD(1) [OF assms] by simp
  then have "resized ?d (set_scrolling_region 0 (height ?d - 1) ?d)"
    by (rule set_scrolling_region_resized) (use ds_shapeD [OF fb_ok_shape [OF assms]] in simp)
  then show ?thesis
    unfolding soft_reset_def
    by (intro same_size_update_ds [OF assms])
      (simp add: Let_def resized_def clear_saved_cursor_def ds_ok_display SavedCursor_def set_rendition_ok ds_shapeD ds_okD)
qed

lemma resize_row_runs:
  assumes "row_ok w r" "0 < w" "bg_ok bg"
  shows "runs (row_ok (nat s_width)) (resize_row s_width bg r)"
  unfolding resize_row_def
  by (rule runs_bindE [OF set_wrap_runs [OF assms(1, 2)]]) (use assms(3) in \<open>simp add: row_ok_def vec_resize_def list_all_take_drop\<close>)

lemma mapE_runs:
  assumes "list_all P xs" "\<And>x. P x \<Longrightarrow> runs Q (f x)"
  shows "runs (\<lambda>ys. list_all Q ys \<and> length ys = length xs) (mapE f xs)"
  using assms(1)
proof (induction xs)
  case (Cons x xs)
  then have x: "runs Q (f x)" and xs: "runs (\<lambda>ys. list_all Q ys \<and> length ys = length xs) (mapE f xs)"
    using assms(2) by simp_all
  show ?case
    unfolding mapE.simps by (rule runs_bindE [OF x], rule runs_bindE [OF xs]) simp
qed simp

lemma fb_resize_runs:
  assumes fb: "fb_ok fb" and w: "0 < w" and h: "0 < h"
  shows "runs (\<lambda>fb'. fb_ok fb' \<and> width (ds fb') = w \<and> height (ds fb') = h) (fb_resize w h fb)"
proof -
  obtain d where d: "DrawState_resize w h (ds fb) = Inr d" "ds_ok d" "width d = w" "height d = h"
    using DrawState_resize_runs [OF fb_okD(1) [OF fb] w h] by (auto simp: runs_def)
  define bg where "bg = background (fb\<lparr>ds := d\<rparr>)"
  define blank where "blank = Row (nat w) bg (gen_counter fb)"
  define kept where "kept = (if height (ds fb) \<noteq> h then take (nat h) (rows fb) else rows fb)"
  define new where "new = (if height (ds fb) \<noteq> h then replicate (nat h - length (rows fb)) blank else [])"
  have bgo: "bg_ok bg" using d(2) by (simp add: bg_def background_def rend_ok_background ds_shapeD ds_okD)
  have bk: "background (fb\<lparr>ds := d, gen_counter := g\<rparr>) = bg" for g by (simp add: bg_def background_def)
  have nr: "newrow (fb\<lparr>ds := d\<rparr>) = (blank, fb\<lparr>ds := d, gen_counter := gen_counter fb + 1\<rparr>)"
    using d by (simp add: newrow_def blank_def bg_def)
  have len: "length kept + length new = nat h" "list_all (row_ok (nat (width (ds fb)))) kept" "list_all (row_ok (nat w)) new"
    using fb_okD [OF fb] bgo by (auto simp: kept_def new_def blank_def list_all_take_drop)
  have eq: "fb_resize w h fb =
      (if width (ds fb) = w then Inr (fb\<lparr>ds := d, gen_counter := gen_counter fb + 1, rows := kept @ new\<rparr>)
       else bindE (mapE (resize_row w bg) kept) (\<lambda>rs. Inr (fb\<lparr>ds := d, gen_counter := gen_counter fb + 1, rows := rs @ new\<rparr>)))"
    using w h d(1) nr by (simp add: fb_resize_def update_dsE_def Let_def kept_def new_def bk)
  show ?thesis
  proof (cases "width (ds fb) = w")
    case True
    then show ?thesis unfolding eq using len d by (simp add: fb_ok_def)
  next
    case False
    have "0 < nat (width (ds fb))" using ds_shapeD(1) [OF fb_ok_shape [OF fb]] by simp
    then have "runs (\<lambda>ys. list_all (row_ok (nat w)) ys \<and> length ys = length kept) (mapE (resize_row w bg) kept)"
      using mapE_runs [OF len(2)] resize_row_runs bgo by blast
    then have "runs (\<lambda>fb'. fb_ok fb' \<and> width (ds fb') = w \<and> height (ds fb') = h)
        (bindE (mapE (resize_row w bg) kept) (\<lambda>rs. Inr (fb\<lparr>ds := d, gen_counter := gen_counter fb + 1, rows := rs @ new\<rparr>)))"
      by (rule runs_bindE) (use len d in \<open>simp add: fb_ok_def\<close>)
    then show ?thesis unfolding eq using False by simp
  qed
qed

lemma Framebuffer_runs:
  assumes "0 < w" "0 < h"
  shows "runs (\<lambda>fb. fb_ok fb \<and> width (ds fb) = w \<and> height (ds fb) = h) (Framebuffer g w h)"
  unfolding Framebuffer_def
  by (rule runs_bindE [OF DrawState_runs [OF assms]]) (use assms in \<open>simp add: fb_ok_def\<close>)

end
