(* ===== verification/Vt_Parser.thy ===== *)
theory Vt_Parser
  imports Prelude
begin

text \<open>
  The terminal parser (src/mosh/src/terminal/parserstate.cc, parserstate.h, parsertransition.h,
  parseraction.h, parser.cc, parser.h): the X3.64 state machine that turns code points into
  actions, and the UTF-8 layer that turns octets from the host into code points.

  A \<^verbatim>\<open>wchar_t\<close> is an \<open>int\<close>; an action carries its kind, its character and whether a character
  is present, as \<^verbatim>\<open>Parser::Action\<close> does.  \<^verbatim>\<open>mbrtowc\<close> belongs to the C library of a UTF-8 locale and is an
  argument of the definitions: it is given the bytes in the buffer and nothing else.  The source makes its
  conversion state afresh for every octet, and a converted character leaves it initial.  After an invalid sequence the C
  standard leaves it unspecified and the source calls \<^verbatim>\<open>mbrtowc\<close> with it again; the model takes it to be initial
  then too, as the usual C libraries leave it.
\<close>

section \<open>Actions and states\<close>

datatype action_kind =
    Ignore | Print | Execute | Clear | Collect | Param | Esc_Dispatch | CSI_Dispatch
  | Hook | Put | Unhook | OSC_Start | OSC_Put | OSC_End

record action =
  act_kind :: action_kind
  act_ch :: int
  char_present :: bool

definition Action :: "action_kind \<Rightarrow> action" where
  "Action k = \<lparr>act_kind = k, act_ch = - 1, char_present = False\<rparr>"

definition ignore :: "action \<Rightarrow> bool" where
  "ignore a \<longleftrightarrow> act_kind a = Ignore"

datatype parser_state =
    Ground | Escape | Escape_Intermediate | CSI_Entry | CSI_Param | CSI_Intermediate | CSI_Ignore
  | DCS_Entry | DCS_Param | DCS_Intermediate | DCS_Passthrough | DCS_Ignore | OSC_String
  | SOS_PM_APC_String

record transition =
  tx_next :: "parser_state option"
  tx_action :: action

definition Transition :: "action_kind \<Rightarrow> parser_state option \<Rightarrow> transition" where
  "Transition k next = \<lparr>tx_next = next, tx_action = Action k\<rparr>"

abbreviation Stay :: "action_kind \<Rightarrow> transition" where
  "Stay k \<equiv> Transition k None"

abbreviation Goto :: "parser_state \<Rightarrow> transition" where
  "Goto s \<equiv> Transition Ignore (Some s)"

definition enter :: "parser_state \<Rightarrow> action" where
  "enter s =
     (case s of Escape \<Rightarrow> Action Clear | CSI_Entry \<Rightarrow> Action Clear | DCS_Entry \<Rightarrow> Action Clear
      | DCS_Passthrough \<Rightarrow> Action Hook | OSC_String \<Rightarrow> Action OSC_Start | _ \<Rightarrow> Action Ignore)"

definition exit :: "parser_state \<Rightarrow> action" where
  "exit s =
     (case s of DCS_Passthrough \<Rightarrow> Action Unhook | OSC_String \<Rightarrow> Action OSC_End | _ \<Rightarrow> Action Ignore)"

section \<open>The state machine\<close>

definition anywhere_rule :: "int \<Rightarrow> transition option" where
  "anywhere_rule ch =
     (if ch = 0x18 \<or> ch = 0x1A \<or> (0x80 \<le> ch \<and> ch \<le> 0x8F) \<or> (0x91 \<le> ch \<and> ch \<le> 0x97) \<or> ch = 0x99 \<or> ch = 0x9A
      then Some (Transition Execute (Some Ground))
      else if ch = 0x9C then Some (Goto Ground)
      else if ch = 0x1B then Some (Goto Escape)
      else if ch = 0x98 \<or> ch = 0x9E \<or> ch = 0x9F then Some (Goto SOS_PM_APC_String)
      else if ch = 0x90 then Some (Goto DCS_Entry)
      else if ch = 0x9D then Some (Goto OSC_String)
      else if ch = 0x9B then Some (Goto CSI_Entry)
      else None)"

definition C0_prime :: "int \<Rightarrow> bool" where
  "C0_prime ch \<longleftrightarrow> ch \<le> 0x17 \<or> ch = 0x19 \<or> (0x1C \<le> ch \<and> ch \<le> 0x1F)"

definition GLGR :: "int \<Rightarrow> bool" where
  "GLGR ch \<longleftrightarrow> (0x20 \<le> ch \<and> ch \<le> 0x7F) \<or> (0xA0 \<le> ch \<and> ch \<le> 0xFF)"

definition rule_Ground :: "int \<Rightarrow> transition" where
  "rule_Ground ch =
     (if C0_prime ch then Stay Execute
      else if GLGR ch then Stay Print
      else Stay Ignore)"

definition rule_Escape :: "int \<Rightarrow> transition" where
  "rule_Escape ch =
     (if C0_prime ch then Stay Execute
      else if 0x20 \<le> ch \<and> ch \<le> 0x2F then Transition Collect (Some Escape_Intermediate)
      else if (0x30 \<le> ch \<and> ch \<le> 0x4F) \<or> (0x51 \<le> ch \<and> ch \<le> 0x57) \<or> ch = 0x59 \<or> ch = 0x5A \<or> ch = 0x5C
              \<or> (0x60 \<le> ch \<and> ch \<le> 0x7E)
      then Transition Esc_Dispatch (Some Ground)
      else if ch = 0x5B then Goto CSI_Entry
      else if ch = 0x5D then Goto OSC_String
      else if ch = 0x50 then Goto DCS_Entry
      else if ch = 0x58 \<or> ch = 0x5E \<or> ch = 0x5F then Goto SOS_PM_APC_String
      else Stay Ignore)"

definition rule_Escape_Intermediate :: "int \<Rightarrow> transition" where
  "rule_Escape_Intermediate ch =
     (if C0_prime ch then Stay Execute
      else if 0x20 \<le> ch \<and> ch \<le> 0x2F then Stay Collect
      else if 0x30 \<le> ch \<and> ch \<le> 0x7E then Transition Esc_Dispatch (Some Ground)
      else Stay Ignore)"

definition rule_CSI_Entry :: "int \<Rightarrow> transition" where
  "rule_CSI_Entry ch =
     (if C0_prime ch then Stay Execute
      else if 0x40 \<le> ch \<and> ch \<le> 0x7E then Transition CSI_Dispatch (Some Ground)
      else if (0x30 \<le> ch \<and> ch \<le> 0x39) \<or> ch = 0x3B then Transition Param (Some CSI_Param)
      else if 0x3C \<le> ch \<and> ch \<le> 0x3F then Transition Collect (Some CSI_Param)
      else if ch = 0x3A then Goto CSI_Ignore
      else if 0x20 \<le> ch \<and> ch \<le> 0x2F then Transition Collect (Some CSI_Intermediate)
      else Stay Ignore)"

definition rule_CSI_Param :: "int \<Rightarrow> transition" where
  "rule_CSI_Param ch =
     (if C0_prime ch then Stay Execute
      else if (0x30 \<le> ch \<and> ch \<le> 0x39) \<or> ch = 0x3B then Stay Param
      else if ch = 0x3A \<or> (0x3C \<le> ch \<and> ch \<le> 0x3F) then Goto CSI_Ignore
      else if 0x20 \<le> ch \<and> ch \<le> 0x2F then Transition Collect (Some CSI_Intermediate)
      else if 0x40 \<le> ch \<and> ch \<le> 0x7E then Transition CSI_Dispatch (Some Ground)
      else Stay Ignore)"

definition rule_CSI_Intermediate :: "int \<Rightarrow> transition" where
  "rule_CSI_Intermediate ch =
     (if C0_prime ch then Stay Execute
      else if 0x20 \<le> ch \<and> ch \<le> 0x2F then Stay Collect
      else if 0x40 \<le> ch \<and> ch \<le> 0x7E then Transition CSI_Dispatch (Some Ground)
      else if 0x30 \<le> ch \<and> ch \<le> 0x3F then Goto CSI_Ignore
      else Stay Ignore)"

definition rule_CSI_Ignore :: "int \<Rightarrow> transition" where
  "rule_CSI_Ignore ch =
     (if C0_prime ch then Stay Execute
      else if 0x40 \<le> ch \<and> ch \<le> 0x7E then Goto Ground
      else Stay Ignore)"

definition rule_DCS_Entry :: "int \<Rightarrow> transition" where
  "rule_DCS_Entry ch =
     (if 0x20 \<le> ch \<and> ch \<le> 0x2F then Transition Collect (Some DCS_Intermediate)
      else if ch = 0x3A then Goto DCS_Ignore
      else if (0x30 \<le> ch \<and> ch \<le> 0x39) \<or> ch = 0x3B then Transition Param (Some DCS_Param)
      else if 0x3C \<le> ch \<and> ch \<le> 0x3F then Transition Collect (Some DCS_Param)
      else if 0x40 \<le> ch \<and> ch \<le> 0x7E then Goto DCS_Passthrough
      else Stay Ignore)"

definition rule_DCS_Param :: "int \<Rightarrow> transition" where
  "rule_DCS_Param ch =
     (if (0x30 \<le> ch \<and> ch \<le> 0x39) \<or> ch = 0x3B then Stay Param
      else if ch = 0x3A \<or> (0x3C \<le> ch \<and> ch \<le> 0x3F) then Goto DCS_Ignore
      else if 0x20 \<le> ch \<and> ch \<le> 0x2F then Transition Collect (Some DCS_Intermediate)
      else if 0x40 \<le> ch \<and> ch \<le> 0x7E then Goto DCS_Passthrough
      else Stay Ignore)"

definition rule_DCS_Intermediate :: "int \<Rightarrow> transition" where
  "rule_DCS_Intermediate ch =
     (if 0x20 \<le> ch \<and> ch \<le> 0x2F then Stay Collect
      else if 0x40 \<le> ch \<and> ch \<le> 0x7E then Goto DCS_Passthrough
      else if 0x30 \<le> ch \<and> ch \<le> 0x3F then Goto DCS_Ignore
      else Stay Ignore)"

definition rule_DCS_Passthrough :: "int \<Rightarrow> transition" where
  "rule_DCS_Passthrough ch =
     (if C0_prime ch \<or> (0x20 \<le> ch \<and> ch \<le> 0x7E) then Stay Put
      else if ch = 0x9C then Goto Ground
      else Stay Ignore)"

definition rule_DCS_Ignore :: "int \<Rightarrow> transition" where
  "rule_DCS_Ignore ch = (if ch = 0x9C then Goto Ground else Stay Ignore)"

definition rule_OSC_String :: "int \<Rightarrow> transition" where
  "rule_OSC_String ch =
     (if 0x20 \<le> ch \<and> ch \<le> 0x7F then Stay OSC_Put
      else if ch = 0x9C \<or> ch = 0x07 then Goto Ground
      else Stay Ignore)"

definition rule_SOS_PM_APC_String :: "int \<Rightarrow> transition" where
  "rule_SOS_PM_APC_String ch = (if ch = 0x9C then Goto Ground else Stay Ignore)"

text \<open>The virtual call \<^verbatim>\<open>this->input_state_rule( ch )\<close>.\<close>

definition input_state_rule :: "parser_state \<Rightarrow> int \<Rightarrow> transition" where
  "input_state_rule s =
     (case s of
        Ground \<Rightarrow> rule_Ground
      | Escape \<Rightarrow> rule_Escape
      | Escape_Intermediate \<Rightarrow> rule_Escape_Intermediate
      | CSI_Entry \<Rightarrow> rule_CSI_Entry
      | CSI_Param \<Rightarrow> rule_CSI_Param
      | CSI_Intermediate \<Rightarrow> rule_CSI_Intermediate
      | CSI_Ignore \<Rightarrow> rule_CSI_Ignore
      | DCS_Entry \<Rightarrow> rule_DCS_Entry
      | DCS_Param \<Rightarrow> rule_DCS_Param
      | DCS_Intermediate \<Rightarrow> rule_DCS_Intermediate
      | DCS_Passthrough \<Rightarrow> rule_DCS_Passthrough
      | DCS_Ignore \<Rightarrow> rule_DCS_Ignore
      | OSC_String \<Rightarrow> rule_OSC_String
      | SOS_PM_APC_String \<Rightarrow> rule_SOS_PM_APC_String)"

definition with_char :: "int \<Rightarrow> transition \<Rightarrow> transition" where
  "with_char ch tx = tx\<lparr>tx_action := (tx_action tx)\<lparr>char_present := True, act_ch := ch\<rparr>\<rparr>"

definition state_input :: "parser_state \<Rightarrow> int \<Rightarrow> transition" where
  "state_input s ch =
     (case anywhere_rule ch of
        Some tx \<Rightarrow> with_char ch tx
      | None \<Rightarrow> with_char ch (input_state_rule s (if ch \<ge> 0xA0 then 0x41 else ch)))"

definition append_or_delete :: "action \<Rightarrow> action list" where
  "append_or_delete a = (if ignore a then [] else [a])"

definition parser_input :: "parser_state \<Rightarrow> int \<Rightarrow> parser_state \<times> action list" where
  "parser_input s ch =
     (let tx = state_input s ch in
      case tx_next tx of
        None \<Rightarrow> (s, append_or_delete (tx_action tx))
      | Some s' \<Rightarrow> (s', append_or_delete (exit s) @ append_or_delete (tx_action tx) @ append_or_delete (enter s')))"

fun parser_inputs :: "parser_state \<Rightarrow> int list \<Rightarrow> parser_state \<times> action list" where
  "parser_inputs s [] = (s, [])"
| "parser_inputs s (ch # chs) =
     (case parser_input s ch of (s1, as1) \<Rightarrow>
      case parser_inputs s1 chs of (s2, as2) \<Rightarrow> (s2, as1 @ as2))"

section \<open>UTF-8 input\<close>

definition BUF_SIZE :: nat where "BUF_SIZE = 8"

text \<open>What \<^verbatim>\<open>mbrtowc\<close> returns on a non-empty buffer: the byte count and the character (0 bytes for a NUL), \<^verbatim>\<open>(size_t)-1\<close> with
  \<^verbatim>\<open>EILSEQ\<close>, or \<^verbatim>\<open>(size_t)-2\<close>.\<close>

datatype mb_result = Mb_parsed nat int | Mb_illegal | Mb_incomplete

record utf8_parser =
  utf8_state :: parser_state
  utf8_buf :: bytes

definition UTF8Parser :: utf8_parser where
  "UTF8Parser = \<lparr>utf8_state = Ground, utf8_buf = []\<rparr>"

definition reset_input :: "utf8_parser \<Rightarrow> utf8_parser" where
  "reset_input u = u\<lparr>utf8_state := Ground, utf8_buf := []\<rparr>"

definition check_wchar :: "int \<Rightarrow> int" where
  "check_wchar pwc =
     (let pwcheck = pwc mod 2 ^ 32 in
      if pwcheck > 0x10FFFF \<or> (0xD800 \<le> pwcheck \<and> pwcheck \<le> 0xDFFF) then 0xFFFD else pwc)"

text \<open>One conversion: the buffer left, the number of bytes accounted for, and the character unless the
  sequence is incomplete.\<close>

definition convert :: "(bytes \<Rightarrow> mb_result) \<Rightarrow> bytes \<Rightarrow> (bytes \<times> nat \<times> int option) result" where
  "convert mb buf =
     (case mb buf of
        Mb_illegal \<Rightarrow>
          if length buf > 1 then Inr ([last buf], length buf - 1, Some 0xFFFD) else Inr ([], 1, Some 0xFFFD)
      | Mb_incomplete \<Rightarrow> Inr (buf, length buf, None)
      | Mb_parsed n pwc \<Rightarrow>
          if n = 0 then (if length buf = 1 then Inr ([], 1, Some 0) else Inl AssertFailed)
          else if n \<le> length buf then Inr (drop n buf, n, Some pwc) else Inl AssertFailed)"

lemma convert_progress: "convert mb buf = Inr (buf', parsed, r) \<Longrightarrow> buf \<noteq> [] \<Longrightarrow> 0 < parsed"
  by (auto simp: convert_def split: mb_result.splits if_splits)

function (sequential) utf8_loop :: "(bytes \<Rightarrow> mb_result) \<Rightarrow> nat \<Rightarrow> nat \<Rightarrow> parser_state \<Rightarrow> bytes \<Rightarrow> action list
    \<Rightarrow> (parser_state \<times> bytes \<times> action list) result" where
  "utf8_loop mb tot orig s buf acts =
     (if tot = orig then Inr (s, buf, acts)
      else if \<not> tot < orig then Inl AssertFailed
      else if buf = [] then Inl AssertFailed
      else case convert mb buf of
             Inl e \<Rightarrow> Inl e
           | Inr (buf', parsed, None) \<Rightarrow> utf8_loop mb (tot + parsed) orig s buf' acts
           | Inr (buf', parsed, Some pwc) \<Rightarrow>
               (case parser_input s (check_wchar pwc) of (s', as) \<Rightarrow>
                utf8_loop mb (tot + parsed) orig s' buf' (acts @ as)))"
  by pat_completeness auto

termination
  by (relation "measure (\<lambda>(mb, tot, orig, s, buf, acts). orig - tot)")
    (auto dest!: convert_progress)

definition utf8_input :: "(bytes \<Rightarrow> mb_result) \<Rightarrow> utf8_parser \<Rightarrow> byte \<Rightarrow> (utf8_parser \<times> action list) result" where
  "utf8_input mb u c =
     bindE (assertE (length (utf8_buf u) < BUF_SIZE) AssertFailed) (\<lambda>_.
     if utf8_buf u = [] \<and> c \<le> 0x7f
     then (case parser_input (utf8_state u) (uint c) of (s, as) \<Rightarrow> Inr (u\<lparr>utf8_state := s\<rparr>, as))
     else (let buf = utf8_buf u @ [c] in
           bindE (utf8_loop mb 0 (length buf) (utf8_state u) buf []) (\<lambda>(s, buf', as).
           Inr (u\<lparr>utf8_state := s, utf8_buf := buf'\<rparr>, as))))"

fun utf8_inputs :: "(bytes \<Rightarrow> mb_result) \<Rightarrow> utf8_parser \<Rightarrow> bytes \<Rightarrow> (utf8_parser \<times> action list) result" where
  "utf8_inputs mb u [] = Inr (u, [])"
| "utf8_inputs mb u (c # cs) =
     bindE (utf8_input mb u c) (\<lambda>(u1, as1).
     bindE (utf8_inputs mb u1 cs) (\<lambda>(u2, as2). Inr (u2, as1 @ as2)))"

section \<open>What the C library promises\<close>

text \<open>
  \<^verbatim>\<open>mbrtowc\<close> in a UTF-8 locale, from the initial conversion state: a NUL byte is the NUL character, an ASCII byte is itself; a
  converted character lies at the front of the buffer and what follows it does not matter; an incomplete sequence is shorter
  than \<^verbatim>\<open>MB_CUR_MAX\<close>, which the constructor of UTF8Parser checks to be at most \<^verbatim>\<open>BUF_SIZE\<close>; no ASCII byte continues a sequence.
\<close>

definition wchar :: "int \<Rightarrow> bool" where
  "wchar wc \<longleftrightarrow> - (2 ^ 31) \<le> wc \<and> wc < 2 ^ 31"

definition mbrtowc_ok :: "(bytes \<Rightarrow> mb_result) \<Rightarrow> bool" where
  "mbrtowc_ok mb \<longleftrightarrow>
     (\<forall>c. mb [c] = Mb_parsed 0 0 \<longleftrightarrow> c = 0) \<and>
     (\<forall>c. 0 < c \<and> c \<le> 0x7f \<longrightarrow> mb [c] = Mb_parsed 1 (uint c)) \<and>
     (\<forall>bs cs n wc. bs \<noteq> [] \<longrightarrow> mb bs = Mb_parsed n wc \<longrightarrow>
        wchar wc \<and> n \<le> length bs \<and> mb (take (max 1 n) bs) = Mb_parsed n wc \<and> mb (bs @ cs) = Mb_parsed n wc) \<and>
     (\<forall>c wc. mb [c] = Mb_parsed 0 wc \<longrightarrow> wc = 0) \<and>
     (\<forall>bs. bs \<noteq> [] \<longrightarrow> mb bs = Mb_incomplete \<longrightarrow> length bs < BUF_SIZE) \<and>
     (\<forall>bs c. bs \<noteq> [] \<longrightarrow> mb bs = Mb_incomplete \<longrightarrow> c \<le> 0x7f \<longrightarrow> mb (bs @ [c]) = Mb_illegal)"

definition scalar :: "int \<Rightarrow> bool" where
  "scalar ch \<longleftrightarrow> 0 \<le> ch \<and> ch \<le> 0x10FFFF \<and> \<not> (0xD800 \<le> ch \<and> ch \<le> 0xDFFF)"

definition utf8_ok :: "(bytes \<Rightarrow> mb_result) \<Rightarrow> utf8_parser \<Rightarrow> bool" where
  "utf8_ok mb u \<longleftrightarrow> utf8_buf u = [] \<or> mb (utf8_buf u) = Mb_incomplete"

lemma mbrtowc_parsedD:
  assumes "mbrtowc_ok mb" "bs \<noteq> []" "mb bs = Mb_parsed n wc"
  shows "wchar wc" "n \<le> length bs" "mb (take (max 1 n) bs) = Mb_parsed n wc" "mb (bs @ cs) = Mb_parsed n wc"
proof -
  have "\<forall>bs cs n wc. bs \<noteq> [] \<longrightarrow> mb bs = Mb_parsed n wc \<longrightarrow>
      wchar wc \<and> n \<le> length bs \<and> mb (take (max 1 n) bs) = Mb_parsed n wc \<and> mb (bs @ cs) = Mb_parsed n wc"
    using assms(1) unfolding mbrtowc_ok_def by (elim conjE)
  from this [rule_format, OF assms(2, 3), of cs]
  show "wchar wc" "n \<le> length bs" "mb (take (max 1 n) bs) = Mb_parsed n wc" "mb (bs @ cs) = Mb_parsed n wc"
    by simp_all
qed

lemma mbrtowc_incompleteD:
  assumes "mbrtowc_ok mb" "bs \<noteq> []" "mb bs = Mb_incomplete"
  shows "length bs < BUF_SIZE" "c \<le> 0x7f \<Longrightarrow> mb (bs @ [c]) = Mb_illegal"
  using assms unfolding mbrtowc_ok_def by blast+

lemma mbrtowc_ascii: "mbrtowc_ok mb \<Longrightarrow> 0 < c \<Longrightarrow> c \<le> 0x7f \<Longrightarrow> mb [c] = Mb_parsed 1 (uint c)"
  by (simp add: mbrtowc_ok_def)

lemma mbrtowc_nul: "mbrtowc_ok mb \<Longrightarrow> mb [0] = Mb_parsed 0 0"
  by (simp add: mbrtowc_ok_def)

text \<open>A buffer whose front part is incomplete converts as a whole, or not at all.\<close>

lemma mbrtowc_extend:
  assumes ok: "mbrtowc_ok mb" and inc: "bs \<noteq> []" "mb bs = Mb_incomplete" and p: "mb (bs @ [c]) = Mb_parsed n wc"
  shows "n = length bs + 1"
proof (rule ccontr)
  assume "n \<noteq> length bs + 1"
  moreover have "n \<le> length bs + 1"
    using mbrtowc_parsedD(2) [OF ok _ p] by simp
  ultimately have n: "max 1 n \<le> length bs"
    using inc(1) by (cases bs) auto
  have "mb (take (max 1 n) (bs @ [c])) = Mb_parsed n wc"
    using mbrtowc_parsedD(3) [OF ok _ p] by simp
  then have t: "mb (take (max 1 n) bs) = Mb_parsed n wc"
    using n by simp
  have "take (max 1 n) bs \<noteq> []"
    using inc(1) by simp
  from mbrtowc_parsedD(4) [OF ok this t, of "drop (max 1 n) bs"] show False
    using inc(2) by simp
qed

lemma check_wchar_scalar: "wchar wc \<Longrightarrow> scalar (check_wchar wc)"
proof -
  assume w: "wchar wc"
  consider "0 \<le> wc" | "wc < 0" by linarith
  then show ?thesis
  proof cases
    case 1
    then have "wc mod 2 ^ 32 = wc" using w by (simp add: wchar_def)
    then show ?thesis using 1 by (auto simp: check_wchar_def scalar_def)
  next
    case 2
    then have "(wc + 2 ^ 32) mod 2 ^ 32 = wc + 2 ^ 32"
      using w by (intro mod_pos_pos_trivial) (simp_all add: wchar_def)
    then have "wc mod 2 ^ 32 = wc + 2 ^ 32" by simp
    then show ?thesis using 2 w by (auto simp: check_wchar_def scalar_def wchar_def)
  qed
qed

lemma check_wchar_id: "scalar ch \<Longrightarrow> check_wchar ch = ch"
  by (auto simp: check_wchar_def scalar_def)

lemma parser_inputs_append:
  "parser_inputs s (xs @ ys) =
     (case parser_inputs s xs of (s1, as1) \<Rightarrow> case parser_inputs s1 ys of (s2, as2) \<Rightarrow> (s2, as1 @ as2))"
  by (induction xs arbitrary: s) (auto split: prod.splits)

section \<open>The UTF-8 layer\<close>

text \<open>The code points one octet can give: none, one, or a replacement character and one more.\<close>

definition burst :: "int list \<Rightarrow> bool" where
  "burst cps \<longleftrightarrow> list_all scalar cps \<and> (length cps \<le> 1 \<or> (\<exists>ch. cps = [0xFFFD, ch]))"

lemma burst_simps [simp]: "burst []" "burst [ch] = scalar ch"
  "burst [0xFFFD, ch] = scalar ch"
  by (auto simp: burst_def scalar_def)

text \<open>One byte in the buffer: at most one character.\<close>

lemma utf8_loop_done [simp]: "utf8_loop mb n n s buf acts = Inr (s, buf, acts)"
  by simp

lemma utf8_loop_step:
  assumes "buf \<noteq> []" "tot < orig"
  shows "utf8_loop mb tot orig s buf acts =
     (case convert mb buf of
        Inl e \<Rightarrow> Inl e
      | Inr (buf', parsed, None) \<Rightarrow> utf8_loop mb (tot + parsed) orig s buf' acts
      | Inr (buf', parsed, Some pwc) \<Rightarrow>
          (case parser_input s (check_wchar pwc) of (s', as) \<Rightarrow> utf8_loop mb (tot + parsed) orig s' buf' (acts @ as)))"
  using assms by (subst utf8_loop.simps) simp

declare utf8_loop.simps [simp del]

lemma utf8_loop_single:
  assumes ok: "mbrtowc_ok mb"
  shows "\<exists>s' buf' as cps. utf8_loop mb n (Suc n) s [c] acts = Inr (s', buf', acts @ as) \<and>
     (buf' = [] \<or> mb buf' = Mb_incomplete) \<and> parser_inputs s cps = (s', as) \<and> list_all scalar cps \<and> length cps \<le> 1"
proof (cases "mb [c]")
  case (Mb_parsed k wc)
  have w: "wchar wc" "k \<le> 1" using mbrtowc_parsedD [OF ok _ Mb_parsed] by simp_all
  obtain s' as where p: "parser_input s (check_wchar (if k = 0 then 0 else wc)) = (s', as)" by fastforce
  have "scalar (check_wchar (if k = 0 then 0 else wc))"
    using w(1) by (simp add: check_wchar_scalar wchar_def)
  moreover have "utf8_loop mb n (Suc n) s [c] acts = Inr (s', [], acts @ as)"
    using Mb_parsed w(2) p by (cases "k = 0") (simp_all add: utf8_loop_step convert_def le_Suc_eq)
  ultimately show ?thesis
    using p by (intro exI [of _ s'] exI [of _ "[]"] exI [of _ as] exI [of _ "[check_wchar (if k = 0 then 0 else wc)]"]) simp
next
  case Mb_illegal
  obtain s' as where p: "parser_input s 0xFFFD = (s', as)" by fastforce
  have "check_wchar 0xFFFD = 0xFFFD" by (simp add: check_wchar_def)
  then have "utf8_loop mb n (Suc n) s [c] acts = Inr (s', [], acts @ as)"
    using Mb_illegal p by (simp add: utf8_loop_step convert_def)
  then show ?thesis
    using p by (intro exI [of _ s'] exI [of _ "[]"] exI [of _ as] exI [of _ "[0xFFFD]"]) (simp add: scalar_def)
next
  case Mb_incomplete
  then have "utf8_loop mb n (Suc n) s [c] acts = Inr (s, [c], acts)"
    by (simp add: utf8_loop_step convert_def)
  then show ?thesis
    using Mb_incomplete by (intro exI [of _ s] exI [of _ "[c]"] exI [of _ "[]"]) simp
qed

text \<open>An incomplete sequence and one more byte: the sequence is completed, grows, or is replaced and the byte starts afresh.\<close>

lemma utf8_loop_extend:
  assumes ok: "mbrtowc_ok mb" and inc: "bs \<noteq> []" "mb bs = Mb_incomplete"
  shows "\<exists>s' buf' as cps. utf8_loop mb 0 (Suc (length bs)) s (bs @ [c]) [] = Inr (s', buf', as) \<and>
     (buf' = [] \<or> mb buf' = Mb_incomplete) \<and> parser_inputs s cps = (s', as) \<and> burst cps"
proof (cases "mb (bs @ [c])")
  case (Mb_parsed n wc)
  have n: "n = length bs + 1" by (rule mbrtowc_extend [OF ok inc Mb_parsed])
  have w: "wchar wc" using mbrtowc_parsedD [OF ok _ Mb_parsed] by simp
  obtain s' as where p: "parser_input s (check_wchar wc) = (s', as)" by fastforce
  have "utf8_loop mb 0 (Suc (length bs)) s (bs @ [c]) [] = Inr (s', [], as)"
    using Mb_parsed n p by (simp add: utf8_loop_step convert_def)
  then show ?thesis
    using p check_wchar_scalar [OF w] by (intro exI [of _ s'] exI [of _ "[]"] exI [of _ as] exI [of _ "[check_wchar wc]"]) simp
next
  case Mb_illegal
  obtain s1 as1 where p: "parser_input s 0xFFFD = (s1, as1)" by fastforce
  have "check_wchar 0xFFFD = 0xFFFD" by (simp add: check_wchar_def)
  then have step: "utf8_loop mb 0 (Suc (length bs)) s (bs @ [c]) [] = utf8_loop mb (length bs) (Suc (length bs)) s1 [c] as1"
    using Mb_illegal p inc(1) by (simp add: utf8_loop_step convert_def)
  from utf8_loop_single [OF ok, of "length bs" s1 c as1] obtain s' buf' as cps where
    r: "utf8_loop mb (length bs) (Suc (length bs)) s1 [c] as1 = Inr (s', buf', as1 @ as)"
      "buf' = [] \<or> mb buf' = Mb_incomplete" "parser_inputs s1 cps = (s', as)" "list_all scalar cps" "length cps \<le> 1"
    by blast
  have "burst (0xFFFD # cps)"
    using r(4, 5) by (cases cps) (simp_all add: scalar_def)
  then show ?thesis
    using step r p by (intro exI [of _ s'] exI [of _ buf'] exI [of _ "as1 @ as"] exI [of _ "0xFFFD # cps"])
      simp
next
  case Mb_incomplete
  then have "utf8_loop mb 0 (Suc (length bs)) s (bs @ [c]) [] = Inr (s, bs @ [c], [])"
    by (simp add: utf8_loop_step convert_def)
  then show ?thesis
    using Mb_incomplete by (intro exI [of _ s] exI [of _ "bs @ [c]"] exI [of _ "[]"]) simp
qed

lemma utf8_input_total:
  assumes ok: "mbrtowc_ok mb" and u: "utf8_ok mb u"
  shows "\<exists>u' as cps. utf8_input mb u c = Inr (u', as) \<and> utf8_ok mb u' \<and>
     parser_inputs (utf8_state u) cps = (utf8_state u', as) \<and> burst cps"
proof (cases "utf8_buf u = []")
  case True
  show ?thesis
  proof (cases "c \<le> 0x7f")
    case ascii: True
    obtain s as where p: "parser_input (utf8_state u) (uint c) = (s, as)" by fastforce
    have "uint c \<le> 127" using ascii by (simp add: word_le_def)
    then have "scalar (uint c)" by (simp add: scalar_def)
    then show ?thesis
      using True ascii p
      by (intro exI [of _ "u\<lparr>utf8_state := s\<rparr>"] exI [of _ as] exI [of _ "[uint c]"])
        (simp add: utf8_input_def utf8_ok_def BUF_SIZE_def)
  next
    case False
    from utf8_loop_single [OF ok, of 0 "utf8_state u" c "[]"] obtain s' buf' as cps where
      r: "utf8_loop mb 0 (Suc 0) (utf8_state u) [c] [] = Inr (s', buf', as)"
        "buf' = [] \<or> mb buf' = Mb_incomplete" "parser_inputs (utf8_state u) cps = (s', as)" "burst cps"
      by (auto simp: burst_def)
    show ?thesis
      using True False r
      by (intro exI [of _ "u\<lparr>utf8_state := s', utf8_buf := buf'\<rparr>"] exI [of _ as] exI [of _ cps])
        (simp add: utf8_input_def utf8_ok_def BUF_SIZE_def)
  qed
next
  case False
  then have inc: "mb (utf8_buf u) = Mb_incomplete" using u by (simp add: utf8_ok_def)
  have l: "length (utf8_buf u) < BUF_SIZE" by (rule mbrtowc_incompleteD(1) [OF ok False inc])
  from utf8_loop_extend [OF ok False inc, of "utf8_state u" c] obtain s' buf' as cps where
    r: "utf8_loop mb 0 (Suc (length (utf8_buf u))) (utf8_state u) (utf8_buf u @ [c]) [] = Inr (s', buf', as)"
      "buf' = [] \<or> mb buf' = Mb_incomplete" "parser_inputs (utf8_state u) cps = (s', as)" "burst cps"
    by auto
  show ?thesis
    using False l r
    by (intro exI [of _ "u\<lparr>utf8_state := s', utf8_buf := buf'\<rparr>"] exI [of _ as] exI [of _ cps])
      (simp add: utf8_input_def utf8_ok_def)
qed

lemma utf8_inputs_total:
  assumes ok: "mbrtowc_ok mb" and u: "utf8_ok mb u"
  shows "\<exists>u' as cps. utf8_inputs mb u bs = Inr (u', as) \<and> utf8_ok mb u' \<and>
     parser_inputs (utf8_state u) cps = (utf8_state u', as) \<and> list_all scalar cps"
  using u
proof (induction bs arbitrary: u)
  case Nil
  then show ?case by (intro exI [of _ u] exI [of _ "[]"]) simp
next
  case (Cons c bs)
  from utf8_input_total [OF ok Cons.prems, of c] obtain u1 as1 cps1 where
    1: "utf8_input mb u c = Inr (u1, as1)" "utf8_ok mb u1"
      "parser_inputs (utf8_state u) cps1 = (utf8_state u1, as1)" "burst cps1"
    by blast
  from Cons.IH [OF 1(2)] obtain u2 as2 cps2 where
    2: "utf8_inputs mb u1 bs = Inr (u2, as2)" "utf8_ok mb u2"
      "parser_inputs (utf8_state u1) cps2 = (utf8_state u2, as2)" "list_all scalar cps2"
    by blast
  show ?case
    using 1 2 by (intro exI [of _ u2] exI [of _ "as1 @ as2"] exI [of _ "cps1 @ cps2"])
      (simp add: parser_inputs_append burst_def)
qed

lemma utf8_ok_length: "mbrtowc_ok mb \<Longrightarrow> utf8_ok mb u \<Longrightarrow> length (utf8_buf u) < BUF_SIZE"
  by (cases "utf8_buf u = []") (auto simp: utf8_ok_def BUF_SIZE_def dest: mbrtowc_incompleteD(1))

section \<open>Actions\<close>

lemmas state_rules =
  rule_Ground_def rule_Escape_def rule_Escape_Intermediate_def rule_CSI_Entry_def rule_CSI_Param_def
  rule_CSI_Intermediate_def rule_CSI_Ignore_def rule_DCS_Entry_def rule_DCS_Param_def
  rule_DCS_Intermediate_def rule_DCS_Passthrough_def rule_DCS_Ignore_def rule_OSC_String_def
  rule_SOS_PM_APC_String_def

text \<open>What the terminal may rely on: an action that is given a character has one, and the character is in the range of the action's kind.\<close>

definition action_ok :: "action \<Rightarrow> bool" where
  "action_ok a \<longleftrightarrow>
     (act_kind a \<in> {Print, Execute, Collect, Param, Esc_Dispatch, CSI_Dispatch, OSC_Put} \<longrightarrow>
        char_present a \<and> scalar (act_ch a)) \<and>
     (act_kind a = Execute \<longrightarrow> act_ch a \<le> 0x9F) \<and>
     (act_kind a = Param \<longrightarrow> act_ch a = 0x3B \<or> (0x30 \<le> act_ch a \<and> act_ch a \<le> 0x39)) \<and>
     (act_kind a = Collect \<longrightarrow> 0x20 \<le> act_ch a \<and> act_ch a \<le> 0x3F) \<and>
     (act_kind a = CSI_Dispatch \<longrightarrow> 0x40 \<le> act_ch a) \<and>
     (act_kind a = Esc_Dispatch \<longrightarrow> 0x30 \<le> act_ch a)"

lemma action_ok_enter_exit: "action_ok (enter s)" "action_ok (exit s)"
  by (auto simp: action_ok_def enter_def exit_def Action_def split: parser_state.splits)

lemma action_ok_with_char:
  "action_ok (tx_action (with_char ch (Transition k n))) \<longleftrightarrow>
     (case k of Print \<Rightarrow> scalar ch | OSC_Put \<Rightarrow> scalar ch | Execute \<Rightarrow> scalar ch \<and> ch \<le> 0x9F
      | Param \<Rightarrow> scalar ch \<and> (ch = 0x3B \<or> 0x30 \<le> ch \<and> ch \<le> 0x39) | Collect \<Rightarrow> scalar ch \<and> 0x20 \<le> ch \<and> ch \<le> 0x3F
      | CSI_Dispatch \<Rightarrow> scalar ch \<and> 0x40 \<le> ch | Esc_Dispatch \<Rightarrow> scalar ch \<and> 0x30 \<le> ch | _ \<Rightarrow> True)"
  by (cases k) (auto simp: with_char_def Transition_def Action_def action_ok_def)

lemma rules_action_ok:
  assumes "scalar ch"
  shows "action_ok (tx_action (with_char ch (input_state_rule s (if ch \<ge> 0xA0 then 0x41 else ch))))"
proof (cases "ch \<ge> 0xA0")
  case True
  then show ?thesis
    using assms by (cases s) (simp_all add: input_state_rule_def state_rules action_ok_with_char C0_prime_def GLGR_def)
next
  case False
  then show ?thesis
    using assms by (cases s) (simp_all add: input_state_rule_def state_rules action_ok_with_char C0_prime_def)
qed

lemma action_ok_state_input: "scalar ch \<Longrightarrow> action_ok (tx_action (state_input s ch))"
  using rules_action_ok [of ch s]
  by (auto simp: state_input_def anywhere_rule_def action_ok_with_char)

lemma parser_input_action_ok: "scalar ch \<Longrightarrow> list_all action_ok (snd (parser_input s ch))"
  using action_ok_state_input [of ch s]
  by (auto simp: parser_input_def Let_def append_or_delete_def action_ok_enter_exit split: option.splits)

lemma parser_inputs_action_ok: "list_all scalar chs \<Longrightarrow> list_all action_ok (snd (parser_inputs s chs))"
proof (induction chs arbitrary: s)
  case (Cons ch chs)
  then show ?case
    using parser_input_action_ok [of ch s] by (auto split: prod.splits) (metis snd_conv)
qed simp

lemma quiet_exit: "ignore (exit s) \<or> s = DCS_Passthrough \<or> s = OSC_String"
  by (cases s) (simp_all add: exit_def ignore_def Action_def)

lemma length_append_or_delete: "length (append_or_delete a) \<le> 1" "ignore a \<Longrightarrow> append_or_delete a = []"
  by (simp_all add: append_or_delete_def)

lemma anywhere_cases: "anywhere_rule ch = Some tx \<Longrightarrow> tx = Transition Execute (Some Ground) \<or> (\<exists>s. tx = Goto s)"
  by (auto simp: anywhere_rule_def split: if_split_asm)

lemma leave_string_quiet:
  assumes "tx_next (state_input s ch) = Some s'" "s = DCS_Passthrough \<or> s = OSC_String"
  shows "ignore (tx_action (state_input s ch)) \<or> ignore (enter s')"
proof (cases "anywhere_rule ch")
  case None
  then show ?thesis
    using assms by (auto simp: state_input_def input_state_rule_def rule_DCS_Passthrough_def rule_OSC_String_def with_char_def
        Transition_def Action_def ignore_def split: if_splits)
next
  case (Some tx)
  then show ?thesis
    using assms(1) anywhere_cases [OF Some]
    by (auto simp: state_input_def with_char_def Transition_def Action_def ignore_def enter_def)
qed

lemma parser_input_two: "length (snd (parser_input s ch)) \<le> 2"
proof (cases "tx_next (state_input s ch)")
  case None
  then show ?thesis by (simp add: parser_input_def append_or_delete_def Let_def)
next
  case (Some s')
  have "ignore (exit s) \<or> ignore (tx_action (state_input s ch)) \<or> ignore (enter s')"
    using quiet_exit [of s] leave_string_quiet [OF Some] by blast
  then show ?thesis
    using Some length_append_or_delete(1) [of "exit s"] length_append_or_delete(1) [of "tx_action (state_input s ch)"]
      length_append_or_delete(1) [of "enter s'"]
    by (auto simp: parser_input_def Let_def length_append_or_delete(2))
qed

lemma parser_input_replacement: "length (snd (parser_input s 0xFFFD)) \<le> 1"
  unfolding parser_input_def state_input_def anywhere_rule_def input_state_rule_def
  by (cases s) (simp_all add: state_rules with_char_def Transition_def Action_def append_or_delete_def ignore_def enter_def exit_def
      C0_prime_def GLGR_def Let_def)

lemma burst_three: "burst cps \<Longrightarrow> length (snd (parser_inputs s cps)) \<le> 3"
proof -
  assume "burst cps"
  then consider "cps = []" | ch where "cps = [ch]" | ch where "cps = [0xFFFD, ch]"
    by (auto simp: burst_def le_Suc_eq length_Suc_conv)
  then show ?thesis
  proof cases
    case 2
    then show ?thesis using parser_input_two [of s ch] by (auto split: prod.splits)
  next
    case 3
    obtain s1 as1 where 1: "parser_input s 0xFFFD = (s1, as1)" by fastforce
    obtain s2 as2 where 2: "parser_input s1 ch = (s2, as2)" by fastforce
    show ?thesis
      using 3 1 2 parser_input_replacement [of s] parser_input_two [of s1 ch] by simp
  qed simp
qed

section \<open>Well-formed text\<close>

lemma utf8_inputs_append:
  "utf8_inputs mb u (xs @ ys) =
     bindE (utf8_inputs mb u xs) (\<lambda>(u1, as1). bindE (utf8_inputs mb u1 ys) (\<lambda>(u2, as2). Inr (u2, as1 @ as2)))"
proof (induction xs arbitrary: u)
  case Nil
  show ?case by (cases "utf8_inputs mb u ys") auto
next
  case (Cons c xs)
  show ?case
    by (cases "utf8_input mb u c") (auto simp: Cons bindE_assoc split_beta)
qed

text \<open>A byte sequence that is the encoding of a code point: one ASCII byte, or a sequence the C library converts as a whole.\<close>

definition encodes :: "(bytes \<Rightarrow> mb_result) \<Rightarrow> bytes \<Rightarrow> int \<Rightarrow> bool" where
  "encodes mb bs ch \<longleftrightarrow>
     (\<exists>c. bs = [c] \<and> c \<le> 0x7f \<and> ch = uint c) \<or>
     (bs \<noteq> [] \<and> \<not> hd bs \<le> 0x7f \<and> scalar ch \<and> mb bs = Mb_parsed (length bs) ch \<and>
      (\<forall>k < length bs. 0 < k \<longrightarrow> mb (take k bs) = Mb_incomplete))"

lemma utf8_prefix:
  assumes ok: "mbrtowc_ok mb" and h: "bs \<noteq> []" "\<not> hd bs \<le> 0x7f"
    and inc: "\<And>k. k < length bs \<Longrightarrow> 0 < k \<Longrightarrow> mb (take k bs) = Mb_incomplete"
    and u: "utf8_buf u = []" and k: "k < length bs"
  shows "utf8_inputs mb u (take k bs) = Inr (u\<lparr>utf8_buf := take k bs\<rparr>, [])"
  using k
proof (induction k)
  case 0
  then show ?case using u by simp
next
  case (Suc k)
  then have t: "take (Suc k) bs = take k bs @ [bs ! k]" by (simp add: take_Suc_conv_app_nth)
  have b: "mb (take k bs @ [bs ! k]) = Mb_incomplete" using inc [of "Suc k"] Suc.prems t by simp
  have "length (take k bs) < BUF_SIZE"
    using mbrtowc_incompleteD(1) [OF ok _ b] by simp
  moreover have "\<not> (take k bs = [] \<and> bs ! k \<le> 0x7f)"
    using h by (cases k) (auto simp: hd_conv_nth)
  ultimately have "utf8_input mb (u\<lparr>utf8_buf := take k bs\<rparr>) (bs ! k) = Inr (u\<lparr>utf8_buf := take k bs @ [bs ! k]\<rparr>, [])"
    using b by (auto simp: utf8_input_def Let_def utf8_loop_step convert_def)
  then show ?case
    using Suc t by (simp add: utf8_inputs_append)
qed

lemma utf8_encoded_char:
  assumes ok: "mbrtowc_ok mb" and e: "encodes mb bs ch" and u: "utf8_buf u = []"
  shows "utf8_inputs mb u bs = (case parser_input (utf8_state u) ch of (s, as) \<Rightarrow> Inr (u\<lparr>utf8_state := s\<rparr>, as))"
proof (cases "\<exists>c. bs = [c] \<and> c \<le> 0x7f \<and> ch = uint c")
  case True
  then show ?thesis
    using u by (auto simp: utf8_input_def BUF_SIZE_def split: prod.splits)
next
  case False
  then have h: "bs \<noteq> []" "\<not> hd bs \<le> 0x7f" "scalar ch" "mb bs = Mb_parsed (length bs) ch"
    "\<And>k. k < length bs \<Longrightarrow> 0 < k \<Longrightarrow> mb (take k bs) = Mb_incomplete"
    using e by (auto simp: encodes_def)
  obtain pre c where b: "bs = pre @ [c]" using h(1) by (cases bs rule: rev_cases) auto
  have pre: "utf8_inputs mb u pre = Inr (u\<lparr>utf8_buf := pre\<rparr>, [])"
    using utf8_prefix [OF ok h(1, 2, 5) u, of "length pre"] b by simp
  have l: "length pre < BUF_SIZE"
  proof (cases "pre = []")
    case False
    then show ?thesis using mbrtowc_incompleteD(1) [OF ok False] h(5) [of "length pre"] b by simp
  qed (simp add: BUF_SIZE_def)
  have n: "\<not> (pre = [] \<and> c \<le> 0x7f)" using h(2) b by auto
  obtain s as where p: "parser_input (utf8_state u) ch = (s, as)" by fastforce
  have "utf8_input mb (u\<lparr>utf8_buf := pre\<rparr>) c = Inr (u\<lparr>utf8_state := s\<rparr>, as)"
    using l n p h(3, 4) b u by (auto simp: utf8_input_def Let_def utf8_loop_step convert_def check_wchar_id)
  then show ?thesis
    using pre p b by (simp add: utf8_inputs_append)
qed

section \<open>Resynchronisation\<close>

lemma escape_from_anywhere: "parser_input s 0x1B = (Escape, append_or_delete (exit s) @ [Action Clear])"
  by (simp add: parser_input_def state_input_def anywhere_rule_def with_char_def Transition_def Action_def
      append_or_delete_def ignore_def enter_def)

lemma utf8_input_escape:
  assumes ok: "mbrtowc_ok mb" and u: "utf8_ok mb u"
  shows "\<exists>pre. utf8_input mb u 0x1B = Inr (\<lparr>utf8_state = Escape, utf8_buf = []\<rparr>, pre @ [Action Clear]) \<and> length pre \<le> 2"
proof (cases "utf8_buf u = []")
  case True
  then have "utf8_input mb u 0x1B = Inr (\<lparr>utf8_state = Escape, utf8_buf = []\<rparr>, append_or_delete (exit (utf8_state u)) @ [Action Clear])"
    by (simp add: utf8_input_def BUF_SIZE_def escape_from_anywhere)
  then show ?thesis
    by (intro exI [of _ "append_or_delete (exit (utf8_state u))"]) (simp add: append_or_delete_def)
next
  case False
  then have inc: "mb (utf8_buf u) = Mb_incomplete" using u by (simp add: utf8_ok_def)
  have il: "mb (utf8_buf u @ [0x1B]) = Mb_illegal" by (rule mbrtowc_incompleteD(2) [OF ok False inc]) simp
  have one: "mb [0x1B] = Mb_parsed 1 0x1B" using mbrtowc_ascii [OF ok, of "0x1B"] by simp
  obtain s1 as1 where p: "parser_input (utf8_state u) 0xFFFD = (s1, as1)" by fastforce
  have len: "length as1 \<le> 1" using parser_input_replacement [of "utf8_state u"] p by simp
  have c: "check_wchar 0xFFFD = 0xFFFD" "check_wchar 0x1B = 0x1B" by (simp_all add: check_wchar_def)
  have "utf8_loop mb 0 (Suc (length (utf8_buf u))) (utf8_state u) (utf8_buf u @ [0x1B]) []
      = Inr (Escape, [], as1 @ append_or_delete (exit s1) @ [Action Clear])"
    using False il one p c by (simp add: utf8_loop_step convert_def escape_from_anywhere)
  then have "utf8_input mb u 0x1B = Inr (\<lparr>utf8_state = Escape, utf8_buf = []\<rparr>, (as1 @ append_or_delete (exit s1)) @ [Action Clear])"
    using False mbrtowc_incompleteD(1) [OF ok False inc] by (simp add: utf8_input_def)
  then show ?thesis
    using len by (intro exI [of _ "as1 @ append_or_delete (exit s1)"]) (simp add: append_or_delete_def)
qed

lemma utf8_input_escape_fresh: "utf8_input mb UTF8Parser 0x1B = Inr (\<lparr>utf8_state = Escape, utf8_buf = []\<rparr>, [Action Clear])"
  by (simp add: utf8_input_def BUF_SIZE_def UTF8Parser_def escape_from_anywhere append_or_delete_def exit_def ignore_def Action_def)

section \<open>An example decoder\<close>

text \<open>UTF-8 as Unicode defines it, as an instance of \<^verbatim>\<open>mbrtowc\<close> on which the properties are evaluated.\<close>

definition trail_bytes :: "byte \<Rightarrow> nat" where
  "trail_bytes b =
     (if 0xC2 \<le> b \<and> b \<le> 0xDF then 1 else if 0xE0 \<le> b \<and> b \<le> 0xEF then 2 else if 0xF0 \<le> b \<and> b \<le> 0xF4 then 3 else 0)"

definition is_trail :: "byte \<Rightarrow> bool" where
  "is_trail c \<longleftrightarrow> 0x80 \<le> c \<and> c \<le> 0xBF"

fun trail_ok :: "byte \<Rightarrow> bytes \<Rightarrow> bool" where
  "trail_ok b [] = True"
| "trail_ok b (c # cs) =
     (is_trail c \<and> list_all is_trail cs \<and>
      (b = 0xE0 \<longrightarrow> 0xA0 \<le> c) \<and> (b = 0xED \<longrightarrow> c \<le> 0x9F) \<and> (b = 0xF0 \<longrightarrow> 0x90 \<le> c) \<and> (b = 0xF4 \<longrightarrow> c \<le> 0x8F))"

fun utf8_mbrtowc :: "bytes \<Rightarrow> mb_result" where
  "utf8_mbrtowc [] = Mb_incomplete"
| "utf8_mbrtowc (b # bs) =
     (if b = 0 then Mb_parsed 0 0
      else if b \<le> 0x7f then Mb_parsed 1 (uint b)
      else let k = trail_bytes b; cs = take k bs in
        if k = 0 \<or> \<not> trail_ok b cs then Mb_illegal
        else if length cs < k then Mb_incomplete
        else Mb_parsed (Suc k) (foldl (\<lambda>v c. v * 64 + uint c mod 64) (uint b mod 2 ^ (6 - k)) cs))"

lemma foldl_six_bits:
  assumes "0 \<le> v"
  shows "0 \<le> foldl (\<lambda>v c. v * 64 + uint c mod 64) v cs \<and> foldl (\<lambda>v c. v * 64 + uint c mod 64) v cs < (v + 1) * 64 ^ length cs"
  using assms
proof (induction cs arbitrary: v)
  case (Cons c cs)
  have m: "0 \<le> uint c mod 64" "uint c mod 64 < 64" by simp_all
  have le: "(v * 64 + uint c mod 64 + 1) * 64 ^ length cs \<le> (v + 1) * 64 ^ Suc (length cs)"
    using m by (simp only: power_Suc mult.assoc [symmetric], intro mult_right_mono) simp_all
  have "0 \<le> v * 64 + uint c mod 64" using Cons.prems m by simp
  from Cons.IH [OF this] show ?case
    using le by (auto intro: order_less_le_trans)
qed simp

lemma trail_bytes_le: "trail_bytes b \<le> 3"
  by (simp add: trail_bytes_def)

lemma trail_ok_ascii: "c \<le> 0x7f \<Longrightarrow> \<not> trail_ok b (cs @ [c])"
  by (cases cs) (auto simp: is_trail_def word_le_nat_alt)

lemma wcharI: "0 \<le> wc \<Longrightarrow> wc < 2 ^ 31 \<Longrightarrow> wchar wc"
  by (simp add: wchar_def)

lemma utf8_mbrtowc_ok: "mbrtowc_ok utf8_mbrtowc"
  unfolding mbrtowc_ok_def
proof (intro conjI allI impI)
  fix bs cs n wc
  assume "bs \<noteq> []" and p: "utf8_mbrtowc bs = Mb_parsed n wc"
  then obtain b r where bs: "bs = b # r" by (cases bs) auto
  have "uint b < 256" using uint_lt2p [of b] by simp
  then have "wchar (uint b)" by (intro wcharI) simp_all
  moreover have "wchar (foldl (\<lambda>v c. v * 64 + uint c mod 64) (uint b mod 2 ^ (6 - k)) (take k r))"
    if "k \<le> 3" "k \<le> length r" for k
  proof -
    have "(2::int) ^ (6 - k) \<le> 2 ^ 6" "(64::int) ^ k \<le> 64 ^ 3"
      using that(1) by (intro power_increasing; simp)+
    moreover have "uint b mod 2 ^ (6 - k) < 2 ^ 6"
      by (rule order_less_le_trans [of _ "2 ^ (6 - k)"]) (simp_all add: calculation del: power_numeral)
    ultimately have "uint b mod 2 ^ (6 - k) + 1 \<le> 64" "(64::int) ^ k \<le> 64 ^ 3"
      by simp_all
    then have "(uint b mod 2 ^ (6 - k) + 1) * 64 ^ k \<le> 64 * 64 ^ 3"
      by (intro mult_mono) simp_all
    then show ?thesis
      using foldl_six_bits [of "uint b mod 2 ^ (6 - k)" "take k r"] that(2) by (intro wcharI) simp_all
  qed
  moreover have "wchar 0" by (simp add: wchar_def)
  ultimately show "wchar wc"
    using p bs trail_bytes_le [of b] by (auto simp: Let_def split: if_splits)
  show "n \<le> length bs" "utf8_mbrtowc (take (max 1 n) bs) = Mb_parsed n wc" "utf8_mbrtowc (bs @ cs) = Mb_parsed n wc"
    using p bs by (auto simp: Let_def min_def split: if_splits)
next
  fix bs assume "bs \<noteq> []" "utf8_mbrtowc bs = Mb_incomplete"
  then show "length bs < BUF_SIZE"
    using trail_bytes_le [of "hd bs"] by (cases bs) (auto simp: Let_def BUF_SIZE_def min_def split: if_splits)
next
  fix bs and c :: byte assume "bs \<noteq> []" "utf8_mbrtowc bs = Mb_incomplete" "c \<le> 0x7f"
  then show "utf8_mbrtowc (bs @ [c]) = Mb_illegal"
    using trail_ok_ascii [of c "hd bs" "tl bs"] by (cases bs) (auto simp: Let_def min_def split: if_splits)
qed (auto simp: Let_def split: if_splits)

section \<open>Properties\<close>

text \<open>C26. Whatever octets the host sends, valid UTF-8 or not, the parser's conversion loop ends and none of its assertions
  fails; at most \<^verbatim>\<open>BUF_SIZE - 1\<close> octets wait in the buffer, and the next octet gives at most three actions, each with a character in the
  range its handler asserts.\<close>

theorem utf8_inputs_never_fail:
  assumes "mbrtowc_ok mb"
  shows "\<exists>u as u' as'. utf8_inputs mb UTF8Parser bs = Inr (u, as) \<and> length (utf8_buf u) < BUF_SIZE \<and>
    utf8_input mb u c = Inr (u', as') \<and> length as' \<le> 3 \<and> list_all action_ok as'"
proof -
  have "utf8_ok mb UTF8Parser" by (simp add: utf8_ok_def UTF8Parser_def)
  from utf8_inputs_total [OF assms this, of bs] obtain u as where
    u: "utf8_inputs mb UTF8Parser bs = Inr (u, as)" "utf8_ok mb u" by blast
  from utf8_input_total [OF assms u(2), of c] obtain u' as' cps where
    c: "utf8_input mb u c = Inr (u', as')" "parser_inputs (utf8_state u) cps = (utf8_state u', as')" "burst cps" by blast
  have "length as' \<le> 3" "list_all action_ok as'"
    using burst_three [OF c(3), of "utf8_state u"] parser_inputs_action_ok [of cps "utf8_state u"] c(2, 3)
    by (simp_all add: burst_def)
  then show ?thesis using u c(1) utf8_ok_length [OF assms u(2)] by blast
qed

theorem utf8_inputs_never_fail_witness:
  "mbrtowc_ok utf8_mbrtowc \<and>
   (\<exists>u as u' as'. utf8_inputs utf8_mbrtowc UTF8Parser [0x1B, 0x5D, 0xE2, 0x82] = Inr (u, as) \<and> length (utf8_buf u) < BUF_SIZE \<and>
      utf8_input utf8_mbrtowc u 0x1B = Inr (u', as') \<and> length as' \<le> 3 \<and> list_all action_ok as')"
  using utf8_inputs_never_fail [OF utf8_mbrtowc_ok, of "[0x1B, 0x5D, 0xE2, 0x82]" "0x1B"] utf8_mbrtowc_ok by blast

text \<open>C27. Well-formed text is decoded exactly: when the octets are the encodings of a list of code points one after the other, the actions are those of the
  state machine on these code points, and nothing is left in the buffer.\<close>

theorem utf8_text_decoded:
  assumes ok: "mbrtowc_ok mb" and u: "utf8_buf u = []" and enc: "list_all2 (encodes mb) bss chs"
  shows "utf8_inputs mb u (concat bss) =
    (case parser_inputs (utf8_state u) chs of (s, as) \<Rightarrow> Inr (u\<lparr>utf8_state := s\<rparr>, as))"
  using enc u
proof (induction bss chs arbitrary: u rule: list_all2_induct)
  case (Cons bs bss ch chs)
  obtain s as where p: "parser_input (utf8_state u) ch = (s, as)" by fastforce
  then have "utf8_inputs mb u bs = Inr (u\<lparr>utf8_state := s\<rparr>, as)"
    using utf8_encoded_char [OF ok Cons(1) Cons.prems] by simp
  then show ?case
    using Cons.IH [of "u\<lparr>utf8_state := s\<rparr>"] Cons.prems p
    by (cases "parser_inputs s chs") (simp add: utf8_inputs_append)
qed simp

theorem utf8_text_decoded_witness:
  "list_all2 (encodes utf8_mbrtowc) [[0x41], [0xE2, 0x82, 0xAC]] [0x41, 0x20AC] \<and>
   utf8_inputs utf8_mbrtowc UTF8Parser (concat [[0x41], [0xE2, 0x82, 0xAC]]) =
     (case parser_inputs Ground [0x41, 0x20AC] of (s, as) \<Rightarrow> Inr (UTF8Parser\<lparr>utf8_state := s\<rparr>, as))"
proof -
  have euro: "utf8_mbrtowc [0xE2] = Mb_incomplete" "utf8_mbrtowc [0xE2, 0x82] = Mb_incomplete"
    "utf8_mbrtowc [0xE2, 0x82, 0xAC] = Mb_parsed 3 0x20AC"
    by (simp_all add: trail_bytes_def is_trail_def Let_def)
  have "utf8_mbrtowc (take k [0xE2, 0x82, 0xAC]) = Mb_incomplete" if "k < 3" "0 < k" for k
  proof -
    have "k = 1 \<or> k = 2" using that by arith
    then show ?thesis using euro(1, 2) by (auto simp del: utf8_mbrtowc.simps)
  qed
  then have "encodes utf8_mbrtowc [0xE2, 0x82, 0xAC] 0x20AC"
    using euro(3) by (simp add: encodes_def scalar_def del: utf8_mbrtowc.simps)
  then have e: "list_all2 (encodes utf8_mbrtowc) [[0x41], [0xE2, 0x82, 0xAC]] [0x41, 0x20AC]"
    by (simp add: encodes_def [of _ "[0x41]"])
  have "utf8_buf UTF8Parser = []" "utf8_state UTF8Parser = Ground" by (simp_all add: UTF8Parser_def)
  then show ?thesis
    using e utf8_text_decoded [OF utf8_mbrtowc_ok _ e, of UTF8Parser] by simp
qed

text \<open>C21. An escape character resynchronises the parser: in whatever state host output has left it, in the middle of a control string or of a UTF-8
  sequence, from an ESC on it behaves as a fresh parser does, after at most two actions that end what was pending.\<close>

theorem escape_resynchronises:
  assumes ok: "mbrtowc_ok mb" and run: "utf8_inputs mb UTF8Parser before = Inr (u, as0)"
  shows "\<exists>pre u' as. utf8_inputs mb UTF8Parser (0x1B # bs) = Inr (u', as) \<and>
    utf8_inputs mb u (0x1B # bs) = Inr (u', pre @ as) \<and> length pre \<le> 2"
proof -
  have fresh: "utf8_ok mb UTF8Parser" by (simp add: utf8_ok_def UTF8Parser_def)
  have "utf8_ok mb u" using utf8_inputs_total [OF ok fresh, of before] run by auto
  from utf8_input_escape [OF ok this] obtain pre where
    pre: "utf8_input mb u 0x1B = Inr (\<lparr>utf8_state = Escape, utf8_buf = []\<rparr>, pre @ [Action Clear])" "length pre \<le> 2"
    by blast
  have "utf8_ok mb \<lparr>utf8_state = Escape, utf8_buf = []\<rparr>" by (simp add: utf8_ok_def)
  from utf8_inputs_total [OF ok this, of bs] obtain u' as where
    "utf8_inputs mb \<lparr>utf8_state = Escape, utf8_buf = []\<rparr> bs = Inr (u', as)" by blast
  then show ?thesis
    using pre utf8_input_escape_fresh [of mb]
    by (intro exI [of _ pre] exI [of _ u'] exI [of _ "Action Clear # as"]) simp
qed

theorem escape_resynchronises_witness:
  "\<exists>u as0. utf8_inputs utf8_mbrtowc UTF8Parser [0x1B, 0x5D, 0x32, 0xE2] = Inr (u, as0) \<and> utf8_buf u = [0xE2] \<and>
     (\<exists>pre u' as. utf8_inputs utf8_mbrtowc UTF8Parser (0x1B # [0x5B, 0x41]) = Inr (u', as) \<and>
        utf8_inputs utf8_mbrtowc u (0x1B # [0x5B, 0x41]) = Inr (u', pre @ as) \<and> length pre \<le> 2)"
proof -
  let ?u = "\<lparr>utf8_state = OSC_String, utf8_buf = [0xE2]\<rparr>"
  have "\<exists>as0. utf8_inputs utf8_mbrtowc UTF8Parser [0x1B, 0x5D, 0x32, 0xE2] = Inr (?u, as0)"
    by (simp add: utf8_input_def UTF8Parser_def BUF_SIZE_def escape_from_anywhere parser_input_def state_input_def anywhere_rule_def
        input_state_rule_def rule_Escape_def rule_OSC_String_def C0_prime_def with_char_def Transition_def Let_def
        utf8_loop_step convert_def trail_bytes_def)
  then obtain as0 where r: "utf8_inputs utf8_mbrtowc UTF8Parser [0x1B, 0x5D, 0x32, 0xE2] = Inr (?u, as0)" by blast
  show ?thesis
    using r escape_resynchronises [OF utf8_mbrtowc_ok r, of "[0x5B, 0x41]"]
    by (intro exI [of _ ?u] exI [of _ as0]) simp
qed

end
