(* ===== verification/Dispatcher.thy ===== *)
theory Dispatcher
  imports Framebuffer Vt_Parser
begin

text \<open>
  The dispatcher of control functions (src/mosh/src/terminal/terminaldispatcher.cc and terminaldispatcher.h): it collects the
  parameters, the intermediate characters and the operating system command of a control sequence, and parses the parameters on
  first use.  The registry and \<^verbatim>\<open>dispatch\<close> itself stand in Terminal_Functions, after the functions that are registered.
\<close>

section \<open>State\<close>

datatype function_type = ESCAPE | CSI | CONTROL

record dispatcher =
  params :: string
  parsed_params :: "int list"
  parsed :: bool
  dispatch_chars :: string
  OSC_string :: "int list"
  terminal_to_host :: bytes

definition Dispatcher :: dispatcher where
  "Dispatcher = \<lparr>params = [], parsed_params = [], parsed = False, dispatch_chars = [], OSC_string = [], terminal_to_host = []\<rparr>"

definition PARAM_MAX :: int where "PARAM_MAX = 65535"
definition MAXIMUM_CLIPBOARD_SIZE :: nat where "MAXIMUM_CLIPBOARD_SIZE = 16 * 1024"

definition newparamchar :: "action \<Rightarrow> dispatcher \<Rightarrow> dispatcher result" where
  "newparamchar act d =
     bindE (assertE (char_present act) AssertFailed) (\<lambda>_.
     bindE (assertE (act_ch act = 0x3B \<or> (act_ch act \<ge> 0x30 \<and> act_ch act \<le> 0x39)) AssertFailed) (\<lambda>_.
     Inr ((if length (params d) < 100 then d\<lparr>params := params d @ [char_of (act_ch act)]\<rparr> else d)\<lparr>parsed := False\<rparr>)))"

definition collect_char :: "action \<Rightarrow> dispatcher \<Rightarrow> dispatcher result" where
  "collect_char act d =
     bindE (assertE (char_present act) AssertFailed) (\<lambda>_.
     Inr (if length (dispatch_chars d) < 8 \<and> act_ch act \<le> 255
          then d\<lparr>dispatch_chars := dispatch_chars d @ [char_of (act_ch act)]\<rparr> else d))"

definition clear :: "dispatcher \<Rightarrow> dispatcher" where
  "clear d = d\<lparr>params := [], dispatch_chars := [], parsed := False\<rparr>"

section \<open>Parameters\<close>

text \<open>One segment: \<^verbatim>\<open>strtol\<close> reads from the start of the segment and stops at the first character that is not a digit.\<close>

definition parse_segment :: "string \<Rightarrow> int" where
  "parse_segment segment_begin =
     (case strtol segment_begin of (val, erange, endptr) \<Rightarrow>
        (let val1 = (if length endptr = length segment_begin then - 1 else val)
         in if val1 > PARAM_MAX \<or> erange then - 1 else val1))"

lemma dropWhile_rest_shorter: "dropWhile P s = x # rest \<Longrightarrow> length rest < length s"
  using length_dropWhile_le [of P s] by simp

function parse_segments :: "string \<Rightarrow> int list" where
  "parse_segments s =
     (case dropWhile (\<lambda>ch. ch \<noteq> CHR '';'') s of
        [] \<Rightarrow> [parse_segment s]
      | _ # rest \<Rightarrow> parse_segment s # parse_segments rest)"
  by pat_completeness auto

termination
  by (relation "measure length") (auto dest: dropWhile_rest_shorter)

declare parse_segments.simps [simp del]

definition parse_params :: "dispatcher \<Rightarrow> dispatcher" where
  "parse_params d = (if parsed d then d else d\<lparr>parsed_params := parse_segments (params d), parsed := True\<rparr>)"

definition getparam :: "nat \<Rightarrow> int \<Rightarrow> dispatcher \<Rightarrow> int \<times> dispatcher" where
  "getparam N defaultval d =
     (let d1 = (if \<not> parsed d then parse_params d else d);
          ret = (if length (parsed_params d1) > N then parsed_params d1 ! N else defaultval)
      in (if ret < 1 then defaultval else ret, d1))"

definition param_count :: "dispatcher \<Rightarrow> nat \<times> dispatcher" where
  "param_count d =
     (let d1 = (if \<not> parsed d then parse_params d else d) in (length (parsed_params d1), d1))"

section \<open>Operating system commands and replies\<close>

definition OSC_put :: "action \<Rightarrow> dispatcher \<Rightarrow> dispatcher result" where
  "OSC_put act d =
     bindE (assertE (char_present act) AssertFailed) (\<lambda>_.
     Inr (if length (OSC_string d) < MAXIMUM_CLIPBOARD_SIZE then d\<lparr>OSC_string := OSC_string d @ [act_ch act]\<rparr> else d))"

definition OSC_start :: "dispatcher \<Rightarrow> dispatcher" where
  "OSC_start d = d\<lparr>OSC_string := []\<rparr>"

definition bytes_of_string :: "string \<Rightarrow> bytes" where
  "bytes_of_string s = map of_char s"

definition reply :: "string \<Rightarrow> dispatcher \<Rightarrow> dispatcher" where
  "reply s d = d\<lparr>terminal_to_host := terminal_to_host d @ bytes_of_string s\<rparr>"

section \<open>Well-formedness\<close>

definition param_char :: "char \<Rightarrow> bool" where
  "param_char ch \<longleftrightarrow> ch = CHR '';'' \<or> is_digit ch"

definition disp_ok :: "dispatcher \<Rightarrow> bool" where
  "disp_ok d \<longleftrightarrow>
     list_all param_char (params d) \<and> length (params d) \<le> 100 \<and> length (dispatch_chars d) \<le> 8
     \<and> length (OSC_string d) \<le> MAXIMUM_CLIPBOARD_SIZE \<and> list_all scalar (OSC_string d)
     \<and> (parsed d \<longrightarrow> parsed_params d = parse_segments (params d))"

lemma Dispatcher_ok: "disp_ok Dispatcher"
  by (simp add: disp_ok_def Dispatcher_def)

lemma clear_ok: "disp_ok d \<Longrightarrow> disp_ok (clear d)"
  by (simp add: disp_ok_def clear_def)

lemma param_char_of: "ch = 0x3B \<or> 0x30 \<le> ch \<and> ch \<le> 0x39 \<Longrightarrow> param_char (char_of (ch :: int))"
proof -
  assume "ch = 0x3B \<or> 0x30 \<le> ch \<and> ch \<le> 0x39"
  then have "ch = 0x3B \<or> ch = 0x30 \<or> ch = 0x31 \<or> ch = 0x32 \<or> ch = 0x33 \<or> ch = 0x34 \<or> ch = 0x35 \<or> ch = 0x36
      \<or> ch = 0x37 \<or> ch = 0x38 \<or> ch = 0x39"
    by arith
  then show ?thesis by (elim disjE) (simp_all add: param_char_def is_digit_def char_of_def)
qed

lemma newparamchar_runs: "disp_ok d \<Longrightarrow> action_ok a \<Longrightarrow> act_kind a = Param \<Longrightarrow> runs disp_ok (newparamchar a d)"
  by (auto simp: newparamchar_def action_ok_def disp_ok_def intro: param_char_of)

lemma collect_char_runs:
  "disp_ok d \<Longrightarrow> char_present a \<Longrightarrow> runs (\<lambda>d'. disp_ok d' \<and> params d' = params d) (collect_char a d)"
  by (auto simp: collect_char_def disp_ok_def)

lemma OSC_put_runs: "disp_ok d \<Longrightarrow> action_ok a \<Longrightarrow> act_kind a = OSC_Put \<Longrightarrow> runs disp_ok (OSC_put a d)"
  by (auto simp: OSC_put_def action_ok_def disp_ok_def)

lemma OSC_start_ok: "disp_ok d \<Longrightarrow> disp_ok (OSC_start d)"
  by (simp add: OSC_start_def disp_ok_def)

lemma parse_params_ok: "disp_ok d \<Longrightarrow> disp_ok (parse_params d)"
  by (simp add: disp_ok_def parse_params_def)

lemma parse_params_idem [simp]: "parse_params (parse_params d) = parse_params d" "parsed (parse_params d)"
  by (simp_all add: parse_params_def)

lemma reply_ok: "disp_ok (reply s d) = disp_ok d"
  by (simp add: disp_ok_def reply_def)

text \<open>The value of a parameter as a function of the parameter list alone.\<close>

definition param_value :: "int list \<Rightarrow> nat \<Rightarrow> int \<Rightarrow> int" where
  "param_value ps N defaultval =
     (let ret = (if length ps > N then ps ! N else defaultval) in if ret < 1 then defaultval else ret)"

lemma getparam_eq: "getparam N v d = (param_value (parsed_params (parse_params d)) N v, parse_params d)"
  by (simp add: getparam_def param_value_def Let_def parse_params_def)

lemma param_count_eq: "param_count d = (length (parsed_params (parse_params d)), parse_params d)"
  by (simp add: param_count_def Let_def parse_params_def)

lemma parsed_params_ok: "disp_ok d \<Longrightarrow> parsed_params (parse_params d) = parse_segments (params d)"
  by (simp add: disp_ok_def parse_params_def)

lemma parse_segment_le: "parse_segment s \<le> PARAM_MAX"
  by (auto simp: parse_segment_def PARAM_MAX_def Let_def split: prod.splits)

lemma parse_segments_le: "list_all (\<lambda>v. v \<le> PARAM_MAX) (parse_segments s)"
proof (induction s rule: parse_segments.induct)
  case (1 s)
  then show ?case
    by (subst parse_segments.simps) (auto simp: parse_segment_le split: list.splits)
qed

lemma param_value_bounds:
  assumes "list_all (\<lambda>v. v \<le> PARAM_MAX) ps"
  shows "param_value ps N v = v \<or> 1 \<le> param_value ps N v \<and> param_value ps N v \<le> PARAM_MAX"
  using assms by (auto simp: param_value_def Let_def list_all_length)

lemma param_value_ge1: "1 \<le> v \<Longrightarrow> 1 \<le> param_value ps N v"
  by (auto simp: param_value_def Let_def)

text \<open>Parameters joined by semicolons, as the display writes them, are read back.\<close>

fun join_params :: "nat list \<Rightarrow> string" where
  "join_params [] = []"
| "join_params [n] = show_nat n"
| "join_params (n # ns) = show_nat n @ '';'' @ join_params ns"

lemma show_nat_no_semicolon: "ch \<in> set (show_nat n) \<Longrightarrow> ch \<noteq> CHR '';''"
  using show_nat_numeral [of n] by (auto simp: numeral_string_def list_all_iff is_digit_def)

lemma parse_segment_show:
  assumes "int n \<le> PARAM_MAX" "rest = [] \<or> \<not> is_digit (hd rest)"
  shows "parse_segment (show_nat n @ rest) = int n"
proof -
  have "strtol (show_nat n @ rest) = (int n, False, rest)"
    using assms by (intro strtol_show_nat) (auto simp: PARAM_MAX_def)
  moreover have "show_nat n \<noteq> []" using show_nat_numeral [of n] by (simp add: numeral_string_def)
  ultimately show ?thesis using assms(1) by (simp add: parse_segment_def)
qed

lemma dropWhile_show: "dropWhile (\<lambda>ch. ch \<noteq> CHR '';'') (show_nat n @ CHR '';'' # rest) = CHR '';'' # rest"
  "dropWhile (\<lambda>ch. ch \<noteq> CHR '';'') (show_nat n) = []"
  by (simp_all add: dropWhile_append show_nat_no_semicolon)

lemma parse_segments_join:
  "ns \<noteq> [] \<Longrightarrow> list_all (\<lambda>n. int n \<le> PARAM_MAX) ns \<Longrightarrow> parse_segments (join_params ns) = map int ns"
proof (induction ns rule: join_params.induct)
  case (2 n)
  then show ?case
    using parse_segment_show [of n "[]"] by (subst parse_segments.simps) (simp add: dropWhile_show)
next
  case (3 n m ns)
  then show ?case
    using parse_segment_show [of n "'';'' @ join_params (m # ns)"]
    by (subst parse_segments.simps) (simp add: dropWhile_show is_digit_def)
qed simp

end
