(* ===== verification/Terminal_Functions.thy ===== *)
theory Terminal_Functions
  imports Dispatcher
begin

text \<open>
  The terminal functions (src/mosh/src/terminal/terminalfunctions.cc): the routines activated by a control character, an escape
  sequence, a control sequence or an operating system command, the registry that maps dispatch strings to them, and
  \<^verbatim>\<open>Dispatcher::dispatch\<close> (src/mosh/src/terminal/terminaldispatcher.cc).

  A function takes the framebuffer and the dispatcher and returns both, or fails.  Loops run over the list of the indices the
  source's \<^verbatim>\<open>for\<close> visits.
\<close>

type_synonym terminal_function = "framebuffer \<Rightarrow> dispatcher \<Rightarrow> (framebuffer \<times> dispatcher) result"

definition leave :: "dispatcher \<Rightarrow> framebuffer result \<Rightarrow> (framebuffer \<times> dispatcher) result" where
  "leave d m = bindE m (\<lambda>fb. Inr (fb, d))"

section \<open>Erasing\<close>

definition clearline :: "int \<Rightarrow> int \<Rightarrow> int \<Rightarrow> framebuffer \<Rightarrow> framebuffer result" where
  "clearline r start end_col fb = foldE (\<lambda>col. reset_cell r col) [start..end_col] fb"

definition CSI_EL :: terminal_function where
  "CSI_EL fb d =
     (case getparam 0 0 d of (n, d1) \<Rightarrow>
        leave d1
          (if n = 0 then clearline (- 1) (cursor_col (ds fb)) (width (ds fb) - 1) fb
           else if n = 1 then clearline (- 1) 0 (cursor_col (ds fb)) fb
           else if n = 2 then reset_row (- 1) fb
           else Inr fb))"

definition CSI_ED :: terminal_function where
  "CSI_ED fb d =
     (case getparam 0 0 d of (n, d1) \<Rightarrow>
        leave d1
          (if n = 0
           then bindE (clearline (- 1) (cursor_col (ds fb)) (width (ds fb) - 1) fb)
                  (\<lambda>fb1. foldE reset_row [cursor_row (ds fb1) + 1..height (ds fb1) - 1] fb1)
           else if n = 1
           then bindE (foldE reset_row [0..cursor_row (ds fb) - 1] fb) (\<lambda>fb1. clearline (- 1) 0 (cursor_col (ds fb1)) fb1)
           else if n = 2 then foldE reset_row [0..height (ds fb) - 1] fb
           else Inr fb))"

definition CSI_ECH :: terminal_function where
  "CSI_ECH fb d =
     (case getparam 0 1 d of (num, d1) \<Rightarrow>
        (let limit = cursor_col (ds fb) + num - 1;
             limit1 = (if limit \<ge> width (ds fb) then width (ds fb) - 1 else limit)
         in leave d1 (clearline (- 1) (cursor_col (ds fb)) limit1 fb)))"

section \<open>Moving the cursor\<close>

definition first_char :: "dispatcher \<Rightarrow> char" where
  "first_char d = (case dispatch_chars d of [] \<Rightarrow> CHR 0x00 | ch # _ \<Rightarrow> ch)"

definition CSI_cursormove :: terminal_function where
  "CSI_cursormove fb d =
     (case getparam 0 1 d of (num, d1) \<Rightarrow>
        (let ch = first_char d1 in
         if ch = CHR ''A'' then Inr (update_ds (move_row (- num) True) fb, d1)
         else if ch = CHR ''B'' then Inr (update_ds (move_row num True) fb, d1)
         else if ch = CHR ''C'' then Inr (update_ds (move_col num True False) fb, d1)
         else if ch = CHR ''D'' then Inr (update_ds (move_col (- num) True False) fb, d1)
         else if ch = CHR ''H'' \<or> ch = CHR ''f''
         then
           (case getparam 0 1 d1 of (r, d2) \<Rightarrow>
            case getparam 1 1 d2 of (c, d3) \<Rightarrow>
              Inr (update_ds (move_col (c - 1) False False) (update_ds (move_row (r - 1) False) fb), d3))
         else Inr (fb, d1)))"

definition Ctrl_LF :: terminal_function where
  "Ctrl_LF fb d = leave d (move_rows_autoscroll 1 fb)"

definition Ctrl_CR :: terminal_function where
  "Ctrl_CR fb d = Inr (update_ds (move_col 0 False False) fb, d)"

definition Ctrl_BS :: terminal_function where
  "Ctrl_BS fb d = Inr (update_ds (move_col (- 1) True False) fb, d)"

definition Ctrl_RI :: terminal_function where
  "Ctrl_RI fb d = leave d (move_rows_autoscroll (- 1) fb)"

definition Ctrl_NEL :: terminal_function where
  "Ctrl_NEL fb d = leave d (move_rows_autoscroll 1 (update_ds (move_col 0 False False) fb))"

definition CSI_VPA :: terminal_function where
  "CSI_VPA fb d = (case getparam 0 1 d of (r, d1) \<Rightarrow> Inr (update_ds (move_row (r - 1) False) fb, d1))"

definition CSI_HPA :: terminal_function where
  "CSI_HPA fb d = (case getparam 0 1 d of (col, d1) \<Rightarrow> Inr (update_ds (move_col (col - 1) False False) fb, d1))"

definition Esc_DECSC :: terminal_function where
  "Esc_DECSC fb d = Inr (update_ds save_cursor fb, d)"

definition Esc_DECRC :: terminal_function where
  "Esc_DECRC fb d = Inr (update_ds restore_cursor fb, d)"

section \<open>Tab stops\<close>

definition HT_n :: "int \<Rightarrow> framebuffer \<Rightarrow> framebuffer result" where
  "HT_n count fb =
     bindE (get_next_tab count (ds fb)) (\<lambda>col.
     let col1 = (if col = - 1 then width (ds fb) - 1 else col);
         wrap_state_save = next_print_will_wrap (ds fb)
     in Inr (update_ds (\<lambda>d. (move_col col1 False False d)\<lparr>next_print_will_wrap := wrap_state_save\<rparr>) fb))"

definition Ctrl_HT :: terminal_function where
  "Ctrl_HT fb d = leave d (HT_n 1 fb)"

definition CSI_CxT :: terminal_function where
  "CSI_CxT fb d =
     (case getparam 0 1 d of (param, d1) \<Rightarrow>
        (let param1 = (if first_char d1 = CHR ''Z'' then - param else param)
         in if param1 = 0 then Inr (fb, d1) else leave d1 (HT_n param1 fb)))"

definition Ctrl_HTS :: terminal_function where
  "Ctrl_HTS fb d = leave d (update_dsE set_tab fb)"

definition CSI_TBC :: terminal_function where
  "CSI_TBC fb d =
     (case getparam 0 0 d of (param, d1) \<Rightarrow>
        leave d1
          (if param = 0 then update_dsE (clear_tab (cursor_col (ds fb))) fb
           else if param = 3
           then (let fb1 = update_ds clear_default_tabs fb
                 in foldE (\<lambda>x. update_dsE (clear_tab x)) [0..width (ds fb1) - 1] fb1)
           else Inr fb))"

section \<open>Modes\<close>

text \<open>The pointer to a mode is the function that assigns through it.\<close>

type_synonym mode_pointer = "(bool \<Rightarrow> draw_state \<Rightarrow> draw_state) option"

definition get_DEC_mode :: "int \<Rightarrow> framebuffer \<Rightarrow> (framebuffer \<times> mode_pointer) result" where
  "get_DEC_mode param fb =
     (if param = 1 then Inr (fb, Some (\<lambda>v d. d\<lparr>application_mode_cursor_keys := v\<rparr>))
      else if param = 3
      then (let fb1 = update_ds (move_col 0 False False) (update_ds (move_row 0 False) fb)
            in bindE (foldE reset_row [0..height (ds fb1) - 1] fb1) (\<lambda>fb2. Inr (fb2, None)))
      else if param = 5 then Inr (fb, Some (\<lambda>v d. d\<lparr>reverse_video := v\<rparr>))
      else if param = 6
      then Inr (update_ds (move_col 0 False False) (update_ds (move_row 0 False) fb), Some (\<lambda>v d. d\<lparr>origin_mode := v\<rparr>))
      else if param = 7 then Inr (fb, Some (\<lambda>v d. d\<lparr>auto_wrap_mode := v\<rparr>))
      else if param = 25 then Inr (fb, Some (\<lambda>v d. d\<lparr>cursor_visible := v\<rparr>))
      else if param = 1004 then Inr (fb, Some (\<lambda>v d. d\<lparr>mouse_focus_event := v\<rparr>))
      else if param = 1007 then Inr (fb, Some (\<lambda>v d. d\<lparr>mouse_alternate_scroll := v\<rparr>))
      else if param = 2004 then Inr (fb, Some (\<lambda>v d. d\<lparr>bracketed_paste := v\<rparr>))
      else Inr (fb, None))"

definition set_if_available :: "mode_pointer \<Rightarrow> bool \<Rightarrow> framebuffer \<Rightarrow> framebuffer" where
  "set_if_available mode value fb = (case mode of Some assign \<Rightarrow> update_ds (assign value) fb | None \<Rightarrow> fb)"

definition DECSM_step :: "nat \<Rightarrow> framebuffer \<times> dispatcher \<Rightarrow> (framebuffer \<times> dispatcher) result" where
  "DECSM_step i = (\<lambda>(fb, d).
     case getparam i 0 d of (param, d1) \<Rightarrow>
       if param = 9 \<or> (param \<ge> 1000 \<and> param \<le> 1003) then Inr (update_ds (\<lambda>s. s\<lparr>mouse_reporting_mode := param\<rparr>) fb, d1)
       else if param = 1005 \<or> param = 1006 \<or> param = 1015 then Inr (update_ds (\<lambda>s. s\<lparr>mouse_encoding_mode := param\<rparr>) fb, d1)
       else bindE (get_DEC_mode param fb) (\<lambda>(fb1, mode). Inr (set_if_available mode True fb1, d1)))"

definition CSI_DECSM :: terminal_function where
  "CSI_DECSM fb d = (case param_count d of (n, d1) \<Rightarrow> foldE DECSM_step [0..<n] (fb, d1))"

definition DECRM_step :: "nat \<Rightarrow> framebuffer \<times> dispatcher \<Rightarrow> (framebuffer \<times> dispatcher) result" where
  "DECRM_step i = (\<lambda>(fb, d).
     case getparam i 0 d of (param, d1) \<Rightarrow>
       if param = 9 \<or> (param \<ge> 1000 \<and> param \<le> 1003)
       then Inr (update_ds (\<lambda>s. s\<lparr>mouse_reporting_mode := MOUSE_REPORTING_NONE\<rparr>) fb, d1)
       else if param = 1005 \<or> param = 1006 \<or> param = 1015
       then Inr (update_ds (\<lambda>s. s\<lparr>mouse_encoding_mode := MOUSE_ENCODING_DEFAULT\<rparr>) fb, d1)
       else bindE (get_DEC_mode param fb) (\<lambda>(fb1, mode). Inr (set_if_available mode False fb1, d1)))"

definition CSI_DECRM :: terminal_function where
  "CSI_DECRM fb d = (case param_count d of (n, d1) \<Rightarrow> foldE DECRM_step [0..<n] (fb, d1))"

definition get_ANSI_mode :: "int \<Rightarrow> mode_pointer" where
  "get_ANSI_mode param = (if param = 4 then Some (\<lambda>v d. d\<lparr>insert_mode := v\<rparr>) else None)"

definition ANSI_step :: "bool \<Rightarrow> nat \<Rightarrow> framebuffer \<times> dispatcher \<Rightarrow> (framebuffer \<times> dispatcher) result" where
  "ANSI_step value i = (\<lambda>(fb, d).
     case getparam i 0 d of (param, d1) \<Rightarrow> Inr (set_if_available (get_ANSI_mode param) value fb, d1))"

definition CSI_SM :: terminal_function where
  "CSI_SM fb d = (case param_count d of (n, d1) \<Rightarrow> foldE (ANSI_step True) [0..<n] (fb, d1))"

definition CSI_RM :: terminal_function where
  "CSI_RM fb d = (case param_count d of (n, d1) \<Rightarrow> foldE (ANSI_step False) [0..<n] (fb, d1))"

definition CSI_DECSTBM :: terminal_function where
  "CSI_DECSTBM fb d =
     (case getparam 0 1 d of (top_row, d1) \<Rightarrow>
      case getparam 1 (height (ds fb)) d1 of (bottom, d2) \<Rightarrow>
        if bottom \<le> top_row \<or> top_row > height (ds fb) \<or> (top_row = 0 \<and> bottom = 1) then Inr (fb, d2)
        else
          Inr (update_ds (move_col 0 False False) (update_ds (move_row 0 False)
                 (update_ds (set_scrolling_region (top_row - 1) (bottom - 1)) fb)), d2))"

section \<open>Renditions\<close>

definition with_renditions :: "(renditions \<Rightarrow> renditions) \<Rightarrow> framebuffer \<Rightarrow> framebuffer" where
  "with_renditions f fb = update_ds (\<lambda>s. s\<lparr>ds_renditions := f (ds_renditions s)\<rparr>) fb"

text \<open>The loop of \<^verbatim>\<open>CSI_SGR\<close>, from parameter \<open>i\<close> of \<open>n\<close> on; \<open>value N v\<close> is \<^verbatim>\<open>dispatch->getparam( N, v )\<close>, which changes
  nothing once the parameters are counted.\<close>

function sgr_loop :: "(nat \<Rightarrow> int \<Rightarrow> int) \<Rightarrow> nat \<Rightarrow> nat \<Rightarrow> renditions \<Rightarrow> renditions" where
  "sgr_loop value n i r =
     (if i < n then
        (let rendition = value i 0 in
         if (rendition = 38 \<or> rendition = 48) \<and> n - i \<ge> 3 \<and> value (i + 1) (- 1) = 5
         then sgr_loop value n (i + 3)
                ((if rendition = 38 then set_foreground_color else set_background_color) (of_int (value (i + 2) 0)) r)
         else if (rendition = 38 \<or> rendition = 48) \<and> n - i \<ge> 5 \<and> value (i + 1) (- 1) = 2
         then (let color = make_true_color (of_int (value (i + 2) 0)) (of_int (value (i + 3) 0)) (of_int (value (i + 4) 0))
               in sgr_loop value n (i + 5) ((if rendition = 38 then set_foreground_color else set_background_color) color r))
         else sgr_loop value n (i + 1) (set_rendition (of_int rendition) r))
      else r)"
  by pat_completeness auto

termination
  by (relation "measure (\<lambda>(value, n, i, r). n - i)") auto

declare sgr_loop.simps [simp del]

definition CSI_SGR :: terminal_function where
  "CSI_SGR fb d =
     (case param_count d of (n, d1) \<Rightarrow>
        Inr (with_renditions (sgr_loop (\<lambda>N v. fst (getparam N v d1)) n 0) fb, d1))"

section \<open>Reports and the bell\<close>

definition CSI_DA :: terminal_function where
  "CSI_DA fb d = Inr (fb, reply (ESC # ''[?62c'') d)"

definition CSI_SDA :: terminal_function where
  "CSI_SDA fb d = Inr (fb, reply (ESC # ''[>1;10;0c'') d)"

text \<open>\<^verbatim>\<open>snprintf\<close> into 32 bytes keeps the first 31 characters.\<close>

definition CSI_DSR :: terminal_function where
  "CSI_DSR fb d =
     (case getparam 0 0 d of (param, d1) \<Rightarrow>
        if param = 5 then Inr (fb, reply (ESC # ''[0n'') d1)
        else if param = 6
        then Inr (fb, reply (take 31 (ESC # ''['' @ show_int (cursor_row (ds fb) + 1) @ '';'' @ show_int (cursor_col (ds fb) + 1) @ ''R'')) d1)
        else Inr (fb, d1))"

definition Ctrl_BEL :: terminal_function where
  "Ctrl_BEL fb d = Inr (ring_bell fb, d)"

section \<open>Inserting, deleting, scrolling\<close>

definition Esc_DECALN :: "(int \<Rightarrow> bytes option) \<Rightarrow> terminal_function" where
  "Esc_DECALN wcrtomb fb d =
     leave d (foldE (\<lambda>y fb1.
       foldE (\<lambda>x fb2. bindE (reset_cell y x fb2) (mutable_cell y x (append wcrtomb 0x45))) [0..width (ds fb1) - 1] fb1)
       [0..height (ds fb) - 1] fb)"

definition CSI_IL :: terminal_function where
  "CSI_IL fb d =
     (case getparam 0 1 d of (lines, d1) \<Rightarrow>
        leave d1 (bindE (insert_line (cursor_row (ds fb)) lines fb) (\<lambda>fb1. Inr (update_ds (move_col 0 False False) fb1))))"

definition CSI_DL :: terminal_function where
  "CSI_DL fb d =
     (case getparam 0 1 d of (lines, d1) \<Rightarrow>
        leave d1 (bindE (delete_line (cursor_row (ds fb)) lines fb) (\<lambda>fb1. Inr (update_ds (move_col 0 False False) fb1))))"

definition CSI_ICH :: terminal_function where
  "CSI_ICH fb d =
     (case getparam 0 1 d of (n, d1) \<Rightarrow>
        leave d1 (foldE (\<lambda>_ fb1. insert_cell (cursor_row (ds fb1)) (cursor_col (ds fb1)) fb1) [0..n - 1] fb))"

definition CSI_DCH :: terminal_function where
  "CSI_DCH fb d =
     (case getparam 0 1 d of (n, d1) \<Rightarrow>
        leave d1 (foldE (\<lambda>_ fb1. delete_cell (cursor_row (ds fb1)) (cursor_col (ds fb1)) fb1) [0..n - 1] fb))"

definition CSI_SD :: terminal_function where
  "CSI_SD fb d = (case getparam 0 1 d of (n, d1) \<Rightarrow> leave d1 (scroll_fb n fb))"

definition CSI_SU :: terminal_function where
  "CSI_SU fb d = (case getparam 0 1 d of (n, d1) \<Rightarrow> leave d1 (scroll_fb (- n) fb))"

definition Esc_RIS :: terminal_function where
  "Esc_RIS fb d = leave d (fb_reset fb)"

definition CSI_DECSTR :: terminal_function where
  "CSI_DECSTR fb d = Inr (soft_reset fb, d)"

section \<open>Operating system commands\<close>

definition Parse_OSC_8 :: "int list \<Rightarrow> string option" where
  "Parse_OSC_8 osc8_vector =
     (if list_all (\<lambda>wide_char. \<not> (wide_char < 32 \<or> wide_char > 126)) osc8_vector then Some (map char_of osc8_vector) else None)"

definition OSC_8 :: "string \<Rightarrow> framebuffer \<Rightarrow> framebuffer result" where
  "OSC_8 s fb =
     (if s = [] \<or> hd s \<noteq> CHR ''8'' then Inl AssertFailed
      else if length s \<le> 2 \<or> s ! 1 \<noteq> CHR '';'' then Inr fb
      else
        (case dropWhile (\<lambda>ch. ch \<noteq> CHR '';'') (drop 2 s) of
           [] \<Rightarrow> Inr fb
         | _ # url \<Rightarrow>
             Inr (update_ds (\<lambda>d. d\<lparr>ds_hyperlink := Hyperlink (takeWhile (\<lambda>ch. ch \<noteq> CHR '';'') (drop 2 s)) url\<rparr>) fb)))"

definition set_titles :: "bool \<Rightarrow> bool \<Rightarrow> int list \<Rightarrow> framebuffer \<Rightarrow> framebuffer" where
  "set_titles set_icon set_title newtitle fb =
     (let fb1 = fb\<lparr>title_initialized := True\<rparr>;
          fb2 = (if set_icon then fb1\<lparr>icon_name := newtitle\<rparr> else fb1)
      in if set_title then fb2\<lparr>window_title := newtitle\<rparr> else fb2)"

definition OSC_dispatch :: "framebuffer \<Rightarrow> dispatcher \<Rightarrow> framebuffer result" where
  "OSC_dispatch fb d =
     (let s = OSC_string d in
      if length s \<ge> 5 \<and> s ! 0 = 0x35 \<and> s ! 1 = 0x32 \<and> s ! 2 = 0x3B \<and> s ! 3 = 0x63 \<and> s ! 4 = 0x3B
      then Inr (fb\<lparr>clipboard := drop 5 s\<rparr>)
      else if length s \<ge> 1
      then
        (let (cmd_num, offset) =
               (if s ! 0 = 0x3B then (0, 1)
                else if length s \<ge> 2 \<and> s ! 1 = 0x3B then (s ! 0 - 0x30, 2)
                else (- 1, 0))
         in if cmd_num = 8
            then (case Parse_OSC_8 s of None \<Rightarrow> Inr fb | Some osc_8_str \<Rightarrow> OSC_8 osc_8_str fb)
            else
              (let set_icon = (cmd_num = 0 \<or> cmd_num = 1);
                   set_title = (cmd_num = 0 \<or> cmd_num = 2)
               in if set_icon \<or> set_title
                  then Inr (set_titles set_icon set_title (drop offset (take (min (length s) 256) s)) fb)
                  else Inr fb))
      else Inr fb)"

section \<open>The registry and dispatch\<close>

record function_entry =
  run_function :: terminal_function
  clears_wrap_state :: bool

definition Function :: "terminal_function \<Rightarrow> bool \<Rightarrow> function_entry" where
  "Function f clears = \<lparr>run_function = f, clears_wrap_state = clears\<rparr>"

type_synonym dispatch_map = "(string \<times> function_entry) list"

definition CSI_registry :: dispatch_map where
  "CSI_registry =
     [(''K'', Function CSI_EL True), (''J'', Function CSI_ED True),
      (''A'', Function CSI_cursormove True), (''B'', Function CSI_cursormove True), (''C'', Function CSI_cursormove True),
      (''D'', Function CSI_cursormove True), (''H'', Function CSI_cursormove True), (''f'', Function CSI_cursormove True),
      (''c'', Function CSI_DA True), (''>c'', Function CSI_SDA True),
      (''I'', Function CSI_CxT False), (''Z'', Function CSI_CxT False), (''g'', Function CSI_TBC False),
      (''?h'', Function CSI_DECSM False), (''?l'', Function CSI_DECRM False),
      (''h'', Function CSI_SM True), (''l'', Function CSI_RM True), (''r'', Function CSI_DECSTBM True),
      (''m'', Function CSI_SGR False), (''n'', Function CSI_DSR True), (''L'', Function CSI_IL True),
      (''M'', Function CSI_DL True), (''@'', Function CSI_ICH True), (''P'', Function CSI_DCH True),
      (''d'', Function CSI_VPA True), (''G'', Function CSI_HPA True), ([CHR 0x60], Function CSI_HPA True),
      (''X'', Function CSI_ECH True), (''!p'', Function CSI_DECSTR True), (''S'', Function CSI_SD True),
      (''T'', Function CSI_SU True)]"

definition escape_registry :: "(int \<Rightarrow> bytes option) \<Rightarrow> dispatch_map" where
  "escape_registry wcrtomb =
     [(''#8'', Function (Esc_DECALN wcrtomb) True), (''7'', Function Esc_DECSC True), (''8'', Function Esc_DECRC True),
      (''c'', Function Esc_RIS True)]"

definition control_registry :: dispatch_map where
  "control_registry =
     [([CHR 0x0A], Function Ctrl_LF True), ([CHR 0x84], Function Ctrl_LF True), ([CHR 0x0B], Function Ctrl_LF True),
      ([CHR 0x0C], Function Ctrl_LF True), ([CHR 0x0D], Function Ctrl_CR True), ([CHR 0x08], Function Ctrl_BS True),
      ([CHR 0x8D], Function Ctrl_RI True), ([CHR 0x85], Function Ctrl_NEL True), ([CHR 0x09], Function Ctrl_HT False),
      ([CHR 0x88], Function Ctrl_HTS True), ([CHR 0x07], Function Ctrl_BEL True)]"

definition dispatch_map_of :: "(int \<Rightarrow> bytes option) \<Rightarrow> function_type \<Rightarrow> dispatch_map" where
  "dispatch_map_of wcrtomb type =
     (case type of ESCAPE \<Rightarrow> escape_registry wcrtomb | CSI \<Rightarrow> CSI_registry | CONTROL \<Rightarrow> control_registry)"

definition dispatch :: "(int \<Rightarrow> bytes option) \<Rightarrow> function_type \<Rightarrow> action \<Rightarrow> terminal_function" where
  "dispatch wcrtomb type act fb d =
     bindE (if type = ESCAPE \<or> type = CSI
            then bindE (assertE (char_present act) AssertFailed) (\<lambda>_.
                 collect_char \<lparr>act_kind = Collect, act_ch = act_ch act, char_present = True\<rparr> d)
            else Inr d) (\<lambda>d1.
     bindE (if type = CONTROL
            then bindE (assertE (act_ch act \<le> 255) AssertFailed) (\<lambda>_. Inr [char_of (act_ch act)])
            else Inr (dispatch_chars d1)) (\<lambda>key.
     case map_of (dispatch_map_of wcrtomb type) key of
       None \<Rightarrow> Inr (update_ds (\<lambda>s. s\<lparr>next_print_will_wrap := False\<rparr>) fb, d1)
     | Some f \<Rightarrow>
         run_function f (if clears_wrap_state f then update_ds (\<lambda>s. s\<lparr>next_print_will_wrap := False\<rparr>) fb else fb) d1))"

section \<open>Every function keeps the screen well-formed\<close>

definition function_ok :: "terminal_function \<Rightarrow> bool" where
  "function_ok f \<longleftrightarrow>
     (\<forall>fb d. fb_ok fb \<longrightarrow> disp_ok d \<longrightarrow> runs (\<lambda>(fb', d'). same_size fb fb' \<and> disp_ok d') (f fb d))"

lemma function_okI:
  assumes "\<And>fb d. fb_ok fb \<Longrightarrow> disp_ok d \<Longrightarrow> runs (\<lambda>(fb', d'). same_size fb fb' \<and> disp_ok d') (f fb d)"
  shows "function_ok f"
  using assms by (simp add: function_ok_def)

lemma leave_runs:
  "disp_ok d \<Longrightarrow> runs (same_size fb) m \<Longrightarrow> runs (\<lambda>(fb', d'). same_size fb fb' \<and> disp_ok d') (leave d m)"
  unfolding leave_def by (rule runs_bindE [of "same_size fb"]) auto

lemma keeps_self: "fb_ok fb \<Longrightarrow> keeps (ds fb) fb"
  by (simp add: keeps_def)

lemma runs_keeps_same_size: "runs (keeps (ds fb)) m \<Longrightarrow> runs (same_size fb) m"
  by (rule runs_mono [OF _ keeps_same_size])

lemma clearline_runs:
  assumes "keeps d fb" "r = - 1 \<or> 0 \<le> r \<and> r < height d" "0 \<le> start" "end_col < width d"
  shows "runs (keeps d) (clearline r start end_col fb)"
  unfolding clearline_def
  by (rule runs_foldE [where P = "keeps d", OF assms(1)]) (use assms in \<open>auto intro!: reset_cell_runs\<close>)

lemma reset_rows_runs:
  assumes "keeps d fb" "0 \<le> from_row" "to_row < height d"
  shows "runs (keeps d) (foldE reset_row [from_row..to_row] fb)"
  by (rule runs_foldE [where P = "keeps d", OF assms(1)]) (use assms in \<open>auto intro!: reset_row_runs\<close>)

lemma keepsD: "keeps d fb \<Longrightarrow> fb_ok fb \<and> ds fb = d \<and> ds_ok d"
  by (auto simp: keeps_def fb_ok_def)

lemma keeps_cursor:
  assumes "keeps d fb"
  shows "0 \<le> cursor_col d" "cursor_col d < width d" "0 \<le> cursor_row d" "cursor_row d < height d"
  using keepsD [OF assms] ds_ok_cursor by auto

lemma CSI_EL_ok: "function_ok CSI_EL"
proof (rule function_okI)
  fix fb d assume fb: "fb_ok fb" and d: "disp_ok d"
  note k = keeps_self [OF fb]
  have "runs (keeps (ds fb)) (clearline (- 1) (cursor_col (ds fb)) (width (ds fb) - 1) fb)"
    "runs (keeps (ds fb)) (clearline (- 1) 0 (cursor_col (ds fb)) fb)" "runs (keeps (ds fb)) (reset_row (- 1) fb)"
    using keeps_cursor [OF k] by (auto intro!: clearline_runs [OF k] reset_row_runs [OF k])
  then show "runs (\<lambda>(fb', d'). same_size fb fb' \<and> disp_ok d') (CSI_EL fb d)"
    unfolding CSI_EL_def getparam_eq prod.case
    using d k by (intro leave_runs parse_params_ok runs_keeps_same_size) simp_all
qed

lemma CSI_ED_ok: "function_ok CSI_ED"
proof (rule function_okI)
  fix fb d assume fb: "fb_ok fb" and d: "disp_ok d"
  note k = keeps_self [OF fb]
  have "runs (keeps (ds fb)) (bindE (clearline (- 1) (cursor_col (ds fb)) (width (ds fb) - 1) fb)
      (\<lambda>fb1. foldE reset_row [cursor_row (ds fb1) + 1..height (ds fb1) - 1] fb1))"
    using keeps_cursor [OF k]
    by (intro runs_bindE [OF clearline_runs [OF k]]) (auto dest: keepsD intro!: reset_rows_runs)
  moreover have "runs (keeps (ds fb)) (bindE (foldE reset_row [0..cursor_row (ds fb) - 1] fb)
      (\<lambda>fb1. clearline (- 1) 0 (cursor_col (ds fb1)) fb1))"
    using keeps_cursor [OF k]
    by (intro runs_bindE [OF reset_rows_runs [OF k]]) (auto dest: keepsD intro!: clearline_runs)
  moreover have "runs (keeps (ds fb)) (foldE reset_row [0..height (ds fb) - 1] fb)"
    by (intro reset_rows_runs [OF k]) simp_all
  ultimately show "runs (\<lambda>(fb', d'). same_size fb fb' \<and> disp_ok d') (CSI_ED fb d)"
    unfolding CSI_ED_def getparam_eq prod.case
    using d k by (intro leave_runs parse_params_ok runs_keeps_same_size) simp_all
qed

lemma CSI_ECH_ok: "function_ok CSI_ECH"
proof (rule function_okI)
  fix fb d assume fb: "fb_ok fb" and d: "disp_ok d"
  note k = keeps_self [OF fb]
  show "runs (\<lambda>(fb', d'). same_size fb fb' \<and> disp_ok d') (CSI_ECH fb d)"
    unfolding CSI_ECH_def getparam_eq prod.case Let_def
    using keeps_cursor [OF k] d
    by (intro leave_runs parse_params_ok runs_keeps_same_size clearline_runs [OF k]) auto
qed

text \<open>Cursor movements.\<close>

lemma same_size_D: "same_size fb fb' \<Longrightarrow> fb_ok fb'"
  by (simp add: same_size_def)

lemma same_size_move:
  assumes "fb_ok fb"
  shows "same_size fb (update_ds (move_col n rel imp) (update_ds (move_row m rel') fb))"
  using same_size_trans [OF same_size_move_row [OF assms] same_size_move_col [OF same_size_D [OF same_size_move_row [OF assms]]]] .

lemma CSI_cursormove_ok: "function_ok CSI_cursormove"
  by (rule function_okI)
    (simp add: CSI_cursormove_def getparam_eq Let_def same_size_move_row same_size_move_col same_size_move same_size_refl parse_params_ok)

lemma Ctrl_LF_ok: "function_ok Ctrl_LF"
  by (rule function_okI) (simp add: Ctrl_LF_def leave_runs move_rows_autoscroll_runs)

lemma Ctrl_RI_ok: "function_ok Ctrl_RI"
  by (rule function_okI) (simp add: Ctrl_RI_def leave_runs move_rows_autoscroll_runs)

lemma Ctrl_CR_ok: "function_ok Ctrl_CR"
  by (rule function_okI) (simp add: Ctrl_CR_def same_size_move_col)

lemma Ctrl_BS_ok: "function_ok Ctrl_BS"
  by (rule function_okI) (simp add: Ctrl_BS_def same_size_move_col)

lemma runs_same_size_trans: "same_size fb fb1 \<Longrightarrow> runs (same_size fb1) m \<Longrightarrow> runs (same_size fb) m"
  by (rule runs_mono [of "same_size fb1"]) (auto intro: same_size_trans)

lemma Ctrl_NEL_ok: "function_ok Ctrl_NEL"
proof (rule function_okI)
  fix fb d assume fb: "fb_ok fb" and d: "disp_ok d"
  have s: "same_size fb (update_ds (move_col 0 False False) fb)" by (rule same_size_move_col [OF fb])
  show "runs (\<lambda>(fb', d'). same_size fb fb' \<and> disp_ok d') (Ctrl_NEL fb d)"
    unfolding Ctrl_NEL_def
    by (rule leave_runs [OF d runs_same_size_trans [OF s move_rows_autoscroll_runs [OF same_size_D [OF s]]]])
qed

lemma CSI_VPA_ok: "function_ok CSI_VPA"
  by (rule function_okI) (simp add: CSI_VPA_def getparam_eq same_size_move_row parse_params_ok)

lemma CSI_HPA_ok: "function_ok CSI_HPA"
  by (rule function_okI) (simp add: CSI_HPA_def getparam_eq same_size_move_col parse_params_ok)

lemma Esc_DECSC_ok: "function_ok Esc_DECSC"
  by (rule function_okI) (simp add: Esc_DECSC_def same_size_update_ds save_cursor_resized fb_okD)

lemma Esc_DECRC_ok: "function_ok Esc_DECRC"
  by (rule function_okI) (simp add: Esc_DECRC_def same_size_update_ds restore_cursor_resized fb_okD)

text \<open>Tab stops.\<close>

lemma update_dsE_runs:
  assumes "fb_ok fb" "runs (resized (ds fb)) (f (ds fb))"
  shows "runs (same_size fb) (update_dsE f fb)"
  unfolding update_dsE_def
  by (rule runs_bindE [OF assms(2)]) (use assms(1) in \<open>auto simp: same_size_def fb_ok_ds resized_def\<close>)

lemma HT_n_runs:
  assumes "fb_ok fb"
  shows "runs (same_size fb) (HT_n count fb)"
proof -
  obtain i where "get_next_tab count (ds fb) = Inr i" using get_next_tab_runs [OF fb_okD(1) [OF assms]] by blast
  moreover have "resized (ds fb) ((move_col c False False (ds fb))\<lparr>next_print_will_wrap := b\<rparr>)" for c b
    using move_col_resized [OF fb_ok_shape [OF assms], of c False False] by (simp add: resized_def)
  ultimately show ?thesis
    using assms by (simp add: HT_n_def Let_def same_size_update_ds)
qed

lemma Ctrl_HT_ok: "function_ok Ctrl_HT"
  by (rule function_okI) (simp add: Ctrl_HT_def leave_runs HT_n_runs)

lemma CSI_CxT_ok: "function_ok CSI_CxT"
  by (rule function_okI) (simp add: CSI_CxT_def getparam_eq Let_def leave_runs HT_n_runs parse_params_ok same_size_refl)

lemma Ctrl_HTS_ok: "function_ok Ctrl_HTS"
  by (rule function_okI) (simp add: Ctrl_HTS_def leave_runs update_dsE_runs set_tab_runs fb_okD)

lemma CSI_TBC_ok: "function_ok CSI_TBC"
proof (rule function_okI)
  fix fb d assume fb: "fb_ok fb" and d: "disp_ok d"
  let ?fb = "update_ds clear_default_tabs fb"
  have s: "same_size fb ?fb"
    using fb by (simp add: same_size_update_ds resized_def clear_default_tabs_def fb_okD)
  have "runs (same_size fb) (update_dsE (clear_tab (cursor_col (ds fb))) fb)"
    using ds_ok_cursor [OF fb_okD(1) [OF fb]] fb by (simp add: update_dsE_runs clear_tab_runs fb_okD)
  moreover have "runs (same_size fb) (foldE (\<lambda>x. update_dsE (clear_tab x)) [0..width (ds ?fb) - 1] ?fb)"
  proof (rule runs_foldE [where P = "same_size fb", OF s])
    fix x fb1 assume x: "x \<in> set [0..width (ds ?fb) - 1]" and 1: "same_size fb fb1"
    then have "0 \<le> x" "x < width (ds fb1)" using s by (auto simp: same_size_def)
    then have "runs (same_size fb1) (update_dsE (clear_tab x) fb1)"
      using same_size_D [OF 1] by (simp add: update_dsE_runs clear_tab_runs fb_okD)
    then show "runs (same_size fb) (update_dsE (clear_tab x) fb1)" by (rule runs_same_size_trans [OF 1])
  qed
  ultimately show "runs (\<lambda>(fb', d'). same_size fb fb' \<and> disp_ok d') (CSI_TBC fb d)"
    unfolding CSI_TBC_def getparam_eq prod.case Let_def
    using d same_size_refl [OF fb] by (intro leave_runs parse_params_ok) simp_all
qed

text \<open>Modes.\<close>

definition mode_ok :: "mode_pointer \<Rightarrow> bool" where
  "mode_ok mode \<longleftrightarrow> (\<forall>assign v d. mode = Some assign \<longrightarrow> ds_ok d \<longrightarrow> resized d (assign v d))"

lemma set_if_available_same_size: "fb_ok fb \<Longrightarrow> mode_ok mode \<Longrightarrow> same_size fb (set_if_available mode v fb)"
  by (auto simp: set_if_available_def mode_ok_def same_size_update_ds same_size_refl fb_okD split: option.splits)

lemma get_DEC_mode_runs:
  assumes fb: "fb_ok fb"
  shows "runs (\<lambda>(fb', mode). same_size fb fb' \<and> mode_ok mode) (get_DEC_mode param fb)"
proof -
  let ?fb = "update_ds (move_col 0 False False) (update_ds (move_row 0 False) fb)"
  have s: "same_size fb ?fb" by (rule same_size_move [OF fb])
  have "runs (keeps (ds ?fb)) (foldE reset_row [0..height (ds ?fb) - 1] ?fb)"
    by (rule reset_rows_runs [OF keeps_self [OF same_size_D [OF s]]]) simp_all
  then have "runs (same_size fb) (foldE reset_row [0..height (ds ?fb) - 1] ?fb)"
    using runs_same_size_trans [OF s runs_keeps_same_size] by simp
  then have "runs (\<lambda>(fb', mode). same_size fb fb' \<and> mode_ok mode)
      (bindE (foldE reset_row [0..height (ds ?fb) - 1] ?fb) (\<lambda>fb2. Inr (fb2, None)))"
    by (rule runs_bindE) (simp add: mode_ok_def)
  then show ?thesis
    using s same_size_refl [OF fb]
    by (simp add: get_DEC_mode_def Let_def mode_ok_def resized_def)
qed

definition pair_ok :: "framebuffer \<Rightarrow> framebuffer \<times> dispatcher \<Rightarrow> bool" where
  "pair_ok fb = (\<lambda>(fb', d'). same_size fb fb' \<and> disp_ok d')"

lemma same_size_field_updates:
  assumes "fb_ok fb"
  shows "same_size fb (update_ds (\<lambda>s. s\<lparr>mouse_reporting_mode := i\<rparr>) fb)" "same_size fb (update_ds (\<lambda>s. s\<lparr>mouse_encoding_mode := i\<rparr>) fb)"
    "same_size fb (update_ds (\<lambda>s. s\<lparr>next_print_will_wrap := b\<rparr>) fb)"
  using assms by (auto intro!: same_size_update_ds simp: resized_def fb_okD)

lemma pair_ok_trans: "same_size fb fb1 \<Longrightarrow> same_size fb1 fb2 \<Longrightarrow> disp_ok d \<Longrightarrow> pair_ok fb (fb2, d)"
  by (auto simp: pair_ok_def intro: same_size_trans)

lemma mode_step_runs:
  assumes "pair_ok fb (fb1, d)"
  shows "runs (pair_ok fb) (bindE (get_DEC_mode param fb1) (\<lambda>(fb2, mode). Inr (set_if_available mode v fb2, parse_params d)))"
proof (rule runs_bindE [OF get_DEC_mode_runs])
  show "fb_ok fb1" using assms by (auto simp: pair_ok_def dest: same_size_D)
  fix q assume q: "case q of (fb', mode) \<Rightarrow> same_size fb1 fb' \<and> mode_ok mode"
  obtain fb2 mode where qq: "q = (fb2, mode)" by (cases q)
  then have "same_size fb fb2" using q assms by (auto simp: pair_ok_def intro: same_size_trans)
  moreover from this have "same_size fb2 (set_if_available mode v fb2)"
    using q qq by (simp add: set_if_available_same_size same_size_D)
  ultimately show "runs (pair_ok fb) (case q of (fb2, mode) \<Rightarrow> Inr (set_if_available mode v fb2, parse_params d))"
    using qq assms by (auto intro: same_size_trans parse_params_ok simp: pair_ok_def [of fb])
qed

lemma DECSM_step_runs: "pair_ok fb q \<Longrightarrow> runs (pair_ok fb) (DECSM_step i q)"
proof (cases q)
  case (Pair fb1 d)
  assume q: "pair_ok fb q"
  then have s: "same_size fb fb1" "disp_ok d" using Pair by (simp_all add: pair_ok_def)
  show ?thesis
    using mode_step_runs [of fb fb1 d _ True] q Pair same_size_field_updates [OF same_size_D [OF s(1)]] s
    by (simp add: DECSM_step_def getparam_eq pair_ok_trans [OF s(1)] parse_params_ok)
qed

lemma DECRM_step_runs: "pair_ok fb q \<Longrightarrow> runs (pair_ok fb) (DECRM_step i q)"
proof (cases q)
  case (Pair fb1 d)
  assume q: "pair_ok fb q"
  then have s: "same_size fb fb1" "disp_ok d" using Pair by (simp_all add: pair_ok_def)
  show ?thesis
    using mode_step_runs [of fb fb1 d _ False] q Pair same_size_field_updates [OF same_size_D [OF s(1)]] s
    by (simp add: DECRM_step_def getparam_eq pair_ok_trans [OF s(1)] parse_params_ok)
qed

lemma ANSI_step_runs: "pair_ok fb q \<Longrightarrow> runs (pair_ok fb) (ANSI_step v i q)"
proof (cases q)
  case (Pair fb1 d)
  assume q: "pair_ok fb q"
  then have s: "same_size fb fb1" "disp_ok d" using Pair by (simp_all add: pair_ok_def)
  have "mode_ok (get_ANSI_mode n)" for n by (simp add: get_ANSI_mode_def mode_ok_def resized_def)
  then show ?thesis
    using Pair s by (simp add: ANSI_step_def getparam_eq pair_ok_trans [OF s(1)] set_if_available_same_size same_size_D parse_params_ok)
qed

lemma param_loop_ok:
  assumes "\<And>fb i q. pair_ok fb q \<Longrightarrow> runs (pair_ok fb) (step i q)"
    and "\<And>fb d. f fb d = (case param_count d of (n, d1) \<Rightarrow> foldE step [0..<n] (fb, d1))"
  shows "function_ok f"
proof (rule function_okI)
  fix fb d assume "fb_ok fb" "disp_ok d"
  then have "pair_ok fb (fb, parse_params d)" by (simp add: pair_ok_def same_size_refl parse_params_ok)
  then have "runs (pair_ok fb) (foldE step [0..<n] (fb, parse_params d))" for n
    by (rule runs_foldE [where P = "pair_ok fb"]) (rule assms(1))
  then show "runs (\<lambda>(fb', d'). same_size fb fb' \<and> disp_ok d') (f fb d)"
    by (simp add: assms(2) param_count_eq flip: pair_ok_def)
qed

lemma CSI_DECSM_ok: "function_ok CSI_DECSM"
  by (rule param_loop_ok [OF DECSM_step_runs CSI_DECSM_def])

lemma CSI_DECRM_ok: "function_ok CSI_DECRM"
  by (rule param_loop_ok [OF DECRM_step_runs CSI_DECRM_def])

lemma CSI_SM_ok: "function_ok CSI_SM"
  by (rule param_loop_ok [OF ANSI_step_runs CSI_SM_def])

lemma CSI_RM_ok: "function_ok CSI_RM"
  by (rule param_loop_ok [OF ANSI_step_runs CSI_RM_def])

lemma CSI_DECSTBM_ok: "function_ok CSI_DECSTBM"
proof (rule function_okI)
  fix fb d assume fb: "fb_ok fb" and d: "disp_ok d"
  let ?t = "param_value (parsed_params (parse_params d)) 0 1"
  let ?b = "param_value (parsed_params (parse_params d)) 1 (height (ds fb))"
  let ?fb = "update_ds (set_scrolling_region (?t - 1) (?b - 1)) fb"
  have "same_size fb (update_ds (move_col 0 False False) (update_ds (move_row 0 False) ?fb))" if "?t \<le> height (ds fb)"
  proof -
    have "same_size fb ?fb"
      using fb that by (intro same_size_update_ds) (simp_all add: set_scrolling_region_resized fb_okD)
    then show ?thesis using same_size_trans same_size_move same_size_D by blast
  qed
  then show "runs (\<lambda>(fb', d'). same_size fb fb' \<and> disp_ok d') (CSI_DECSTBM fb d)"
    using fb d by (simp add: CSI_DECSTBM_def getparam_eq same_size_refl parse_params_ok)
qed

text \<open>Renditions, reports, the bell.\<close>

lemma sgr_loop_ok: "rend_ok r \<Longrightarrow> rend_ok (sgr_loop value n i r)"
proof (induction "value" n i r rule: sgr_loop.induct)
  case (1 "value" n i r)
  then show ?case
    by (subst sgr_loop.simps) (simp add: Let_def set_foreground_color_ok set_background_color_ok set_rendition_ok)
qed

lemma CSI_SGR_ok: "function_ok CSI_SGR"
proof (rule function_okI)
  fix fb d assume fb: "fb_ok fb" and d: "disp_ok d"
  have "resized (ds fb) ((ds fb)\<lparr>ds_renditions := sgr_loop value n 0 (ds_renditions (ds fb))\<rparr>)" for "value" n
    using fb by (simp add: resized_def ds_ok_display sgr_loop_ok ds_shapeD fb_ok_shape fb_okD)
  then show "runs (\<lambda>(fb', d'). same_size fb fb' \<and> disp_ok d') (CSI_SGR fb d)"
    using fb d by (simp add: CSI_SGR_def param_count_eq parse_params_ok with_renditions_def same_size_update_ds)
qed

lemma CSI_DA_ok: "function_ok CSI_DA"
  by (rule function_okI) (simp add: CSI_DA_def same_size_refl reply_ok)

lemma CSI_SDA_ok: "function_ok CSI_SDA"
  by (rule function_okI) (simp add: CSI_SDA_def same_size_refl reply_ok)

lemma CSI_DSR_ok: "function_ok CSI_DSR"
  by (rule function_okI) (simp add: CSI_DSR_def getparam_eq same_size_refl reply_ok parse_params_ok)

lemma Ctrl_BEL_ok: "function_ok Ctrl_BEL"
  by (rule function_okI) (simp add: Ctrl_BEL_def ring_bell_def same_size_def)

text \<open>Inserting, deleting, scrolling.\<close>

lemma append_ascii: "0 \<le> c \<Longrightarrow> c \<le> 0x7f \<Longrightarrow> append wcrtomb c cl = Inr (cl\<lparr>contents := contents cl @ [of_int c]\<rparr>)"
  by (simp add: append_def)

lemma Esc_DECALN_ok: "function_ok (Esc_DECALN wcrtomb)"
proof (rule function_okI)
  fix fb d assume fb: "fb_ok fb" and d: "disp_ok d"
  let ?P = "keeps (ds fb)"
  have cell: "runs ?P (bindE (reset_cell y x fb2) (mutable_cell y x (append wcrtomb 0x45)))"
    if "?P fb2" "0 \<le> y" "y < height (ds fb)" "0 \<le> x" "x < width (ds fb)" for x y fb2
    by (rule runs_bindE [OF reset_cell_runs [OF that(1)]])
      (use that in \<open>auto intro!: mutable_cell_runs simp: append_ascii cell_ok_def\<close>)
  have row: "runs ?P (foldE (\<lambda>x fb2. bindE (reset_cell y x fb2) (mutable_cell y x (append wcrtomb 0x45))) [0..width (ds fb1) - 1] fb1)"
    if "?P fb1" "0 \<le> y" "y < height (ds fb)" for y fb1
    by (rule runs_foldE [where P = ?P, OF that(1)]) (use that keepsD [OF that(1)] in \<open>auto intro!: cell\<close>)
  have "runs ?P (foldE (\<lambda>y fb1. foldE (\<lambda>x fb2. bindE (reset_cell y x fb2) (mutable_cell y x (append wcrtomb 0x45)))
      [0..width (ds fb1) - 1] fb1) [0..height (ds fb) - 1] fb)"
    by (rule runs_foldE [where P = ?P, OF keeps_self [OF fb]]) (auto intro!: row)
  then show "runs (\<lambda>(fb', d'). same_size fb fb' \<and> disp_ok d') (Esc_DECALN wcrtomb fb d)"
    unfolding Esc_DECALN_def by (intro leave_runs [OF d] runs_keeps_same_size)
qed

lemma lines_then_col_runs:
  assumes fb: "fb_ok fb" and m: "runs (keeps (ds fb)) m"
  shows "runs (same_size fb) (bindE m (\<lambda>fb1. Inr (update_ds (move_col 0 False False) fb1)))"
proof (rule runs_bindE [OF m])
  fix fb1 assume "keeps (ds fb) fb1"
  then have "same_size fb fb1" by (rule keeps_same_size)
  then show "runs (same_size fb) (Inr (update_ds (move_col 0 False False) fb1))"
    using same_size_trans [OF _ same_size_move_col] same_size_D by simp
qed

lemma CSI_IL_ok: "function_ok CSI_IL"
proof (rule function_okI)
  fix fb d assume fb: "fb_ok fb" and d: "disp_ok d"
  have "1 \<le> param_value (parsed_params (parse_params d)) 0 1" by (simp add: param_value_ge1)
  then show "runs (\<lambda>(fb', d'). same_size fb fb' \<and> disp_ok d') (CSI_IL fb d)"
    unfolding CSI_IL_def getparam_eq prod.case
    by (intro leave_runs parse_params_ok [OF d] lines_then_col_runs [OF fb] insert_line_runs keeps_self [OF fb]) simp
qed

lemma CSI_DL_ok: "function_ok CSI_DL"
proof (rule function_okI)
  fix fb d assume fb: "fb_ok fb" and d: "disp_ok d"
  have "1 \<le> param_value (parsed_params (parse_params d)) 0 1" by (simp add: param_value_ge1)
  then show "runs (\<lambda>(fb', d'). same_size fb fb' \<and> disp_ok d') (CSI_DL fb d)"
    unfolding CSI_DL_def getparam_eq prod.case
    by (intro leave_runs parse_params_ok [OF d] lines_then_col_runs [OF fb] delete_line_runs keeps_self [OF fb]) simp
qed

lemma CSI_ICH_ok: "function_ok CSI_ICH"
proof (rule function_okI)
  fix fb d assume fb: "fb_ok fb" and d: "disp_ok d"
  have "runs (keeps (ds fb)) (foldE (\<lambda>_ fb1. insert_cell (cursor_row (ds fb1)) (cursor_col (ds fb1)) fb1) xs fb)" for xs :: "int list"
  proof (rule runs_foldE [where P = "keeps (ds fb)", OF keeps_self [OF fb]])
    fix fb1 assume k: "keeps (ds fb) fb1"
    then show "runs (keeps (ds fb)) (insert_cell (cursor_row (ds fb1)) (cursor_col (ds fb1)) fb1)"
      using keeps_cursor [OF k] keepsD [OF k] by (intro insert_cell_runs [OF k]) auto
  qed
  then show "runs (\<lambda>(fb', d'). same_size fb fb' \<and> disp_ok d') (CSI_ICH fb d)"
    unfolding CSI_ICH_def getparam_eq prod.case by (intro leave_runs parse_params_ok [OF d] runs_keeps_same_size)
qed

lemma CSI_DCH_ok: "function_ok CSI_DCH"
proof (rule function_okI)
  fix fb d assume fb: "fb_ok fb" and d: "disp_ok d"
  have "runs (keeps (ds fb)) (foldE (\<lambda>_ fb1. delete_cell (cursor_row (ds fb1)) (cursor_col (ds fb1)) fb1) xs fb)" for xs :: "int list"
  proof (rule runs_foldE [where P = "keeps (ds fb)", OF keeps_self [OF fb]])
    fix fb1 assume k: "keeps (ds fb) fb1"
    then show "runs (keeps (ds fb)) (delete_cell (cursor_row (ds fb1)) (cursor_col (ds fb1)) fb1)"
      using keeps_cursor [OF k] keepsD [OF k] by (intro delete_cell_runs [OF k]) auto
  qed
  then show "runs (\<lambda>(fb', d'). same_size fb fb' \<and> disp_ok d') (CSI_DCH fb d)"
    unfolding CSI_DCH_def getparam_eq prod.case by (intro leave_runs parse_params_ok [OF d] runs_keeps_same_size)
qed

lemma CSI_SD_ok: "function_ok CSI_SD"
  by (rule function_okI) (simp add: CSI_SD_def getparam_eq leave_runs parse_params_ok runs_keeps_same_size scroll_fb_runs keeps_self)

lemma CSI_SU_ok: "function_ok CSI_SU"
  by (rule function_okI) (simp add: CSI_SU_def getparam_eq leave_runs parse_params_ok runs_keeps_same_size scroll_fb_runs keeps_self)

lemma Esc_RIS_ok: "function_ok Esc_RIS"
  by (rule function_okI) (simp add: Esc_RIS_def leave_runs fb_reset_runs)

lemma CSI_DECSTR_ok: "function_ok CSI_DECSTR"
  by (rule function_okI) (simp add: CSI_DECSTR_def soft_reset_same_size)

section \<open>Dispatch is safe\<close>

lemmas functions_ok =
  CSI_EL_ok CSI_ED_ok CSI_ECH_ok CSI_cursormove_ok Ctrl_LF_ok Ctrl_RI_ok Ctrl_CR_ok Ctrl_BS_ok Ctrl_NEL_ok CSI_VPA_ok CSI_HPA_ok
  Esc_DECSC_ok Esc_DECRC_ok Ctrl_HT_ok CSI_CxT_ok Ctrl_HTS_ok CSI_TBC_ok CSI_DECSM_ok CSI_DECRM_ok CSI_SM_ok CSI_RM_ok
  CSI_DECSTBM_ok CSI_SGR_ok CSI_DA_ok CSI_SDA_ok CSI_DSR_ok Ctrl_BEL_ok Esc_DECALN_ok CSI_IL_ok CSI_DL_ok CSI_ICH_ok CSI_DCH_ok
  CSI_SD_ok CSI_SU_ok Esc_RIS_ok CSI_DECSTR_ok

lemma registry_ok: "map_of (dispatch_map_of wcrtomb type) key = Some f \<Longrightarrow> function_ok (run_function f)"
proof -
  have "list_all (\<lambda>(k, f). function_ok (run_function f)) (dispatch_map_of wcrtomb type)"
    by (cases type) (simp_all add: dispatch_map_of_def CSI_registry_def escape_registry_def control_registry_def Function_def functions_ok)
  moreover assume "map_of (dispatch_map_of wcrtomb type) key = Some f"
  ultimately show ?thesis by (auto simp: list_all_iff dest!: map_of_SomeD)
qed

lemma dispatch_runs:
  assumes fb: "fb_ok fb" and d: "disp_ok d"
    and act: "type \<noteq> CONTROL \<Longrightarrow> char_present act" "type = CONTROL \<Longrightarrow> act_ch act \<le> 255"
  shows "runs (\<lambda>(fb', d'). same_size fb fb' \<and> disp_ok d') (dispatch wcrtomb type act fb d)"
  unfolding dispatch_def
proof (rule runs_bindE [where Q = disp_ok])
  show "runs disp_ok (if type = ESCAPE \<or> type = CSI
            then bindE (assertE (char_present act) AssertFailed) (\<lambda>_.
                 collect_char \<lparr>act_kind = Collect, act_ch = act_ch act, char_present = True\<rparr> d)
            else Inr d)"
    using d act(1) runs_mono [OF collect_char_runs [OF d]] by (auto simp: assertE_def)
  fix d1 assume d1: "disp_ok d1"
  let ?fb = "\<lambda>b. if b then update_ds (\<lambda>s. s\<lparr>next_print_will_wrap := False\<rparr>) fb else fb"
  have s: "same_size fb (?fb b)" for b using same_size_field_updates(3) [OF fb] same_size_refl [OF fb] by simp
  have go: "runs (\<lambda>(fb', d'). same_size fb fb' \<and> disp_ok d') (run_function f (?fb b) d1)" if "function_ok (run_function f)" for f b
  proof -
    have "runs (\<lambda>(fb', d'). same_size (?fb b) fb' \<and> disp_ok d') (run_function f (?fb b) d1)"
      using that d1 same_size_D [OF s] by (simp only: function_ok_def)
    then show ?thesis by (rule runs_mono) (auto intro: same_size_trans [OF s])
  qed
  have "runs (\<lambda>(fb', d'). same_size fb fb' \<and> disp_ok d')
     (case map_of (dispatch_map_of wcrtomb type) key of
       None \<Rightarrow> Inr (update_ds (\<lambda>s. s\<lparr>next_print_will_wrap := False\<rparr>) fb, d1)
     | Some f \<Rightarrow> run_function f (?fb (clears_wrap_state f)) d1)" for key
  proof (cases "map_of (dispatch_map_of wcrtomb type) key")
    case None
    then show ?thesis using s [of True] d1 by simp
  next
    case (Some f)
    then show ?thesis using go [OF registry_ok [OF Some]] by (simp only: option.case)
  qed
  then show "runs (\<lambda>(fb', d'). same_size fb fb' \<and> disp_ok d')
     (bindE (if type = CONTROL
            then bindE (assertE (act_ch act \<le> 255) AssertFailed) (\<lambda>_. Inr [char_of (act_ch act)])
            else Inr (dispatch_chars d1)) (\<lambda>key.
     case map_of (dispatch_map_of wcrtomb type) key of
       None \<Rightarrow> Inr (update_ds (\<lambda>s. s\<lparr>next_print_will_wrap := False\<rparr>) fb, d1)
     | Some f \<Rightarrow>
         run_function f (if clears_wrap_state f then update_ds (\<lambda>s. s\<lparr>next_print_will_wrap := False\<rparr>) fb else fb) d1))"
    using act(2) by (intro runs_bindE [where Q = "\<lambda>_. True"]) simp_all
qed

end
