(* ===== verification/Emulator.thy ===== *)
theory Emulator
  imports Terminal_Functions
begin

text \<open>
  The terminal emulator (src/mosh/src/terminal/terminal.cc, terminal.h, parseraction.cc) with the translation of cursor keys
  (src/mosh/src/terminal/terminaluserinput.cc), and the complete terminal that feeds a UTF-8 parser's actions to it
  (\<^verbatim>\<open>Complete::act\<close> of src/mosh/src/statesync/completeterminal.cc).

  The functions of the C library that depend on the locale are the fields of \<open>c_locale\<close>.
\<close>

record c_locale =
  mbrtowc :: "bytes \<Rightarrow> mb_result"
  wcrtomb :: "int \<Rightarrow> bytes option"
  wcwidth :: "int \<Rightarrow> int"

section \<open>Cursor keys\<close>

datatype user_input_state = UI_Ground | UI_ESC | UI_SS3

definition user_input :: "user_input_state \<Rightarrow> byte \<Rightarrow> bool \<Rightarrow> user_input_state \<times> bytes" where
  "user_input state c application_mode =
     (case state of
        UI_Ground \<Rightarrow> (if c = 0x1b then UI_ESC else UI_Ground, [c])
      | UI_ESC \<Rightarrow> if c = 0x4F then (UI_SS3, []) else (UI_Ground, [c])
      | UI_SS3 \<Rightarrow>
          if \<not> application_mode \<and> c \<ge> 0x41 \<and> c \<le> 0x44 then (UI_Ground, [0x5B, c]) else (UI_Ground, [0x4F, c]))"

section \<open>The emulator\<close>

record emulator =
  fb :: framebuffer
  disp :: dispatcher
  user :: user_input_state

definition to_int :: "u64 \<Rightarrow> int" where
  "to_int n = sint (ucast n :: u32)"

definition Emulator :: "u64 \<Rightarrow> u64 \<Rightarrow> u64 \<Rightarrow> emulator result" where
  "Emulator g s_width s_height =
     bindE (Framebuffer g (to_int s_width) (to_int s_height)) (\<lambda>f. Inr \<lparr>fb = f, disp = Dispatcher, user = UI_Ground\<rparr>)"

definition read_octets_to_host :: "emulator \<Rightarrow> bytes \<times> emulator" where
  "read_octets_to_host e = (terminal_to_host (disp e), e\<lparr>disp := (disp e)\<lparr>terminal_to_host := []\<rparr>\<rparr>)"

definition run_dispatch :: "c_locale \<Rightarrow> function_type \<Rightarrow> action \<Rightarrow> emulator \<Rightarrow> emulator result" where
  "run_dispatch lib type act e =
     bindE (dispatch (wcrtomb lib) type act (fb e) (disp e)) (\<lambda>(f, d). Inr (e\<lparr>fb := f, disp := d\<rparr>))"

definition execute :: "c_locale \<Rightarrow> action \<Rightarrow> emulator \<Rightarrow> emulator result" where
  "execute lib act e = run_dispatch lib CONTROL act e"

definition CSI_dispatch :: "c_locale \<Rightarrow> action \<Rightarrow> emulator \<Rightarrow> emulator result" where
  "CSI_dispatch lib act e = run_dispatch lib CSI act e"

definition Esc_dispatch :: "c_locale \<Rightarrow> action \<Rightarrow> emulator \<Rightarrow> emulator result" where
  "Esc_dispatch lib act e =
     (if dispatch_chars (disp e) = [] \<and> 0x40 \<le> act_ch act \<and> act_ch act \<le> 0x5F
      then run_dispatch lib CONTROL (act\<lparr>act_ch := act_ch act + 0x40\<rparr>) e
      else run_dispatch lib ESCAPE act e)"

definition OSC_end :: "emulator \<Rightarrow> emulator result" where
  "OSC_end e = bindE (OSC_dispatch (fb e) (disp e)) (\<lambda>f. Inr (e\<lparr>fb := f\<rparr>))"

subsection \<open>Printing\<close>

definition char_width :: "c_locale \<Rightarrow> int \<Rightarrow> int" where
  "char_width lib ch = (if ch = 0 then - 1 else if isprint_iso8859_1 ch then 1 else wcwidth lib ch)"

definition next_line :: "bool \<Rightarrow> framebuffer \<Rightarrow> framebuffer result" where
  "next_line w f =
     bindE (mutable_row (- 1) (set_wrap w) f) (\<lambda>f1. move_rows_autoscroll 1 (update_ds (move_col 0 False False) f1))"

definition print_wrap :: "int \<Rightarrow> framebuffer \<Rightarrow> framebuffer result" where
  "print_wrap chwidth f =
     (if auto_wrap_mode (ds f) \<and> next_print_will_wrap (ds f) then next_line True f
      else if auto_wrap_mode (ds f) \<and> chwidth = 2 \<and> cursor_col (ds f) = width (ds f) - 1
      then bindE (reset_cell (- 1) (- 1) f) (next_line False)
      else Inr f)"

definition put_char :: "c_locale \<Rightarrow> int \<Rightarrow> int \<Rightarrow> framebuffer \<Rightarrow> cell \<Rightarrow> cell result" where
  "put_char lib chwidth ch f c =
     bindE (append (wcrtomb lib) ch (Cell_reset (background f) c)) (\<lambda>c1.
     Inr (c1\<lparr>wide := (chwidth = 2), cell_renditions := ds_renditions (ds f), cell_hyperlink := ds_hyperlink (ds f)\<rparr>))"

definition print_base :: "c_locale \<Rightarrow> int \<Rightarrow> int \<Rightarrow> framebuffer \<Rightarrow> framebuffer result" where
  "print_base lib chwidth ch f =
     bindE (print_wrap chwidth f) (\<lambda>f1.
     bindE (if insert_mode (ds f1)
            then foldE (\<lambda>_ f'. insert_cell (cursor_row (ds f')) (cursor_col (ds f')) f') [0..chwidth - 1] f1
            else Inr f1) (\<lambda>f2.
     bindE (mutable_cell (- 1) (- 1) (put_char lib chwidth ch f2) f2) (\<lambda>f3.
     bindE (if chwidth = 2 \<and> cursor_col (ds f3) + 1 < width (ds f3)
            then reset_cell (cursor_row (ds f3)) (cursor_col (ds f3) + 1) f3 else Inr f3) (\<lambda>f4.
     Inr (update_ds (move_col chwidth True True) f4)))))"

definition print_combining :: "c_locale \<Rightarrow> int \<Rightarrow> framebuffer \<Rightarrow> framebuffer result" where
  "print_combining lib ch f =
     (case get_combining_cell f of
        None \<Rightarrow> Inr f
      | Some (r, c) \<Rightarrow>
          bindE (get_cell r c f) (\<lambda>combining_cell.
          bindE (if contents combining_cell = []
                 then bindE (assertE (\<not> wide combining_cell) AssertFailed) (\<lambda>_.
                      bindE (mutable_cell r c (\<lambda>cl. Inr (cl\<lparr>fallback := True\<rparr>)) f) (\<lambda>f1.
                      Inr (update_ds (move_col 1 True True) f1)))
                 else Inr f) (\<lambda>f2.
          bindE (get_cell r c f2) (\<lambda>cl2.
          if \<not> full cl2 then mutable_cell r c (append (wcrtomb lib) ch) f2 else Inr f2))))"

definition print :: "c_locale \<Rightarrow> action \<Rightarrow> emulator \<Rightarrow> emulator result" where
  "print lib act e =
     bindE (assertE (char_present act) AssertFailed) (\<lambda>_.
     let ch = act_ch act; chwidth = char_width lib ch in
     bindE (get_cell (- 1) (- 1) (fb e)) (\<lambda>_.
     bindE (if chwidth = 1 \<or> chwidth = 2 then print_base lib chwidth ch (fb e)
            else if chwidth = 0 then print_combining lib ch (fb e)
            else if chwidth = - 1 then Inr (fb e)
            else Inl AssertFailed) (\<lambda>f. Inr (e\<lparr>fb := f\<rparr>))))"

definition emu_resize :: "u64 \<Rightarrow> u64 \<Rightarrow> emulator \<Rightarrow> emulator result" where
  "emu_resize s_width s_height e =
     bindE (fb_resize (to_int s_width) (to_int s_height) (fb e)) (\<lambda>f. Inr (e\<lparr>fb := f\<rparr>))"

section \<open>Actions\<close>

definition act_on_terminal :: "c_locale \<Rightarrow> action \<Rightarrow> emulator \<Rightarrow> emulator result" where
  "act_on_terminal lib act e =
     (case act_kind act of
        Print \<Rightarrow> print lib act e
      | Execute \<Rightarrow> execute lib act e
      | Clear \<Rightarrow> Inr (e\<lparr>disp := clear (disp e)\<rparr>)
      | Param \<Rightarrow> bindE (newparamchar act (disp e)) (\<lambda>d. Inr (e\<lparr>disp := d\<rparr>))
      | Collect \<Rightarrow> bindE (collect_char act (disp e)) (\<lambda>d. Inr (e\<lparr>disp := d\<rparr>))
      | CSI_Dispatch \<Rightarrow> CSI_dispatch lib act e
      | Esc_Dispatch \<Rightarrow> Esc_dispatch lib act e
      | OSC_Put \<Rightarrow> bindE (OSC_put act (disp e)) (\<lambda>d. Inr (e\<lparr>disp := d\<rparr>))
      | OSC_Start \<Rightarrow> Inr (e\<lparr>disp := OSC_start (disp e)\<rparr>)
      | OSC_End \<Rightarrow> OSC_end e
      | Ignore \<Rightarrow> Inr e
      | Hook \<Rightarrow> Inr e
      | Put \<Rightarrow> Inr e
      | Unhook \<Rightarrow> Inr e)"

definition act_user_byte :: "byte \<Rightarrow> emulator \<Rightarrow> emulator" where
  "act_user_byte c e =
     (case user_input (user e) c (application_mode_cursor_keys (ds (fb e))) of (u, out) \<Rightarrow>
        e\<lparr>user := u, disp := (disp e)\<lparr>terminal_to_host := terminal_to_host (disp e) @ out\<rparr>\<rparr>)"

section \<open>The complete terminal\<close>

record complete_terminal =
  parser :: utf8_parser
  terminal :: emulator

definition Complete :: "u64 \<Rightarrow> u64 \<Rightarrow> u64 \<Rightarrow> complete_terminal result" where
  "Complete g w h = bindE (Emulator g w h) (\<lambda>e. Inr \<lparr>parser = UTF8Parser, terminal = e\<rparr>)"

definition act_octet :: "c_locale \<Rightarrow> byte \<Rightarrow> complete_terminal \<Rightarrow> complete_terminal result" where
  "act_octet lib c t =
     bindE (utf8_input (mbrtowc lib) (parser t) c) (\<lambda>(p, actions).
     bindE (foldE (act_on_terminal lib) actions (terminal t)) (\<lambda>e.
     Inr (t\<lparr>parser := p, terminal := e\<rparr>)))"

definition act :: "c_locale \<Rightarrow> bytes \<Rightarrow> complete_terminal \<Rightarrow> (bytes \<times> complete_terminal) result" where
  "act lib str t =
     bindE (foldE (act_octet lib) str t) (\<lambda>t1.
     case read_octets_to_host (terminal t1) of (out, e) \<Rightarrow> Inr (out, t1\<lparr>terminal := e\<rparr>))"

datatype external_action = UserByte_act byte | Resize_act u64 u64

definition act_external :: "external_action \<Rightarrow> complete_terminal \<Rightarrow> (bytes \<times> complete_terminal) result" where
  "act_external a t =
     bindE (case a of UserByte_act c \<Rightarrow> Inr (act_user_byte c (terminal t)) | Resize_act w h \<Rightarrow> emu_resize w h (terminal t)) (\<lambda>e.
     case read_octets_to_host e of (out, e') \<Rightarrow> Inr (out, t\<lparr>terminal := e'\<rparr>))"

section \<open>Operating system commands are safe\<close>

lemma takeWhile_dropWhile_split:
  assumes "dropWhile P xs = y # ys"
  shows "xs = takeWhile P xs @ y # ys" "\<not> P y"
  using takeWhile_dropWhile_id [of P xs] assms hd_dropWhile [of P xs] by auto

lemma Parse_OSC_8_chars:
  assumes "Parse_OSC_8 v = Some s"
  shows "list_all link_char s" "length s = length v"
proof -
  have "link_char (char_of ch)" if "32 \<le> ch" "ch \<le> 126" for ch :: int
  proof -
    have "int (of_char (char_of ch :: char)) = ch" using that by (simp add: of_nat_of_char)
    then show ?thesis using that by (simp add: link_char_def)
  qed
  then show "list_all link_char s" "length s = length v"
    using assms by (auto simp: Parse_OSC_8_def list_all_iff not_less split: if_splits)
qed

lemma OSC_8_runs:
  assumes fb: "fb_ok f" and s: "s \<noteq> []" "hd s = CHR ''8''" "list_all link_char s" "length s \<le> 16384"
  shows "runs (same_size f) (OSC_8 s f)"
proof (cases "length s \<le> 2 \<or> s ! 1 \<noteq> CHR '';'' \<or> dropWhile (\<lambda>ch. ch \<noteq> CHR '';'') (drop 2 s) = []")
  case True
  then show ?thesis by (elim disjE) (simp_all add: OSC_8_def s same_size_refl [OF fb] del: dropWhile_eq_Nil_conv)
next
  case False
  then obtain y url where d: "dropWhile (\<lambda>ch. ch \<noteq> CHR '';'') (drop 2 s) = y # url"
    by (cases "dropWhile (\<lambda>ch. ch \<noteq> CHR '';'') (drop 2 s)") auto
  define ps where "ps = takeWhile (\<lambda>ch. ch \<noteq> CHR '';'') (drop 2 s)"
  have e: "drop 2 s = ps @ y # url" unfolding ps_def by (rule takeWhile_dropWhile_split(1) [OF d])
  have "length (drop 2 s) = length ps + 1 + length url" by (simp add: e)
  then have l: "length ps + length url + 3 \<le> 16384" using s(4) False by simp
  have "list_all link_char (drop 2 s)" using s(3) by (rule list_all_take_drop)
  then have "list_all link_char (ps @ url)" by (simp add: e)
  moreover have "CHR '';'' \<notin> set ps" by (auto simp: ps_def dest: set_takeWhileD)
  ultimately have "link_ok (Hyperlink ps url)" using l by (simp add: Hyperlink_def link_ok_def)
  then have r: "resized (ds f) ((ds f)\<lparr>ds_hyperlink := Hyperlink ps url\<rparr>)"
    using fb by (simp add: resized_def ds_ok_display fb_okD)
  have "OSC_8 s f = Inr (update_ds (\<lambda>d. d\<lparr>ds_hyperlink := Hyperlink ps url\<rparr>) f)"
    using s(1, 2) False d by (simp add: OSC_8_def ps_def)
  then show ?thesis using fb r by (simp add: same_size_update_ds)
qed

lemma OSC_dispatch_runs:
  assumes fb: "fb_ok f" and d: "disp_ok d"
  shows "runs (same_size f) (OSC_dispatch f d)"
proof -
  have "runs (same_size f) (OSC_8 s f)"
    if "Parse_OSC_8 (OSC_string d) = Some s" "2 \<le> length (OSC_string d)" "OSC_string d ! 0 = 0x38" for s
  proof (rule OSC_8_runs [OF fb])
    have "s = map char_of (OSC_string d)" using that(1) by (auto simp: Parse_OSC_8_def split: if_splits)
    moreover have "OSC_string d \<noteq> []" using that(2) by auto
    ultimately show "s \<noteq> []" "hd s = CHR ''8''" using that(3) by (simp_all add: hd_map hd_conv_nth char_of_def)
    show "list_all link_char s" by (rule Parse_OSC_8_chars(1) [OF that(1)])
    show "length s \<le> 16384" using Parse_OSC_8_chars(2) [OF that(1)] d by (simp add: disp_ok_def MAXIMUM_CLIPBOARD_SIZE_def)
  qed
  then show ?thesis
    using same_size_refl [OF fb]
    by (auto simp: OSC_dispatch_def Let_def set_titles_def same_size_def split: option.splits)
qed

section \<open>Printing is safe\<close>

text \<open>The wide-character functions of a UTF-8 locale: every scalar value has an encoding, which is not empty, and a width of at most two columns.\<close>

definition wide_ok :: "c_locale \<Rightarrow> bool" where
  "wide_ok lib \<longleftrightarrow>
     (\<forall>ch. scalar ch \<longrightarrow> (\<exists>bs. wcrtomb lib ch = Some bs \<and> bs \<noteq> [] \<and> length bs < BUF_SIZE) \<and> wcwidth lib ch \<in> {- 1, 0, 1, 2})"

definition locale_ok :: "c_locale \<Rightarrow> bool" where
  "locale_ok lib \<longleftrightarrow> mbrtowc_ok (mbrtowc lib) \<and> wide_ok lib"

lemma append_runs:
  assumes "wide_ok lib" "scalar ch"
  shows "runs (\<lambda>c'. contents c' \<noteq> [] \<and> cell_renditions c' = cell_renditions c \<and> cell_hyperlink c' = cell_hyperlink c \<and> wide c' = wide c)
    (append (wcrtomb lib) ch c)"
proof -
  obtain bs where "wcrtomb lib ch = Some bs" "bs \<noteq> []" using assms unfolding wide_ok_def by blast
  then show ?thesis by (simp add: append_def)
qed

lemma append_cell_ok: "wide_ok lib \<Longrightarrow> scalar ch \<Longrightarrow> cell_ok c \<Longrightarrow> runs cell_ok (append (wcrtomb lib) ch c)"
  by (rule runs_mono [OF append_runs]) (simp_all add: cell_ok_def)

lemma put_char_runs:
  assumes "wide_ok lib" "scalar ch" "fb_ok f"
  shows "runs cell_ok (put_char lib w ch f c)"
  unfolding put_char_def
  by (rule runs_bindE [OF append_runs [OF assms(1, 2)]])
    (use assms(3) in \<open>auto simp: cell_ok_def ds_shapeD fb_ok_shape\<close>)

lemma get_cell_runs:
  assumes "fb_ok f" "r = - 1 \<or> 0 \<le> r \<and> r < height (ds f)" "c = - 1 \<or> 0 \<le> c \<and> c < width (ds f)"
  shows "runs cell_ok (get_cell r c f)"
  unfolding get_cell_def
  by (rule runs_bindE [OF get_row_runs [OF assms(1, 2)]])
    (use assms(3) ds_ok_cursor [OF fb_okD(1) [OF assms(1)]] in \<open>auto simp: row_ok_def Let_def list_all_length\<close>)

lemma next_line_runs:
  assumes "fb_ok f"
  shows "runs (same_size f) (next_line w f)"
  unfolding next_line_def
proof (rule runs_bindE [OF mutable_row_runs [OF keeps_self [OF assms]]])
  fix rw assume "row_ok (nat (width (ds f))) rw"
  then show "runs (row_ok (nat (width (ds f)))) (set_wrap w rw)"
    using ds_shapeD(1) [OF fb_ok_shape [OF assms]] by (intro set_wrap_runs) simp_all
next
  fix f1 assume "keeps (ds f) f1"
  then have s: "same_size f (update_ds (move_col 0 False False) f1)"
    using same_size_trans [OF keeps_same_size same_size_move_col] keepsD by blast
  show "runs (same_size f) (move_rows_autoscroll 1 (update_ds (move_col 0 False False) f1))"
    by (rule runs_same_size_trans [OF s move_rows_autoscroll_runs [OF same_size_D [OF s]]])
qed simp

lemma print_wrap_runs:
  assumes "fb_ok f"
  shows "runs (same_size f) (print_wrap w f)"
proof -
  have "runs (same_size f) (bindE (reset_cell (- 1) (- 1) f) (next_line False))"
  proof (rule runs_bindE [OF reset_cell_runs [OF keeps_self [OF assms]]])
    fix f1 assume "keeps (ds f) f1"
    then have s: "same_size f f1" by (rule keeps_same_size)
    show "runs (same_size f) (next_line False f1)"
      by (rule runs_same_size_trans [OF s next_line_runs [OF same_size_D [OF s]]])
  qed simp_all
  then show ?thesis
    using assms next_line_runs [OF assms] same_size_refl [OF assms] by (simp add: print_wrap_def)
qed

lemma insert_cells_runs:
  assumes "fb_ok f"
  shows "runs (keeps (ds f)) (foldE (\<lambda>_ f'. insert_cell (cursor_row (ds f')) (cursor_col (ds f')) f') xs f)"
proof (rule runs_foldE [where P = "keeps (ds f)", OF keeps_self [OF assms]])
  fix f1 assume k: "keeps (ds f) f1"
  then show "runs (keeps (ds f)) (insert_cell (cursor_row (ds f1)) (cursor_col (ds f1)) f1)"
    using keeps_cursor [OF k] keepsD [OF k] by (intro insert_cell_runs [OF k]) auto
qed

lemma print_base_runs:
  assumes lib: "wide_ok lib" and ch: "scalar ch" and fb: "fb_ok f"
  shows "runs (same_size f) (print_base lib w ch f)"
  unfolding print_base_def
proof (rule runs_bindE [OF print_wrap_runs [OF fb]])
  fix f1 assume s1: "same_size f f1"
  note f1 = same_size_D [OF s1]
  show "runs (same_size f) (bindE (if insert_mode (ds f1)
            then foldE (\<lambda>_ f'. insert_cell (cursor_row (ds f')) (cursor_col (ds f')) f') [0..w - 1] f1
            else Inr f1) (\<lambda>f2.
     bindE (mutable_cell (- 1) (- 1) (put_char lib w ch f2) f2) (\<lambda>f3.
     bindE (if w = 2 \<and> cursor_col (ds f3) + 1 < width (ds f3)
            then reset_cell (cursor_row (ds f3)) (cursor_col (ds f3) + 1) f3 else Inr f3) (\<lambda>f4.
     Inr (update_ds (move_col w True True) f4)))))"
  proof (rule runs_bindE [where Q = "keeps (ds f1)"])
    fix f2 assume k2: "keeps (ds f1) f2"
    show "runs (same_size f) (bindE (mutable_cell (- 1) (- 1) (put_char lib w ch f2) f2) (\<lambda>f3.
       bindE (if w = 2 \<and> cursor_col (ds f3) + 1 < width (ds f3)
            then reset_cell (cursor_row (ds f3)) (cursor_col (ds f3) + 1) f3 else Inr f3) (\<lambda>f4.
       Inr (update_ds (move_col w True True) f4))))"
    proof (rule runs_bindE [OF mutable_cell_runs [OF k2]])
      fix f3 assume k3: "keeps (ds f1) f3"
      have "runs (keeps (ds f1)) (if w = 2 \<and> cursor_col (ds f3) + 1 < width (ds f3)
            then reset_cell (cursor_row (ds f3)) (cursor_col (ds f3) + 1) f3 else Inr f3)"
        using keeps_cursor [OF k3] keepsD [OF k3] k3 by (auto intro!: reset_cell_runs [OF k3])
      then show "runs (same_size f) (bindE (if w = 2 \<and> cursor_col (ds f3) + 1 < width (ds f3)
            then reset_cell (cursor_row (ds f3)) (cursor_col (ds f3) + 1) f3 else Inr f3) (\<lambda>f4.
         Inr (update_ds (move_col w True True) f4)))"
      proof (rule runs_bindE)
        fix f4 assume "keeps (ds f1) f4"
        then have "same_size f f4" using keeps_same_size same_size_trans [OF s1] by blast
        then show "runs (same_size f) (Inr (update_ds (move_col w True True) f4))"
          using same_size_trans [OF _ same_size_move_col] same_size_D by simp
      qed
    qed (use lib ch keepsD [OF k2] in \<open>auto intro: put_char_runs\<close>)
  qed (use insert_cells_runs [OF f1, of "[0..w - 1]"] keeps_self [OF f1] in simp)
qed

lemma print_combining_runs:
  assumes lib: "wide_ok lib" and ch: "scalar ch" and fb: "fb_ok f"
  shows "runs (same_size f) (print_combining lib ch f)"
proof (cases "get_combining_cell f")
  case None
  then show ?thesis using same_size_refl [OF fb] by (simp add: print_combining_def)
next
  case (Some rc)
  obtain r c where rc: "rc = (r, c)" by (cases rc)
  have b: "0 \<le> r" "r < height (ds f)" "0 \<le> c" "c < width (ds f)"
    using Some rc by (auto simp: get_combining_cell_def Let_def split: if_splits)
  have last: "runs (same_size f) (bindE (get_cell r c f2) (\<lambda>cl2.
      if \<not> full cl2 then mutable_cell r c (append (wcrtomb lib) ch) f2 else Inr f2))" if s: "same_size f f2" for f2
  proof (rule runs_bindE [OF get_cell_runs [OF same_size_D [OF s]]])
    have "runs (keeps (ds f2)) (mutable_cell r c (append (wcrtomb lib) ch) f2)"
      using b s append_cell_ok [OF lib ch] by (intro mutable_cell_runs [OF keeps_self [OF same_size_D [OF s]]]) (auto simp: same_size_def)
    then have "runs (same_size f) (mutable_cell r c (append (wcrtomb lib) ch) f2)"
      by (rule runs_same_size_trans [OF s runs_keeps_same_size])
    then show "runs (same_size f) (if \<not> full cl2 then mutable_cell r c (append (wcrtomb lib) ch) f2 else Inr f2)" for cl2
      using s by simp
  qed (use b s in \<open>auto simp: same_size_def\<close>)
  have fallback: "runs (same_size f) (bindE (mutable_cell r c (\<lambda>cl. Inr (cl\<lparr>fallback := True\<rparr>)) f) (\<lambda>f1.
      Inr (update_ds (move_col 1 True True) f1)))"
  proof (rule runs_bindE [OF mutable_cell_runs [OF keeps_self [OF fb]]])
    fix f1 assume "keeps (ds f) f1"
    then show "runs (same_size f) (Inr (update_ds (move_col 1 True True) f1))"
      using same_size_trans [OF keeps_same_size same_size_move_col] keepsD by auto
  qed (use b in \<open>auto simp: cell_ok_def\<close>)
  have "runs (same_size f) (bindE (get_cell r c f) (\<lambda>combining_cell.
          bindE (if contents combining_cell = []
                 then bindE (assertE (\<not> wide combining_cell) AssertFailed) (\<lambda>_.
                      bindE (mutable_cell r c (\<lambda>cl. Inr (cl\<lparr>fallback := True\<rparr>)) f) (\<lambda>f1.
                      Inr (update_ds (move_col 1 True True) f1)))
                 else Inr f) (\<lambda>f2.
          bindE (get_cell r c f2) (\<lambda>cl2.
          if \<not> full cl2 then mutable_cell r c (append (wcrtomb lib) ch) f2 else Inr f2))))"
  proof (rule runs_bindE [OF get_cell_runs [OF fb]])
    fix cl assume "cell_ok cl"
    then have "contents cl = [] \<Longrightarrow> \<not> wide cl" by (auto simp: cell_ok_def)
    then show "runs (same_size f) (bindE (if contents cl = []
                 then bindE (assertE (\<not> wide cl) AssertFailed) (\<lambda>_.
                      bindE (mutable_cell r c (\<lambda>cl. Inr (cl\<lparr>fallback := True\<rparr>)) f) (\<lambda>f1.
                      Inr (update_ds (move_col 1 True True) f1)))
                 else Inr f) (\<lambda>f2.
          bindE (get_cell r c f2) (\<lambda>cl2.
          if \<not> full cl2 then mutable_cell r c (append (wcrtomb lib) ch) f2 else Inr f2)))"
      using fallback same_size_refl [OF fb] by (intro runs_bindE [where Q = "same_size f", OF _ last]) simp_all
  qed (use b in auto)
  then show ?thesis using Some rc by (simp add: print_combining_def)
qed

section \<open>The terminal is safe\<close>

definition emu_ok :: "emulator \<Rightarrow> bool" where
  "emu_ok e \<longleftrightarrow> fb_ok (fb e) \<and> disp_ok (disp e)"

definition same_screen :: "emulator \<Rightarrow> emulator \<Rightarrow> bool" where
  "same_screen e e' \<longleftrightarrow> emu_ok e' \<and> same_size (fb e) (fb e')"

lemma same_screenI: "same_size (fb e) f \<Longrightarrow> disp_ok d \<Longrightarrow> same_screen e (e\<lparr>fb := f, disp := d\<rparr>)"
  by (simp add: same_screen_def emu_ok_def same_size_def)

lemma run_dispatch_runs:
  assumes e: "emu_ok e" and a: "type \<noteq> CONTROL \<Longrightarrow> char_present a" "type = CONTROL \<Longrightarrow> act_ch a \<le> 255"
  shows "runs (same_screen e) (run_dispatch lib type a e)"
  unfolding run_dispatch_def
  using e a by (intro runs_bindE [OF dispatch_runs]) (auto simp: emu_ok_def intro!: same_screenI)

lemma print_runs:
  assumes lib: "wide_ok lib" and e: "emu_ok e" and a: "action_ok a" "act_kind a = Print"
  shows "runs (same_screen e) (print lib a e)"
proof -
  have ch: "scalar (act_ch a)" "char_present a" using a by (auto simp: action_ok_def)
  have fb: "fb_ok (fb e)" "disp_ok (disp e)" using e by (simp_all add: emu_ok_def)
  have "wcwidth lib (act_ch a) \<in> {- 1, 0, 1, 2}" using lib ch(1) unfolding wide_ok_def by blast
  then have "char_width lib (act_ch a) \<in> {- 1, 0, 1, 2}" by (simp add: char_width_def)
  then have "runs (same_size (fb e)) (if char_width lib (act_ch a) = 1 \<or> char_width lib (act_ch a) = 2
        then print_base lib (char_width lib (act_ch a)) (act_ch a) (fb e)
        else if char_width lib (act_ch a) = 0 then print_combining lib (act_ch a) (fb e)
        else if char_width lib (act_ch a) = - 1 then Inr (fb e) else Inl AssertFailed)"
    using print_base_runs [OF lib ch(1) fb(1)] print_combining_runs [OF lib ch(1) fb(1)] same_size_refl [OF fb(1)] by auto
  then show ?thesis
    unfolding print_def Let_def using ch(2) fb
    by (intro runs_bindE [where Q = "\<lambda>_. True"] runs_bindE [where Q = cell_ok] runs_bindE [where Q = "same_size (fb e)"] get_cell_runs)
      (auto simp: assertE_def same_screen_def emu_ok_def same_size_D)
qed

lemma act_on_terminal_runs:
  assumes lib: "wide_ok lib" and e: "emu_ok e" and a: "action_ok a"
  shows "runs (same_screen e) (act_on_terminal lib a e)"
proof -
  have fb: "fb_ok (fb e)" "disp_ok (disp e)" using e by (simp_all add: emu_ok_def)
  have same: "same_screen e (e\<lparr>disp := d\<rparr>)" if "disp_ok d" for d
    using that fb same_size_refl [OF fb(1)] by (simp add: same_screen_def emu_ok_def)
  have "runs (same_screen e) (OSC_end e)"
    unfolding OSC_end_def using fb
    by (intro runs_bindE [OF OSC_dispatch_runs]) (auto simp: same_screen_def emu_ok_def same_size_D)
  moreover have "act_kind a = Esc_Dispatch \<Longrightarrow> runs (same_screen e) (Esc_dispatch lib a e)"
    using a by (auto simp: Esc_dispatch_def action_ok_def intro!: run_dispatch_runs [OF e])
  moreover have "act_kind a = CSI_Dispatch \<Longrightarrow> runs (same_screen e) (CSI_dispatch lib a e)"
    using a by (auto simp: CSI_dispatch_def action_ok_def intro!: run_dispatch_runs [OF e])
  moreover have "act_kind a = Execute \<Longrightarrow> runs (same_screen e) (execute lib a e)"
    using a by (auto simp: execute_def action_ok_def intro!: run_dispatch_runs [OF e])
  moreover have "act_kind a = Param \<Longrightarrow> runs (same_screen e) (bindE (newparamchar a (disp e)) (\<lambda>d. Inr (e\<lparr>disp := d\<rparr>)))"
    using a fb by (intro runs_bindE [OF newparamchar_runs]) (auto intro: same)
  moreover have "act_kind a = Collect \<Longrightarrow> runs (same_screen e) (bindE (collect_char a (disp e)) (\<lambda>d. Inr (e\<lparr>disp := d\<rparr>)))"
    using a fb by (intro runs_bindE [OF collect_char_runs]) (auto intro: same simp: action_ok_def)
  moreover have "act_kind a = OSC_Put \<Longrightarrow> runs (same_screen e) (bindE (OSC_put a (disp e)) (\<lambda>d. Inr (e\<lparr>disp := d\<rparr>)))"
    using a fb by (intro runs_bindE [OF OSC_put_runs]) (auto intro: same)
  moreover have "same_screen e e" using e same_size_refl [OF fb(1)] by (simp add: same_screen_def)
  ultimately show ?thesis
    using print_runs [OF lib e a] same [OF clear_ok [OF fb(2)]] same [OF OSC_start_ok [OF fb(2)]]
    by (cases "act_kind a") (simp_all add: act_on_terminal_def)
qed

definition terminal_ok :: "c_locale \<Rightarrow> int \<Rightarrow> int \<Rightarrow> complete_terminal \<Rightarrow> bool" where
  "terminal_ok lib w h t \<longleftrightarrow> utf8_ok (mbrtowc lib) (parser t) \<and> emu_ok (terminal t)
     \<and> width (ds (fb (terminal t))) = w \<and> height (ds (fb (terminal t))) = h"

lemma same_screen_trans: "same_screen e e1 \<Longrightarrow> same_screen e1 e2 \<Longrightarrow> same_screen e e2"
  by (auto simp: same_screen_def intro: same_size_trans)

lemma act_octet_runs:
  assumes lib: "locale_ok lib" and t: "terminal_ok lib w h t"
  shows "runs (terminal_ok lib w h) (act_octet lib c t)"
proof -
  have ok: "mbrtowc_ok (mbrtowc lib)" "wide_ok lib" using lib by (simp_all add: locale_ok_def)
  have tt: "utf8_ok (mbrtowc lib) (parser t)" "emu_ok (terminal t)" using t by (simp_all add: terminal_ok_def)
  obtain p as cps where p: "utf8_input (mbrtowc lib) (parser t) c = Inr (p, as)" "utf8_ok (mbrtowc lib) p"
      "parser_inputs (utf8_state (parser t)) cps = (utf8_state p, as)" "burst cps"
    using utf8_input_total [OF ok(1) tt(1), of c] by blast
  have "list_all action_ok as"
    using parser_inputs_action_ok [of cps "utf8_state (parser t)"] p(3, 4) by (simp add: burst_def)
  then have "runs (same_screen (terminal t)) (foldE (act_on_terminal lib) as (terminal t))"
  proof (intro runs_foldE [where P = "same_screen (terminal t)"])
    show "same_screen (terminal t) (terminal t)" using tt(2) by (simp add: same_screen_def emu_ok_def same_size_refl)
    fix a e assume "a \<in> set as" "same_screen (terminal t) e"
    moreover assume "list_all action_ok as"
    ultimately have "runs (same_screen e) (act_on_terminal lib a e)" "same_screen (terminal t) e"
      by (auto simp: list_all_iff same_screen_def intro!: act_on_terminal_runs [OF ok(2)])
    then show "runs (same_screen (terminal t)) (act_on_terminal lib a e)"
      using runs_mono same_screen_trans by blast
  qed
  then have "runs (terminal_ok lib w h) (bindE (foldE (act_on_terminal lib) as (terminal t)) (\<lambda>e. Inr (t\<lparr>parser := p, terminal := e\<rparr>)))"
    by (rule runs_bindE) (use t p(2) in \<open>auto simp: terminal_ok_def same_screen_def same_size_def\<close>)
  then show ?thesis using p(1) by (simp add: act_octet_def)
qed

section \<open>Sessions\<close>

text \<open>What a terminal is given over time: output of the host, keystrokes and changes of the window size.\<close>

datatype terminal_event = Host_output bytes | External external_action

definition run_event :: "c_locale \<Rightarrow> terminal_event \<Rightarrow> bytes \<times> complete_terminal \<Rightarrow> (bytes \<times> complete_terminal) result" where
  "run_event lib ev = (\<lambda>(out, t).
     bindE (case ev of Host_output bs \<Rightarrow> act lib bs t | External a \<Rightarrow> act_external a t) (\<lambda>(out', t'). Inr (out @ out', t')))"

definition run_session :: "c_locale \<Rightarrow> u64 \<Rightarrow> u64 \<Rightarrow> u64 \<Rightarrow> terminal_event list \<Rightarrow> (bytes \<times> complete_terminal) result" where
  "run_session lib g w h evs = bindE (Complete g w h) (\<lambda>t. foldE (run_event lib) evs ([], t))"

text \<open>A window size as the operating system reports it: positive, in 16 bits.  Coordinates, sizes and parameters of control
  sequences are then all below 2 ^ 16 and the sums the code forms of them are far from overflowing an \<^verbatim>\<open>int\<close>.\<close>

definition size_ok :: "u64 \<Rightarrow> u64 \<Rightarrow> bool" where
  "size_ok w h \<longleftrightarrow> 0 < to_int w \<and> to_int w \<le> 65535 \<and> 0 < to_int h \<and> to_int h \<le> 65535"

fun event_ok :: "terminal_event \<Rightarrow> bool" where
  "event_ok (External (Resize_act w h)) = size_ok w h"
| "event_ok _ = True"

definition small_screen :: "emulator \<Rightarrow> bool" where
  "small_screen e \<longleftrightarrow> width (ds (fb e)) \<le> 65535 \<and> height (ds (fb e)) \<le> 65535"

definition session_ok :: "c_locale \<Rightarrow> bytes \<times> complete_terminal \<Rightarrow> bool" where
  "session_ok lib = (\<lambda>(out, t). utf8_ok (mbrtowc lib) (parser t) \<and> emu_ok (terminal t) \<and> small_screen (terminal t))"

lemma read_octets_ok: "emu_ok e \<Longrightarrow> emu_ok (snd (read_octets_to_host e))"
  by (simp add: emu_ok_def read_octets_to_host_def disp_ok_def)

lemma act_runs:
  assumes lib: "locale_ok lib" and t: "terminal_ok lib w h t"
  shows "runs (\<lambda>(out, t'). terminal_ok lib w h t') (act lib bs t)"
proof -
  have "runs (terminal_ok lib w h) (foldE (act_octet lib) bs t)"
    by (rule runs_foldE [where P = "terminal_ok lib w h", OF t]) (rule act_octet_runs [OF lib])
  then show ?thesis
    unfolding act_def
    by (rule runs_bindE) (auto simp: terminal_ok_def emu_ok_def read_octets_to_host_def disp_ok_def)
qed

lemma act_external_runs:
  assumes "emu_ok (terminal t)" "small_screen (terminal t)" "event_ok (External a)"
  shows "runs (\<lambda>(out, t'). emu_ok (terminal t') \<and> small_screen (terminal t') \<and> parser t' = parser t) (act_external a t)"
proof -
  have "runs (\<lambda>e. emu_ok e \<and> small_screen e) (case a of UserByte_act c \<Rightarrow> Inr (act_user_byte c (terminal t)) | Resize_act w h \<Rightarrow> emu_resize w h (terminal t))"
  proof (cases a)
    case (UserByte_act c)
    then show ?thesis
      using assms by (auto simp: act_user_byte_def emu_ok_def small_screen_def disp_ok_def split: prod.splits)
  next
    case (Resize_act w h)
    have "runs (\<lambda>e. emu_ok e \<and> small_screen e) (emu_resize w h (terminal t))"
      unfolding emu_resize_def
      by (rule runs_bindE [OF fb_resize_runs]) (use assms Resize_act in \<open>auto simp: emu_ok_def size_ok_def small_screen_def\<close>)
    then show ?thesis using Resize_act by simp
  qed
  then show ?thesis
    unfolding act_external_def by (rule runs_bindE) (auto simp: emu_ok_def small_screen_def read_octets_to_host_def disp_ok_def)
qed

lemma run_event_runs:
  assumes lib: "locale_ok lib" and q: "session_ok lib q" and ev: "event_ok ev"
  shows "runs (session_ok lib) (run_event lib ev q)"
proof -
  obtain out t where qt: "q = (out, t)" by (cases q)
  then have t: "terminal_ok lib (width (ds (fb (terminal t)))) (height (ds (fb (terminal t)))) t"
    using q by (simp add: session_ok_def terminal_ok_def)
  have "runs (\<lambda>(out, t'). session_ok lib (out, t')) (case ev of Host_output bs \<Rightarrow> act lib bs t | External a \<Rightarrow> act_external a t)"
  proof (cases ev)
    case (Host_output bs)
    then show ?thesis
      using runs_mono [OF act_runs [OF lib t, of bs], of "\<lambda>(out, t'). session_ok lib (out, t')"] q qt
      by (auto simp: session_ok_def terminal_ok_def small_screen_def)
  next
    case (External a)
    then show ?thesis
      using runs_mono [OF act_external_runs [of t a], of "\<lambda>(out, t'). session_ok lib (out, t')"] t ev q qt
      by (auto simp: session_ok_def terminal_ok_def)
  qed
  then have "runs (session_ok lib) (bindE (case ev of Host_output bs \<Rightarrow> act lib bs t | External a \<Rightarrow> act_external a t)
      (\<lambda>(out', t'). Inr (out @ out', t')))"
    by (rule runs_bindE) (auto simp: session_ok_def)
  then show ?thesis using qt by (simp add: run_event_def)
qed

lemma Complete_runs:
  assumes "size_ok w h"
  shows "runs (\<lambda>t. session_ok lib ([], t)) (Complete g w h)"
  unfolding Complete_def Emulator_def bindE_assoc
  by (rule runs_bindE [OF Framebuffer_runs])
    (use assms in \<open>auto simp: size_ok_def session_ok_def small_screen_def utf8_ok_def UTF8Parser_def emu_ok_def Dispatcher_ok\<close>)

lemma run_session_runs:
  assumes "locale_ok lib" "size_ok w h" "list_all event_ok evs"
  shows "runs (session_ok lib) (run_session lib g w h evs)"
  unfolding run_session_def
proof (rule runs_bindE [OF Complete_runs [OF assms(2)]])
  fix t assume "session_ok lib ([], t)"
  then show "runs (session_ok lib) (foldE (run_event lib) evs ([], t))"
    by (rule runs_foldE [where P = "session_ok lib"]) (use assms in \<open>auto simp: list_all_iff intro: run_event_runs\<close>)
qed

section \<open>An example locale\<close>

definition utf8_wcrtomb :: "int \<Rightarrow> bytes option" where
  "utf8_wcrtomb ch =
     (if ch < 0 \<or> ch > 0x10FFFF then None
      else if ch < 0x80 then Some [of_int ch]
      else if ch < 0x800 then Some [of_int (0xC0 + ch div 64), of_int (0x80 + ch mod 64)]
      else if ch < 0x10000 then Some [of_int (0xE0 + ch div 4096), of_int (0x80 + ch div 64 mod 64), of_int (0x80 + ch mod 64)]
      else Some [of_int (0xF0 + ch div 262144), of_int (0x80 + ch div 4096 mod 64), of_int (0x80 + ch div 64 mod 64),
                 of_int (0x80 + ch mod 64)])"

definition example_wcwidth :: "int \<Rightarrow> int" where
  "example_wcwidth ch =
     (if ch < 0x20 \<or> (0x7F \<le> ch \<and> ch < 0xA0) then - 1
      else if 0x300 \<le> ch \<and> ch \<le> 0x36F then 0
      else if 0x4E00 \<le> ch \<and> ch \<le> 0x9FFF then 2
      else 1)"

definition example_locale :: c_locale where
  "example_locale = \<lparr>mbrtowc = utf8_mbrtowc, wcrtomb = utf8_wcrtomb, wcwidth = example_wcwidth\<rparr>"

lemma example_locale_ok: "locale_ok example_locale"
  by (auto simp: locale_ok_def wide_ok_def example_locale_def utf8_mbrtowc_ok utf8_wcrtomb_def example_wcwidth_def BUF_SIZE_def
      scalar_def)

section \<open>Properties\<close>

text \<open>C3. Type soundness of the terminal: for every initial window size of 16 bits, whatever octets the host writes, whatever
  keys are pressed and however the window is resized to positive sizes of 16 bits, the parser, the dispatcher and every terminal function run without failing an assertion and without an access outside
  the screen; the screen keeps its shape (as many rows as its height, as many cells in each as its width, cursor, scrolling
  region and tab stops inside, only renditions and hyperlinks that can be written out) and at most 65535 rows and columns, so
  that no sum of a coordinate and a parameter leaves the range of an \<^verbatim>\<open>int\<close>; and the buffers keep their bounds.\<close>

theorem terminal_never_fails:
  assumes "locale_ok lib" "size_ok w h" "list_all event_ok evs"
  shows "\<exists>out t. run_session lib g w h evs = Inr (out, t) \<and> fb_ok (fb (terminal t)) \<and> disp_ok (disp (terminal t))
    \<and> length (utf8_buf (parser t)) < BUF_SIZE \<and> small_screen (terminal t)"
proof -
  obtain q where q: "run_session lib g w h evs = Inr q" "session_ok lib q"
    using run_session_runs [OF assms, of g] by (auto simp: runs_def)
  obtain out t where qt: "q = (out, t)" by (cases q)
  have "mbrtowc_ok (mbrtowc lib)" using assms(1) by (simp add: locale_ok_def)
  then have "length (utf8_buf (parser t)) < BUF_SIZE"
    using q(2) qt by (intro utf8_ok_length) (auto simp: session_ok_def)
  then show ?thesis using q qt by (auto simp: session_ok_def emu_ok_def)
qed

theorem terminal_never_fails_witness:
  "\<exists>out t. run_session example_locale 0 80 24
      [Host_output [0x1B, 0x5B, 0x33, 0x3B, 0x39, 0x39, 0x72, 0xE4, 0xB8, 0xAD, 0xCC], External (Resize_act 3 2),
       Host_output [0x81, 0x0A, 0x1B, 0x5B, 0x32, 0x4A], External (UserByte_act 0x1B)] = Inr (out, t)
     \<and> fb_ok (fb (terminal t)) \<and> disp_ok (disp (terminal t)) \<and> length (utf8_buf (parser t)) < BUF_SIZE \<and> small_screen (terminal t)"
  by (rule terminal_never_fails [OF example_locale_ok]) (simp_all add: size_ok_def to_int_def)

text \<open>C31. Resizing: on a well-formed terminal a resize succeeds exactly when both dimensions, read as C++ \<^verbatim>\<open>int\<close>s, are positive, and
  then gives a well-formed screen of that size; any other size aborts the process with a failed assertion.\<close>

theorem resize_accepts_exactly_positive_sizes:
  assumes "fb_ok (fb (terminal t))"
  shows "if 0 < to_int w \<and> 0 < to_int h
    then \<exists>out t'. act_external (Resize_act w h) t = Inr (out, t') \<and> fb_ok (fb (terminal t'))
      \<and> width (ds (fb (terminal t'))) = to_int w \<and> height (ds (fb (terminal t'))) = to_int h
    else act_external (Resize_act w h) t = Inl AssertFailed"
proof (cases "0 < to_int w \<and> 0 < to_int h")
  case True
  then obtain f where "fb_resize (to_int w) (to_int h) (fb (terminal t)) = Inr f" "fb_ok f"
      "width (ds f) = to_int w" "height (ds f) = to_int h"
    using fb_resize_runs [OF assms] by (auto simp: runs_def)
  then show ?thesis
    using True by (simp add: act_external_def emu_resize_def read_octets_to_host_def)
next
  case False
  then show ?thesis
    by (auto simp: act_external_def emu_resize_def fb_resize_def assertE_def)
qed

definition example_terminal :: complete_terminal where
  "example_terminal = (case Complete 0 4 2 of Inr t \<Rightarrow> t)"

lemma example_terminal_ok: "Complete 0 4 2 = Inr example_terminal" "emu_ok (terminal example_terminal)"
  "parser example_terminal = UTF8Parser" "terminal_to_host (disp (terminal example_terminal)) = []"
proof -
  have "size_ok 4 2" by (simp add: size_ok_def to_int_def)
  then obtain t where t: "Complete 0 4 2 = Inr t" "session_ok example_locale ([], t)"
    using Complete_runs [of 4 2 example_locale 0] by (auto simp: runs_def)
  then have e: "example_terminal = t" by (simp add: example_terminal_def)
  show "Complete 0 4 2 = Inr example_terminal" "emu_ok (terminal example_terminal)"
    using t e by (auto simp: session_ok_def)
  show "parser example_terminal = UTF8Parser" "terminal_to_host (disp (terminal example_terminal)) = []"
    unfolding e using t(1) by (auto simp: Complete_def Emulator_def Dispatcher_def result_simps)
qed

theorem resize_accepts_exactly_positive_sizes_witness:
  "(\<exists>out t'. act_external (Resize_act 3 1) example_terminal = Inr (out, t') \<and> fb_ok (fb (terminal t'))
      \<and> width (ds (fb (terminal t'))) = 3 \<and> height (ds (fb (terminal t'))) = 1)
   \<and> act_external (Resize_act 0 1) example_terminal = Inl AssertFailed"
proof -
  have fb: "fb_ok (fb (terminal example_terminal))" using example_terminal_ok(2) by (simp add: emu_ok_def)
  have "to_int 3 = 3" "to_int 1 = 1" "to_int 0 = 0" by (simp_all add: to_int_def)
  then show ?thesis
    using resize_accepts_exactly_positive_sizes [OF fb, of 3 1] resize_accepts_exactly_positive_sizes [OF fb, of 0 1] by simp
qed

fun translate_keys :: "bool \<Rightarrow> bytes \<Rightarrow> bytes" where
  "translate_keys app (a # b # c # rest) =
     (if a = 0x1b \<and> b = 0x4F
      then a # (if \<not> app \<and> 0x41 \<le> c \<and> c \<le> 0x44 then 0x5B else 0x4F) # c # translate_keys app rest
      else if a = 0x1b then a # b # translate_keys app (c # rest)
      else a # translate_keys app (b # c # rest))"
| "translate_keys app ks = ks"

fun user_inputs :: "bool \<Rightarrow> user_input_state \<Rightarrow> bytes \<Rightarrow> user_input_state \<times> bytes" where
  "user_inputs app s [] = (s, [])"
| "user_inputs app s (c # cs) =
     (case user_input s c app of (s1, out1) \<Rightarrow> case user_inputs app s1 cs of (s2, out2) \<Rightarrow> (s2, out1 @ out2))"

definition withheld :: "user_input_state \<Rightarrow> bytes" where
  "withheld s = (if s = UI_SS3 then [0x4F] else [])"

text \<open>C32. Cursor keys: a stream of keystrokes reaches the host unchanged, except that in normal mode every SS3 sequence of a
  cursor key is rewritten to the CSI sequence of that key; an octet is withheld only between the two octets of SS3 and the next
  key.\<close>

theorem cursor_keys_translated:
  "case user_inputs app UI_Ground ks of (s, out) \<Rightarrow> out @ withheld s = translate_keys app ks"
proof (induction app ks rule: translate_keys.induct)
  case (1 app a b c rest)
  then show ?case
    by (auto simp: user_input_def split: prod.splits if_splits)
qed (auto simp: user_input_def withheld_def split: prod.splits if_splits)

end
