(* ===== verification/Rendering.thy ===== *)
theory Rendering
  imports Emulator
begin

text \<open>
  What the terminal does with the sequences that mosh itself writes: the composition of the UTF-8 parser, the state machine, the
  dispatcher and the terminal functions on whole control sequences.  Renditions written by \<^verbatim>\<open>Renditions::sgr\<close> and
  hyperlinks written by \<^verbatim>\<open>Hyperlink::osc8\<close> are read back exactly.
\<close>

section \<open>Text in ASCII\<close>

definition codes :: "string \<Rightarrow> int list" where
  "codes s = map (\<lambda>ch. int (of_char ch)) s"

definition ascii :: "char \<Rightarrow> bool" where
  "ascii ch \<longleftrightarrow> (of_char ch :: nat) \<le> 0x7f"

lemma ascii_byte: "ascii ch \<Longrightarrow> (of_char ch :: byte) \<le> 0x7f \<and> uint (of_char ch :: byte) = int (of_char ch)"
proof -
  assume a: "ascii ch"
  have "(of_char ch :: byte) = of_nat (of_char ch)" by (simp add: of_nat_of_char)
  moreover have "(of_char ch :: nat) < 256" using a by (simp add: ascii_def)
  ultimately have "unat (of_char ch :: byte) = of_char ch" by (simp add: unsigned_of_nat take_bit_eq_mod)
  then show ?thesis using a by (simp add: word_le_nat_alt ascii_def) (metis uint_nat)
qed

definition quiet :: "complete_terminal \<Rightarrow> bool" where
  "quiet t \<longleftrightarrow> parser t = UTF8Parser \<and> terminal_to_host (disp (terminal t)) = []"

lemma act_octet_ascii:
  assumes "utf8_buf (parser t) = []" "ascii ch"
  shows "act_octet lib (of_char ch) t =
    (case parser_input (utf8_state (parser t)) (int (of_char ch)) of (s, as) \<Rightarrow>
      bindE (foldE (act_on_terminal lib) as (terminal t)) (\<lambda>e. Inr (t\<lparr>parser := \<lparr>utf8_state = s, utf8_buf = []\<rparr>, terminal := e\<rparr>)))"
proof -
  obtain s as where p: "parser_input (utf8_state (parser t)) (int (of_char ch)) = (s, as)" by fastforce
  obtain s0 where "parser t = \<lparr>utf8_state = s0, utf8_buf = []\<rparr>" using assms(1) by (cases "parser t") simp
  then show ?thesis
    using assms ascii_byte [OF assms(2)] p by (simp add: act_octet_def utf8_input_def BUF_SIZE_def)
qed

lemma act_ascii:
  assumes "utf8_buf (parser t) = []" "list_all ascii str"
  shows "foldE (act_octet lib) (bytes_of_string str) t =
    (case parser_inputs (utf8_state (parser t)) (codes str) of (s, as) \<Rightarrow>
      bindE (foldE (act_on_terminal lib) as (terminal t)) (\<lambda>e. Inr (t\<lparr>parser := \<lparr>utf8_state = s, utf8_buf = []\<rparr>, terminal := e\<rparr>)))"
  using assms
proof (induction str arbitrary: t)
  case Nil
  have "parser t = \<lparr>utf8_state = utf8_state (parser t), utf8_buf = []\<rparr>" using Nil by simp
  then have "t\<lparr>parser := \<lparr>utf8_state = utf8_state (parser t), utf8_buf = []\<rparr>, terminal := terminal t\<rparr> = t" by simp
  then show ?case by (simp add: bytes_of_string_def codes_def)
next
  case (Cons ch str)
  obtain s1 as1 where p1: "parser_input (utf8_state (parser t)) (int (of_char ch)) = (s1, as1)" by fastforce
  obtain s2 as2 where p2: "parser_inputs s1 (codes str) = (s2, as2)" by fastforce
  have a: "act_octet lib (of_char ch) t = bindE (foldE (act_on_terminal lib) as1 (terminal t))
      (\<lambda>e. Inr (t\<lparr>parser := \<lparr>utf8_state = s1, utf8_buf = []\<rparr>, terminal := e\<rparr>))"
    using act_octet_ascii [of t ch lib] Cons.prems p1 by simp
  have IH: "foldE (act_octet lib) (bytes_of_string str) (t\<lparr>parser := \<lparr>utf8_state = s1, utf8_buf = []\<rparr>, terminal := e\<rparr>) =
      bindE (foldE (act_on_terminal lib) as2 e) (\<lambda>e. Inr (t\<lparr>parser := \<lparr>utf8_state = s2, utf8_buf = []\<rparr>, terminal := e\<rparr>))" for e
    using Cons.IH [of "t\<lparr>parser := \<lparr>utf8_state = s1, utf8_buf = []\<rparr>, terminal := e\<rparr>"] Cons.prems p2 by simp
  show ?case
    using a IH p1 p2
    by (cases "foldE (act_on_terminal lib) as1 (terminal t)") (simp_all add: bytes_of_string_def codes_def foldE_append)
qed

lemma bindE_Inr_right: "bindE m Inr = m" "bindE m (foldE f []) = m"
  by (cases m; simp)+

section \<open>Control sequences\<close>

definition char_action :: "action_kind \<Rightarrow> char \<Rightarrow> action" where
  "char_action k ch = \<lparr>act_kind = k, act_ch = int (of_char ch), char_present = True\<rparr>"

lemma param_char_code: "param_char ch \<Longrightarrow> int (of_char ch) = 0x3B \<or> 0x30 \<le> int (of_char ch) \<and> int (of_char ch) \<le> 0x39"
  by (auto simp: param_char_def is_digit_def)

lemma param_char_ascii: "param_char ch \<Longrightarrow> ascii ch"
  by (auto simp: param_char_def is_digit_def ascii_def)

lemma parser_param:
  assumes "param_char ch" "s = CSI_Entry \<or> s = CSI_Param"
  shows "parser_input s (int (of_char ch)) = (CSI_Param, [char_action Param ch])"
proof -
  have c: "int (of_char ch) = 0x3B \<or> 0x30 \<le> int (of_char ch) \<and> int (of_char ch) \<le> 0x39" by (rule param_char_code [OF assms(1)])
  then have "anywhere_rule (int (of_char ch)) = None" by (auto simp: anywhere_rule_def)
  then show ?thesis
    using assms(2) c
    by (auto simp: parser_input_def state_input_def input_state_rule_def rule_CSI_Entry_def rule_CSI_Param_def C0_prime_def
        with_char_def Transition_def Action_def append_or_delete_def ignore_def enter_def exit_def char_action_def)
qed

lemma parser_params:
  assumes "list_all param_char ps" "s = CSI_Entry \<or> s = CSI_Param"
  shows "\<exists>s'. parser_inputs s (codes ps) = (s', map (char_action Param) ps) \<and> (s' = CSI_Entry \<or> s' = CSI_Param)"
  using assms
proof (induction ps arbitrary: s)
  case (Cons ch ps)
  obtain s' where "parser_inputs CSI_Param (codes ps) = (s', map (char_action Param) ps)" "s' = CSI_Entry \<or> s' = CSI_Param"
    using Cons.IH [of CSI_Param] Cons.prems by auto
  then show ?case
    using parser_param [of ch s] Cons.prems by (intro exI [of _ s']) (simp add: codes_def)
qed (simp add: codes_def)

definition final_char :: "char \<Rightarrow> bool" where
  "final_char ch \<longleftrightarrow> 0x40 \<le> (of_char ch :: nat) \<and> (of_char ch :: nat) \<le> 0x7E"

lemma parser_final:
  assumes "final_char ch" "s = CSI_Entry \<or> s = CSI_Param"
  shows "parser_input s (int (of_char ch)) = (Ground, [char_action CSI_Dispatch ch])"
proof -
  have c: "0x40 \<le> int (of_char ch)" "int (of_char ch) \<le> 0x7E" using assms(1) by (auto simp: final_char_def)
  then have "anywhere_rule (int (of_char ch)) = None" by (auto simp: anywhere_rule_def)
  then show ?thesis
    using assms(2) c
    by (auto simp: parser_input_def state_input_def input_state_rule_def rule_CSI_Entry_def rule_CSI_Param_def C0_prime_def
        with_char_def Transition_def Action_def append_or_delete_def ignore_def enter_def exit_def char_action_def)
qed

lemma of_char_ESC: "(of_char ESC :: nat) = 0x1B"
  by (simp add: ESC_def)

lemma parser_csi_start: "parser_inputs Ground [0x1B, 0x5B] = (CSI_Entry, [Action Clear, Action Clear])"
  by (simp add: parser_input_def state_input_def anywhere_rule_def input_state_rule_def rule_Escape_def C0_prime_def
        with_char_def Transition_def Action_def append_or_delete_def ignore_def enter_def exit_def)

lemma parser_csi:
  assumes "list_all param_char ps" "final_char ch"
  shows "parser_inputs Ground (codes (ESC # ''['' @ ps @ [ch])) =
    (Ground, Action Clear # Action Clear # map (char_action Param) ps @ [char_action CSI_Dispatch ch])"
proof -
  obtain s' where s': "parser_inputs CSI_Entry (codes ps) = (s', map (char_action Param) ps)" "s' = CSI_Entry \<or> s' = CSI_Param"
    using parser_params [OF assms(1), of CSI_Entry] by auto
  have "codes (ESC # ''['' @ ps @ [ch]) = [0x1B, 0x5B] @ codes ps @ [int (of_char ch)]"
    by (simp add: codes_def of_char_ESC)
  then show ?thesis
    using s' parser_final [OF assms(2)] parser_csi_start by (simp only: parser_inputs_append) simp
qed

text \<open>Collecting the parameters of a control sequence.\<close>

lemma newparam_chars:
  assumes "list_all param_char ps" "length (params (disp e)) + length ps \<le> 100"
  shows "foldE (act_on_terminal lib) (map (char_action Param) ps) e =
    Inr (e\<lparr>disp := (disp e)\<lparr>params := params (disp e) @ ps, parsed := (if ps = [] then parsed (disp e) else False)\<rparr>\<rparr>)"
  using assms
proof (induction ps arbitrary: e)
  case (Cons ch ps)
  let ?e = "e\<lparr>disp := (disp e)\<lparr>params := params (disp e) @ [ch], parsed := False\<rparr>\<rparr>"
  have "(char_of (int (of_char ch)) :: char) = ch" by (simp add: of_nat_of_char)
  then have "act_on_terminal lib (char_action Param ch) e = Inr ?e"
    using Cons.prems param_char_code [of ch] by (auto simp: act_on_terminal_def newparamchar_def char_action_def)
  then show ?case using Cons.IH [of ?e] Cons.prems by simp
qed simp

lemma foldE_csi:
  assumes "list_all param_char ps" "length ps \<le> 100"
  shows "foldE (act_on_terminal lib) (Action Clear # Action Clear # map (char_action Param) ps @ [char_action CSI_Dispatch ch]) e =
    CSI_dispatch lib (char_action CSI_Dispatch ch)
      (e\<lparr>disp := (disp e)\<lparr>params := ps, dispatch_chars := [], parsed := False\<rparr>\<rparr>)"
proof -
  let ?e = "e\<lparr>disp := clear (clear (disp e))\<rparr>"
  have "?e\<lparr>disp := (disp ?e)\<lparr>params := params (disp ?e) @ ps, parsed := (if ps = [] then parsed (disp ?e) else False)\<rparr>\<rparr>
      = e\<lparr>disp := (disp e)\<lparr>params := ps, dispatch_chars := [], parsed := False\<rparr>\<rparr>"
    by (simp add: clear_def)
  then have r: "foldE (act_on_terminal lib) (map (char_action Param) ps) ?e
      = Inr (e\<lparr>disp := (disp e)\<lparr>params := ps, dispatch_chars := [], parsed := False\<rparr>\<rparr>)"
    using newparam_chars [of ps ?e lib] assms by (simp add: clear_def)
  have "act_on_terminal lib (Action Clear) e = Inr (e\<lparr>disp := clear (disp e)\<rparr>)" for e
    by (simp add: act_on_terminal_def Action_def)
  moreover have "act_on_terminal lib (char_action CSI_Dispatch ch) e = CSI_dispatch lib (char_action CSI_Dispatch ch) e" for e
    by (simp add: act_on_terminal_def char_action_def)
  ultimately show ?thesis
    using r by (simp add: foldE_append bindE_Inr_right)
qed

lemma CSI_dispatch_single:
  assumes "final_char ch" "map_of CSI_registry [ch] = Some f" "dispatch_chars (disp e) = []"
  shows "CSI_dispatch lib (char_action CSI_Dispatch ch) e =
    bindE (run_function f (if clears_wrap_state f then update_ds (\<lambda>s. s\<lparr>next_print_will_wrap := False\<rparr>) (fb e) else fb e)
        ((disp e)\<lparr>dispatch_chars := [ch]\<rparr>)) (\<lambda>(f, d). Inr (e\<lparr>fb := f, disp := d\<rparr>))"
proof -
  have "(char_of (int (of_char ch)) :: char) = ch" by (simp add: of_nat_of_char)
  moreover have "int (of_char ch) \<le> 255" using assms(1) by (simp add: final_char_def)
  ultimately show ?thesis
    using assms(2, 3) by (simp add: CSI_dispatch_def run_dispatch_def dispatch_def collect_char_def char_action_def dispatch_map_of_def)
qed

text \<open>A control sequence sent to a terminal that waits for one, as a whole.\<close>

lemma act_csi:
  assumes t: "quiet t" and ps: "list_all param_char ps" "length ps \<le> 100" and ch: "final_char ch" "map_of CSI_registry [ch] = Some f"
  defines "d \<equiv> (disp (terminal t))\<lparr>params := ps, parsed := False, dispatch_chars := [ch]\<rparr>"
  shows "act lib (bytes_of_string (ESC # ''['' @ ps @ [ch])) t =
    bindE (run_function f (if clears_wrap_state f then update_ds (\<lambda>s. s\<lparr>next_print_will_wrap := False\<rparr>) (fb (terminal t))
             else fb (terminal t)) d) (\<lambda>(f', d').
      Inr (terminal_to_host d', t\<lparr>terminal := (terminal t)\<lparr>fb := f', disp := d'\<lparr>terminal_to_host := []\<rparr>\<rparr>\<rparr>))"
proof -
  have p: "parser t = \<lparr>utf8_state = Ground, utf8_buf = []\<rparr>" using t by (simp add: quiet_def UTF8Parser_def)
  have a: "list_all ascii (ESC # ''['' @ ps @ [ch])"
    using ps(1) ch(1) by (auto simp: ascii_def of_char_ESC final_char_def list_all_iff dest: param_char_ascii [unfolded ascii_def])
  have u: "t\<lparr>parser := \<lparr>utf8_state = Ground, utf8_buf = []\<rparr>, terminal := e\<rparr> = t\<lparr>terminal := e\<rparr>" for e
    using p by (cases t) simp
  have "foldE (act_octet lib) (bytes_of_string (ESC # ''['' @ ps @ [ch])) t =
      bindE (CSI_dispatch lib (char_action CSI_Dispatch ch)
        ((terminal t)\<lparr>disp := (disp (terminal t))\<lparr>params := ps, dispatch_chars := [], parsed := False\<rparr>\<rparr>))
      (\<lambda>e. Inr (t\<lparr>terminal := e\<rparr>))"
    using act_ascii [of t "ESC # ''['' @ ps @ [ch]" lib] a p parser_csi [OF ps(1) ch(1)] foldE_csi [OF ps]
    by (simp del: foldE.simps) (simp only: u)
  then show ?thesis
    using CSI_dispatch_single [OF ch] by (simp add: act_def bindE_assoc d_def read_octets_to_host_def case_prod_unfold)
qed

section \<open>Renditions are read back\<close>

definition attribute_params :: "renditions \<Rightarrow> nat list" where
  "attribute_params r =
     (if get_attribute bold r then [1] else []) @ (if get_attribute italic r then [3] else [])
     @ (if get_attribute underlined r then [4] else []) @ (if get_attribute blink r then [5] else [])
     @ (if get_attribute inverse r then [7] else []) @ (if get_attribute invisible r then [8] else [])"

definition color_params :: "nat \<Rightarrow> nat \<Rightarrow> 25 word \<Rightarrow> nat list" where
  "color_params kind offset c =
     (if c = 0 then []
      else if bit c 24 then [kind, 2, nat (color_byte 16 c), nat (color_byte 8 c), nat (color_byte 0 c)]
      else if unat c > offset + 7 then [kind, 5, unat c - offset]
      else [unat c])"

definition sgr_params :: "renditions \<Rightarrow> nat list" where
  "sgr_params r = attribute_params r @ color_params 38 30 (foreground_color r) @ color_params 48 40 (background_color r)"

definition semi_params :: "nat list \<Rightarrow> string" where
  "semi_params ns = concat (map (\<lambda>n. '';'' @ show_nat n) ns)"

lemma semi_params_append: "semi_params (xs @ ys) = semi_params xs @ semi_params ys"
  by (simp add: semi_params_def)

lemma join_params_Cons: "join_params (n # ns) = show_nat n @ semi_params ns"
  by (induction ns arbitrary: n) (simp_all add: semi_params_def)

lemma show_nat_digit: "n < 10 \<Longrightarrow> show_nat n = [digit_char n]"
  by (subst show_nat.simps) simp

lemma digit_chars: "digit_char 0 = CHR ''0''" "digit_char 1 = CHR ''1''" "digit_char 2 = CHR ''2''" "digit_char 3 = CHR ''3''"
  "digit_char 4 = CHR ''4''" "digit_char 5 = CHR ''5''" "digit_char 7 = CHR ''7''" "digit_char 8 = CHR ''8''"
  by (simp_all add: digit_char_def char_of_def bit_0)

lemma show_small: "show_nat 0 = ''0''" "show_nat 1 = ''1''" "show_nat 2 = ''2''" "show_nat 3 = ''3''" "show_nat 4 = ''4''" "show_nat 5 = ''5''"
  "show_nat 7 = ''7''" "show_nat 8 = ''8''" "show_nat 38 = ''38''" "show_nat 48 = ''48''"
  "show_nat (Suc 0) = ''1''"
  by (simp_all add: show_nat_digit digit_chars digit_chars(2) [simplified]) (simp_all add: show_nat.simps [of 38] show_nat.simps [of 48] show_nat_digit digit_chars)

lemma show_int_nat: "0 \<le> i \<Longrightarrow> show_int i = show_nat (nat i)"
  by (simp add: show_int_def)

lemma color_byte_nonneg: "0 \<le> color_byte n c"
  by (simp add: color_byte_def)

lemma attribute_params_string: "semi_params (attribute_params r) =
  (if get_attribute bold r then '';1'' else []) @ (if get_attribute italic r then '';3'' else [])
  @ (if get_attribute underlined r then '';4'' else []) @ (if get_attribute blink r then '';5'' else [])
  @ (if get_attribute inverse r then '';7'' else []) @ (if get_attribute invisible r then '';8'' else [])"
  unfolding attribute_params_def semi_params_append by (simp add: semi_params_def show_small)

lemma uint_unat_diff:
  "nat (uint c - int k) = unat c - k" "nat (uint c) = unat c" "k \<le> unat c \<Longrightarrow> 0 \<le> uint c - int k"
proof -
  have "nat (int n - int k) = n - k" "nat (int n) = n" "k \<le> n \<Longrightarrow> 0 \<le> int n - int k" for n by simp_all
  from this [of "unat c"] show "nat (uint c - int k) = unat c - k" "nat (uint c) = unat c" "k \<le> unat c \<Longrightarrow> 0 \<le> uint c - int k"
    by (simp_all only: uint_nat [symmetric])
qed

lemma foreground_string: "sgr_foreground c = semi_params (color_params 38 30 c)"
proof -
  have "37 < c \<longleftrightarrow> 37 < unat c" by (simp add: word_less_nat_alt)
  moreover have "nat (uint c - 30) = unat c - 30" "nat (uint c) = unat c" "37 < unat c \<Longrightarrow> 0 \<le> uint c - 30"
    using uint_unat_diff(1) [of c 30] uint_unat_diff(3) [of 30 c] uint_unat_diff(2) [of c] by auto
  ultimately show ?thesis
    by (simp add: sgr_foreground_def color_params_def is_true_color_iff bit_ucast_24 semi_params_def show_small show_int_nat
        color_byte_nonneg)
qed

lemma background_string: "sgr_background c = semi_params (color_params 48 40 c)"
proof -
  have "47 < c \<longleftrightarrow> 47 < unat c" by (simp add: word_less_nat_alt)
  moreover have "nat (uint c - 40) = unat c - 40" "nat (uint c) = unat c" "47 < unat c \<Longrightarrow> 0 \<le> uint c - 40"
    using uint_unat_diff(1) [of c 40] uint_unat_diff(3) [of 40 c] uint_unat_diff(2) [of c] by auto
  ultimately show ?thesis
    by (simp add: sgr_background_def color_params_def is_true_color_iff bit_ucast_24 semi_params_def show_small show_int_nat
        color_byte_nonneg)
qed

lemma sgr_string: "sgr r = ESC # ''['' @ join_params (0 # sgr_params r) @ ''m''"
  by (simp add: sgr_def join_params_Cons sgr_params_def semi_params_append attribute_params_string foreground_string
      background_string show_small)

section \<open>The loop over renditions\<close>

definition sgr_from :: "nat list \<Rightarrow> nat list \<Rightarrow> renditions \<Rightarrow> renditions" where
  "sgr_from pre xs r = sgr_loop (param_value (map int (pre @ xs))) (length (pre @ xs)) (length pre) r"

lemma param_value_nat: "i < length ns \<Longrightarrow> v \<le> 0 \<Longrightarrow> param_value (map int ns) i v = (if ns ! i = 0 then v else int (ns ! i))"
  by (simp add: param_value_def Let_def)

lemma sgr_from_Nil: "sgr_from pre [] r = r"
  by (simp add: sgr_from_def sgr_loop.simps)

lemma sgr_loop_plain:
  assumes "i < length ns" "ns ! i \<noteq> 38" "ns ! i \<noteq> 48"
  shows "sgr_loop (param_value (map int ns)) (length ns) i r =
    sgr_loop (param_value (map int ns)) (length ns) (i + 1) (set_rendition (of_nat (ns ! i)) r)"
  using assms by (subst sgr_loop.simps) (simp add: param_value_nat Let_def)

lemma sgr_loop_indexed:
  assumes "i + 2 < length ns" "ns ! (i + 1) = 5"
  shows "ns ! i = 38 \<Longrightarrow> sgr_loop (param_value (map int ns)) (length ns) i r =
      sgr_loop (param_value (map int ns)) (length ns) (i + 3) (set_foreground_color (of_nat (ns ! (i + 2))) r)"
    "ns ! i = 48 \<Longrightarrow> sgr_loop (param_value (map int ns)) (length ns) i r =
      sgr_loop (param_value (map int ns)) (length ns) (i + 3) (set_background_color (of_nat (ns ! (i + 2))) r)"
  using assms by (subst sgr_loop.simps, simp add: param_value_nat Let_def)+

lemma sgr_loop_true:
  assumes "i + 4 < length ns" "ns ! (i + 1) = 2"
  shows "ns ! i = 38 \<Longrightarrow> sgr_loop (param_value (map int ns)) (length ns) i r =
      sgr_loop (param_value (map int ns)) (length ns) (i + 5)
        (set_foreground_color (make_true_color (of_nat (ns ! (i + 2))) (of_nat (ns ! (i + 3))) (of_nat (ns ! (i + 4)))) r)"
    "ns ! i = 48 \<Longrightarrow> sgr_loop (param_value (map int ns)) (length ns) i r =
      sgr_loop (param_value (map int ns)) (length ns) (i + 5)
        (set_background_color (make_true_color (of_nat (ns ! (i + 2))) (of_nat (ns ! (i + 3))) (of_nat (ns ! (i + 4)))) r)"
  using assms by (subst sgr_loop.simps, simp add: param_value_nat Let_def)+

lemma sgr_from_plain:
  "x \<noteq> 38 \<Longrightarrow> x \<noteq> 48 \<Longrightarrow> sgr_from pre (x # xs) r = sgr_from (pre @ [x]) xs (set_rendition (of_nat x) r)"
  using sgr_loop_plain [of "length pre" "pre @ x # xs" r] by (simp add: sgr_from_def del: map_append)

lemma sgr_from_indexed:
  "sgr_from pre (38 # 5 # n # xs) r = sgr_from (pre @ [38, 5, n]) xs (set_foreground_color (of_nat n) r)"
  "sgr_from pre (48 # 5 # n # xs) r = sgr_from (pre @ [48, 5, n]) xs (set_background_color (of_nat n) r)"
  using sgr_loop_indexed(1) [of "length pre" "pre @ 38 # 5 # n # xs" r] sgr_loop_indexed(2) [of "length pre" "pre @ 48 # 5 # n # xs" r]
  by (simp_all add: sgr_from_def nth_append eval_nat_numeral del: map_append)

lemma sgr_from_true:
  "sgr_from pre (38 # 2 # a # b # c # xs) r =
     sgr_from (pre @ [38, 2, a, b, c]) xs (set_foreground_color (make_true_color (of_nat a) (of_nat b) (of_nat c)) r)"
  "sgr_from pre (48 # 2 # a # b # c # xs) r =
     sgr_from (pre @ [48, 2, a, b, c]) xs (set_background_color (make_true_color (of_nat a) (of_nat b) (of_nat c)) r)"
  using sgr_loop_true(1) [of "length pre" "pre @ 38 # 2 # a # b # c # xs" r] sgr_loop_true(2) [of "length pre" "pre @ 48 # 2 # a # b # c # xs" r]
  by (simp_all add: sgr_from_def nth_append eval_nat_numeral del: map_append)

text \<open>Attributes.\<close>

lemma set_rendition_attr: "set_rendition 1 r = set_attribute bold True r" "set_rendition 3 r = set_attribute italic True r"
  "set_rendition 4 r = set_attribute underlined True r" "set_rendition 5 r = set_attribute blink True r"
  "set_rendition 7 r = set_attribute inverse True r" "set_rendition 8 r = set_attribute invisible True r"
proof -
  have "\<not> (30 :: u32) \<le> 1" "\<not> (40 :: u32) \<le> 1" "\<not> (90 :: u32) \<le> 1" "\<not> (100 :: u32) \<le> 1" "(1 :: u32) < 9"
    by (simp_all add: word_le_nat_alt word_less_nat_alt)
  then show "set_rendition 1 r = set_attribute bold True r" by (simp add: set_rendition_def)
qed (simp_all add: set_rendition_def)

lemma sgr_attribute:
  assumes "n \<in> {1, 3, 4, 5, 7, 8}" "\<And>r. set_rendition (of_nat n) r = set_attribute a True r"
  shows "sgr_from pre ((if b then [n] else []) @ xs) r =
    sgr_from (pre @ (if b then [n] else [])) xs (if b then set_attribute a True r else r)"
  using assms by (cases b) (auto simp: sgr_from_plain)

definition put_attributes :: "renditions \<Rightarrow> renditions \<Rightarrow> renditions" where
  "put_attributes q r =
     fold (\<lambda>a s. if get_attribute a q then set_attribute a True s else s) [bold, italic, underlined, blink, inverse, invisible] r"

lemma sgr_attributes: "sgr_from pre (attribute_params q @ xs) r = sgr_from (pre @ attribute_params q) xs (put_attributes q r)"
  unfolding attribute_params_def append_assoc
  by (simp add: sgr_attribute [where a = bold] sgr_attribute [where a = italic] sgr_attribute [where a = underlined]
      sgr_attribute [where a = blink] sgr_attribute [where a = inverse] sgr_attribute [where a = invisible]
      set_rendition_attr put_attributes_def del: append.simps append_Nil append_Cons)

lemma attr_bit_less: "attr_bit a < 8"
  by (cases a) simp_all

lemma bit_attr_mask: "bit (push_bit (attr_bit a) 1 :: byte) n \<longleftrightarrow> n = attr_bit a"
  using attr_bit_less [of a] by (auto simp only: bit_push_bit_iff bit_1_iff) simp_all

lemma get_attribute_bit: "get_attribute a r = bit (attributes r) (attr_bit a)"
proof -
  have "bit (attributes r AND push_bit (attr_bit a) 1) n \<longleftrightarrow> bit (attributes r) (attr_bit a) \<and> n = attr_bit a" for n
    unfolding bit_and_iff bit_attr_mask by auto
  then show ?thesis unfolding get_attribute_def by (metis bit_0_eq bot_apply bot_bool_def bit_eqI)
qed

lemma put_attribute_bit:
  "bit (attributes (if get_attribute a q then set_attribute a True s else s)) n \<longleftrightarrow>
     bit (attributes s) n \<or> (n = attr_bit a \<and> bit (attributes q) n)"
proof -
  have "attributes (set_attribute a True s) = attributes s OR push_bit (attr_bit a) 1" by (simp add: set_attribute_def)
  then show ?thesis
    unfolding get_attribute_bit by (cases "bit (attributes q) (attr_bit a)") (auto simp only: if_True if_False bit_or_iff bit_attr_mask)
qed

lemma put_attributes_bit:
  "bit (attributes (put_attributes q r)) n \<longleftrightarrow> bit (attributes r) n \<or> (n \<in> {0, 2, 3, 4, 5, 6} \<and> bit (attributes q) n)"
  unfolding put_attributes_def fold.simps o_apply id_apply put_attribute_bit attr_bit.simps by auto

lemma put_attributes_colors:
  "foreground_color (put_attributes q r) = foreground_color r" "background_color (put_attributes q r) = background_color r"
  by (simp_all add: put_attributes_def set_attribute_def)

lemma put_attributes_restore:
  assumes "rend_ok q"
  shows "put_attributes q \<lparr>foreground_color = f, background_color = b, attributes = 0\<rparr>
    = \<lparr>foreground_color = f, background_color = b, attributes = attributes q\<rparr>"
proof (rule renditions.equality)
  have b: "\<not> bit (attributes q) 1" "\<not> bit (attributes q) 7" using assms by (simp_all add: rend_ok_def)
  have "n \<in> {0, 2, 3, 4, 5, 6}" if "bit (attributes q) n" for n
  proof -
    have "n < 8" using that by (rule bit_byte_less)
    moreover have "n \<noteq> 1" "n \<noteq> 7" using that b by metis+
    ultimately show ?thesis by auto
  qed
  then show "attributes (put_attributes q \<lparr>foreground_color = f, background_color = b, attributes = 0\<rparr>)
    = attributes \<lparr>foreground_color = f, background_color = b, attributes = attributes q\<rparr>"
    by (intro bit_word_eqI) (auto simp: put_attributes_bit)
qed (simp_all add: put_attributes_colors)

text \<open>Colours.\<close>

lemma color_byte_word: "(of_nat (nat (color_byte n c)) :: u32) = ucast (take_bit 8 (drop_bit n c))"
proof -
  have "drop_bit n c AND 0xff = take_bit 8 (drop_bit n c)" by (simp add: take_bit_eq_mask mask_eq_exp_minus_1)
  then show ?thesis unfolding color_byte_def uint_unat_diff(2) by simp
qed

lemma true_color_rebuild:
  assumes "bit c 24"
  shows "(ucast (make_true_color (of_nat (nat (color_byte 16 c))) (of_nat (nat (color_byte 8 c))) (of_nat (nat (color_byte 0 c)))) :: 25 word) = c"
proof (rule bit_word_eqI)
  fix n assume "n < LENGTH(25)"
  then have n: "n < 25" by simp
  have "bit c n = (n = 24 \<or> (16 \<le> n \<and> n < 24 \<and> bit c n) \<or> (8 \<le> n \<and> n < 16 \<and> bit c n) \<or> (n < 8 \<and> bit c n))"
    using assms n by (cases "n = 24") auto
  moreover have "bit (ucast (make_true_color (of_nat (nat (color_byte 16 c))) (of_nat (nat (color_byte 8 c)))
      (of_nat (nat (color_byte 0 c)))) :: 25 word) n =
    (n = 24 \<or> (16 \<le> n \<and> n < 24 \<and> bit c n) \<or> (8 \<le> n \<and> n < 16 \<and> bit c n) \<or> (n < 8 \<and> bit c n))"
    unfolding make_true_color_def color_byte_word
    using n by (auto simp: bit_ucast_iff bit_or_iff bit_push_bit_iff bit_take_bit_iff bit_drop_bit_eq bit_true_color_mask)
  ultimately show "bit (ucast (make_true_color (of_nat (nat (color_byte 16 c))) (of_nat (nat (color_byte 8 c)))
      (of_nat (nat (color_byte 0 c)))) :: 25 word) n = bit c n" by simp
qed

lemma true_color_not_small:
  assumes "bit (num :: u32) 24"
  shows "\<not> (0 \<le> sint num \<and> sint num \<le> 255)"
proof
  assume "0 \<le> sint num \<and> sint num \<le> 255"
  then obtain n where n: "n \<le> 255" "num = of_nat n" using small_color by blast
  have "unat num < 2 ^ 24" using n by (simp add: unat_of_nat)
  then have "unat (take_bit 24 num) = unat num" by (simp add: unsigned_take_bit_eq take_bit_nat_eq_self)
  then have "take_bit 24 num = num" by (simp only: word_unat_eq_iff)
  then show False using assms bit_take_bit_iff [of 24 num 24] by simp
qed


lemma sint_of_small: "n \<le> 255 \<Longrightarrow> sint (of_nat n :: u32) = int n"
  by (simp add: sint_uint unsigned_of_nat take_bit_nat_eq_self signed_take_bit_int_eq_self of_nat_take_bit take_bit_int_eq_self)

lemma ucast_of_nat_color: "(ucast (of_nat n :: u32) :: 25 word) = of_nat n"
  by (rule bit_word_eqI) (simp add: bit_simps)

lemma of_nat_unat_same: "of_nat (unat c) = c"
  by simp

lemma color_okE:
  assumes "color_ok (of_nat offset) c" "offset \<le> 40"
  obtains "c = 0" | "bit c 24" "c \<noteq> 0"
    | n where "n \<le> 7" "c = of_nat (offset + n)" "unat c = offset + n" "\<not> bit c 24" "c \<noteq> 0"
    | n where "7 < n" "n \<le> 255" "c = of_nat (offset + n)" "unat c = offset + n" "\<not> bit c 24" "c \<noteq> 0"
proof -
  consider "c = 0" | "bit c 24" "c \<noteq> 0" | "of_nat offset \<le> c" "c \<le> of_nat offset + 255" "\<not> bit c 24" "c \<noteq> 0"
    using assms(1) unfolding color_ok_def by blast
  then show thesis
  proof cases
    case 3
    have "offset \<le> unat c" "unat c \<le> offset + 255"
      using 3(1,2) assms(2) by (simp_all add: word_le_nat_alt unat_word_ariths unat_of_nat)
    then obtain n where n: "unat c = offset + n" "n \<le> 255" by (metis le_iff_add add_le_cancel_left)
    moreover have "c = of_nat (offset + n)" using n(1) by (metis of_nat_unat_same)
    ultimately show thesis using 3(3,4) that(3) [of n] that(4) [of n] by (cases "n \<le> 7") (simp_all only: not_le simp_thms)
  qed (use that in auto)
qed


lemma set_color_small:
  assumes "n \<le> 255"
  shows "set_foreground_color (of_nat n) r = r\<lparr>foreground_color := of_nat (30 + n)\<rparr>"
    "set_background_color (of_nat n) r = r\<lparr>background_color := of_nat (40 + n)\<rparr>"
  using assms by (simp_all add: set_foreground_color_def set_background_color_def sint_of_small ucast_of_nat_color)

lemma set_color_true:
  assumes "bit c 24"
  defines "num \<equiv> make_true_color (of_nat (nat (color_byte 16 c))) (of_nat (nat (color_byte 8 c))) (of_nat (nat (color_byte 0 c)))"
  shows "set_foreground_color num r = r\<lparr>foreground_color := c\<rparr>" "set_background_color num r = r\<lparr>background_color := c\<rparr>"
proof -
  have u: "(ucast num :: 25 word) = c" using true_color_rebuild [OF assms(1)] by (simp only: num_def)
  have "bit num 24" using assms(1) unfolding u [symmetric] by (simp only: bit_ucast_24)
  with u true_color_not_small [OF this] show "set_foreground_color num r = r\<lparr>foreground_color := c\<rparr>"
    "set_background_color num r = r\<lparr>background_color := c\<rparr>"
    by (simp_all add: set_foreground_color_def set_background_color_def is_true_color_iff)
qed

lemma set_rendition_color:
  assumes "n \<le> 7"
  shows "set_rendition (of_nat (30 + n)) r = r\<lparr>foreground_color := of_nat (30 + n)\<rparr>"
    "set_rendition (of_nat (40 + n)) r = r\<lparr>background_color := of_nat (40 + n)\<rparr>"
proof -
  have "n \<in> {0, 1, 2, 3, 4, 5, 6, 7}" using assms by auto
  then show "set_rendition (of_nat (30 + n)) r = r\<lparr>foreground_color := of_nat (30 + n)\<rparr>"
    "set_rendition (of_nat (40 + n)) r = r\<lparr>background_color := of_nat (40 + n)\<rparr>"
    by (elim insertE emptyE; simp add: set_rendition_def)+
qed

lemma sgr_from_foreground:
  assumes "color_ok 30 c" "foreground_color r = 0"
  shows "sgr_from pre (color_params 38 30 c @ xs) r = sgr_from (pre @ color_params 38 30 c) xs (r\<lparr>foreground_color := c\<rparr>)"
proof -
  have "color_ok (of_nat 30) c" using assms(1) by simp
  then show ?thesis
  proof (rule color_okE)
    assume "c = 0"
    then show ?thesis using assms(2) by (cases r) (simp add: color_params_def)
  next
    fix n assume n: "n \<le> 7" "c = of_nat (30 + n)" "unat c = 30 + n" "\<not> bit c 24" "c \<noteq> 0"
    then have "color_params 38 30 c = [30 + n]" unfolding color_params_def by simp
    then show ?thesis using n(1,2) set_rendition_color(1) [of n r] by (simp add: sgr_from_plain)
  next
    fix n assume n: "7 < n" "n \<le> 255" "c = of_nat (30 + n)" "unat c = 30 + n" "\<not> bit c 24" "c \<noteq> 0"
    then have "color_params 38 30 c = [38, 5, n]" unfolding color_params_def by simp
    then show ?thesis using n(3) set_color_small(1) [of n r] n(2) by (simp add: sgr_from_indexed)
  next
    assume "bit c 24" "c \<noteq> 0"
    then show ?thesis using set_color_true(1) [of c r] by (simp add: color_params_def sgr_from_true)
  qed simp
qed

lemma sgr_from_background:
  assumes "color_ok 40 c" "background_color r = 0"
  shows "sgr_from pre (color_params 48 40 c @ xs) r = sgr_from (pre @ color_params 48 40 c) xs (r\<lparr>background_color := c\<rparr>)"
proof -
  have "color_ok (of_nat 40) c" using assms(1) by simp
  then show ?thesis
  proof (rule color_okE)
    assume "c = 0"
    then show ?thesis using assms(2) by (cases r) (simp add: color_params_def)
  next
    fix n assume n: "n \<le> 7" "c = of_nat (40 + n)" "unat c = 40 + n" "\<not> bit c 24" "c \<noteq> 0"
    then have "color_params 48 40 c = [40 + n]" unfolding color_params_def by simp
    then show ?thesis using n(1,2) set_rendition_color(2) [of n r] by (simp add: sgr_from_plain)
  next
    fix n assume n: "7 < n" "n \<le> 255" "c = of_nat (40 + n)" "unat c = 40 + n" "\<not> bit c 24" "c \<noteq> 0"
    then have "color_params 48 40 c = [48, 5, n]" unfolding color_params_def by simp
    then show ?thesis using n(3) set_color_small(2) [of n r] n(2) by (simp add: sgr_from_indexed)
  next
    assume "bit c 24" "c \<noteq> 0"
    then show ?thesis using set_color_true(2) [of c r] by (simp add: color_params_def sgr_from_true)
  qed simp
qed

lemma sgr_loop_restores:
  assumes "rend_ok q"
  shows "sgr_from [] (0 # sgr_params q) r = q"
proof -
  have "set_rendition 0 r = \<lparr>foreground_color = 0, background_color = 0, attributes = 0\<rparr>"
    by (cases r) (simp add: set_rendition_def)
  then show ?thesis
    using assms by (simp add: sgr_from_plain sgr_params_def sgr_attributes put_attributes_restore rend_ok_def sgr_from_foreground
        sgr_from_background sgr_from_background [where xs = "[]", simplified] sgr_from_Nil)
qed


text \<open>The parameters fit the dispatcher.\<close>

lemma show_nat_length: "n \<le> 999 \<Longrightarrow> length (show_nat n) \<le> 3"
  by (simp add: show_nat.simps [of n] show_nat.simps [of "n div 10"] show_nat.simps [of "n div 10 div 10"])

lemma semi_params_length: "list_all (\<lambda>n. n \<le> 999) ns \<Longrightarrow> length (semi_params ns) \<le> 4 * length ns"
  by (induction ns) (auto simp: semi_params_def dest: show_nat_length)

lemma semi_params_chars: "list_all param_char (semi_params ns)"
  using show_nat_numeral by (induction ns) (auto simp: semi_params_def param_char_def numeral_string_def list_all_iff)

lemma join_params_chars: "list_all param_char (join_params (n # ns))"
  using show_nat_numeral [of n] semi_params_chars [of ns] by (auto simp: join_params_Cons param_char_def numeral_string_def list_all_iff)

lemma color_byte_small: "nat (color_byte n c) \<le> 999"
proof -
  have "unat (drop_bit n c AND 0xff) \<le> unat (0xff :: 25 word)" by (simp only: word_le_nat_alt [symmetric] word_and_le1)
  then show ?thesis unfolding color_byte_def uint_unat_diff(2) by simp
qed

lemma color_params_small:
  assumes "color_ok (of_nat offset) c" "offset \<le> 40" "kind \<le> 999"
  shows "list_all (\<lambda>n. n \<le> 999) (color_params kind offset c) \<and> length (color_params kind offset c) \<le> 5"
  by (rule color_okE [OF assms(1,2)]) (use color_byte_small assms(2,3) in \<open>auto simp: color_params_def\<close>)

lemma sgr_params_small:
  assumes "rend_ok r"
  shows "list_all (\<lambda>n. n \<le> 999) (0 # sgr_params r)" "length (sgr_params r) \<le> 16"
proof -
  have "color_ok (of_nat 30) (foreground_color r)" "color_ok (of_nat 40) (background_color r)"
    using assms by (simp_all add: rend_ok_def)
  note c = color_params_small [OF this(1), of 38] color_params_small [OF this(2), of 48]
  have "length (attribute_params r) \<le> 6" "list_all (\<lambda>n. n \<le> 999) (attribute_params r)" by (auto simp: attribute_params_def)
  then show "list_all (\<lambda>n. n \<le> 999) (0 # sgr_params r)" "length (sgr_params r) \<le> 16"
    using c by (auto simp: sgr_params_def)
qed

lemma CSI_SGR_restores:
  assumes "rend_ok r" "params d = join_params (0 # sgr_params r)" "\<not> parsed d"
  shows "CSI_SGR f d = Inr (update_ds (\<lambda>s. s\<lparr>ds_renditions := r\<rparr>) f, parse_params d)"
proof -
  have "list_all (\<lambda>n. int n \<le> PARAM_MAX) (0 # sgr_params r)"
    using sgr_params_small(1) [OF assms(1)] by (auto simp: PARAM_MAX_def list_all_iff)
  then have "parsed_params (parse_params d) = map int (0 # sgr_params r)"
    using parse_segments_join [of "0 # sgr_params r"] assms(2,3) by (simp add: parse_params_def del: join_params.simps)
  moreover have "sgr_loop (param_value (map int (0 # sgr_params r))) (length (0 # sgr_params r)) 0 q = r" for q
    using sgr_loop_restores [OF assms(1), of q] by (simp add: sgr_from_def)
  ultimately show ?thesis
    by (simp add: CSI_SGR_def param_count_eq getparam_eq with_renditions_def del: list.map length_Cons)
qed

lemma act_sgr:
  assumes "quiet t" "rend_ok r"
  shows "\<exists>t'. act lib (bytes_of_string (sgr r)) t = Inr ([], t')
    \<and> fb (terminal t') = update_ds (\<lambda>s. s\<lparr>ds_renditions := r\<rparr>) (fb (terminal t))
    \<and> user (terminal t') = user (terminal t) \<and> quiet t'"
proof -
  let ?d = "(disp (terminal t))\<lparr>params := join_params (0 # sgr_params r), parsed := False, dispatch_chars := ''m''\<rparr>"
  have f: "map_of CSI_registry ''m'' = Some (Function CSI_SGR False)" by (simp add: CSI_registry_def)
  have "length (join_params (0 # sgr_params r)) \<le> 100"
    using sgr_params_small [OF assms(2)] semi_params_length [of "sgr_params r"] by (simp add: join_params_Cons show_small)
  note a = act_csi [OF assms(1) join_params_chars this, of "CHR ''m''" _ lib, OF _ f]
  have "CSI_SGR (fb (terminal t)) ?d = Inr (update_ds (\<lambda>s. s\<lparr>ds_renditions := r\<rparr>) (fb (terminal t)), parse_params ?d)"
    using assms(2) by (rule CSI_SGR_restores) simp_all
  moreover have "final_char (CHR ''m'')" by (simp add: final_char_def)
  ultimately show ?thesis
    using a assms(1) by (simp add: sgr_string Function_def quiet_def parse_params_def)
qed

text \<open>C23. The rendition a screen writer puts on the wire is the rendition the emulator reads: whatever the cursor, the modes and
  the current rendition of an idle terminal, feeding it the control sequence that \<^verbatim>\<open>Renditions::sgr\<close> prints for a well-formed
  rendition sets the drawing rendition to exactly that one, attributes, indexed colours and true colours alike, and changes
  nothing else of the screen; no reply is sent and the terminal is idle again.\<close>

theorem sgr_round_trip:
  assumes "quiet t" "rend_ok r"
  shows "\<exists>t'. act lib (bytes_of_string (sgr r)) t = Inr ([], t')
    \<and> fb (terminal t') = update_ds (\<lambda>s. s\<lparr>ds_renditions := r\<rparr>) (fb (terminal t))
    \<and> user (terminal t') = user (terminal t) \<and> quiet t'"
  using assms by (rule act_sgr)

theorem sgr_round_trip_witness:
  "quiet example_terminal \<and> rend_ok \<lparr>foreground_color = 0x1FF8001, background_color = 52, attributes = 0x15\<rparr>
   \<and> (\<exists>t'. act example_locale (bytes_of_string (sgr \<lparr>foreground_color = 0x1FF8001, background_color = 52, attributes = 0x15\<rparr>))
          example_terminal = Inr ([], t')
        \<and> ds_renditions (ds (fb (terminal t'))) = \<lparr>foreground_color = 0x1FF8001, background_color = 52, attributes = 0x15\<rparr>)"
proof -
  have q: "quiet example_terminal" using example_terminal_ok by (simp add: quiet_def)
  have r: "rend_ok \<lparr>foreground_color = 0x1FF8001, background_color = 52, attributes = 0x15\<rparr>"
    by (simp add: rend_ok_def color_ok_def)
  from sgr_round_trip [OF q r, of example_locale] q r show ?thesis by (auto simp: update_ds_def)
qed

section \<open>Hyperlinks are read back\<close>

lemma link_char_code: "link_char ch \<Longrightarrow> 0x20 \<le> int (of_char ch) \<and> int (of_char ch) \<le> 0x7E"
  by (auto simp: link_char_def)

lemma parser_osc_put:
  assumes "link_char ch"
  shows "parser_input OSC_String (int (of_char ch)) = (OSC_String, [char_action OSC_Put ch])"
proof -
  note c = link_char_code [OF assms]
  then have "anywhere_rule (int (of_char ch)) = None" by (auto simp: anywhere_rule_def)
  then show ?thesis
    using c by (simp add: parser_input_def state_input_def input_state_rule_def rule_OSC_String_def
        with_char_def Transition_def Action_def append_or_delete_def ignore_def char_action_def)
qed

lemma parser_osc_body:
  "list_all link_char s \<Longrightarrow> parser_inputs OSC_String (codes s) = (OSC_String, map (char_action OSC_Put) s)"
  by (induction s) (simp_all add: codes_def parser_osc_put)

lemma parser_osc_start: "parser_inputs Ground [0x1B, 0x5D] = (OSC_String, [Action Clear, Action OSC_Start])"
  by (simp add: parser_input_def state_input_def anywhere_rule_def input_state_rule_def rule_Escape_def C0_prime_def
        with_char_def Transition_def Action_def append_or_delete_def ignore_def enter_def exit_def)

lemma parser_osc_end:
  "parser_inputs OSC_String [0x1B, 0x5C] =
    (Ground, [Action OSC_End, Action Clear, \<lparr>act_kind = Esc_Dispatch, act_ch = 0x5C, char_present = True\<rparr>])"
  by (simp add: parser_input_def state_input_def anywhere_rule_def input_state_rule_def rule_Escape_def C0_prime_def
        with_char_def Transition_def Action_def append_or_delete_def ignore_def enter_def exit_def)

lemma parser_osc:
  assumes "list_all link_char s"
  shows "parser_inputs Ground (codes (ESC # '']'' @ s @ [ESC, char_of (0x5C :: nat)])) =
    (Ground, [Action Clear, Action OSC_Start] @ map (char_action OSC_Put) s
      @ [Action OSC_End, Action Clear, \<lparr>act_kind = Esc_Dispatch, act_ch = 0x5C, char_present = True\<rparr>])"
proof -
  have "codes (ESC # '']'' @ s @ [ESC, char_of (0x5C :: nat)]) = [0x1B, 0x5D] @ codes s @ [0x1B, 0x5C]"
    by (simp add: codes_def of_char_ESC)
  then show ?thesis
    using parser_osc_body [OF assms] parser_osc_start parser_osc_end by (simp only: parser_inputs_append) simp
qed

lemma osc_chars:
  assumes "length (OSC_string (disp e)) + length s \<le> MAXIMUM_CLIPBOARD_SIZE"
  shows "foldE (act_on_terminal lib) (map (char_action OSC_Put) s) e =
    Inr (e\<lparr>disp := (disp e)\<lparr>OSC_string := OSC_string (disp e) @ codes s\<rparr>\<rparr>)"
  using assms
proof (induction s arbitrary: e)
  case (Cons ch s)
  let ?e = "e\<lparr>disp := (disp e)\<lparr>OSC_string := OSC_string (disp e) @ [int (of_char ch)]\<rparr>\<rparr>"
  have "act_on_terminal lib (char_action OSC_Put ch) e = Inr ?e"
    using Cons.prems by (simp add: act_on_terminal_def OSC_put_def char_action_def)
  then show ?case using Cons.IH [of ?e] Cons.prems by (simp add: codes_def)
qed (simp add: codes_def)

lemma string_terminator:
  "act_on_terminal lib \<lparr>act_kind = Esc_Dispatch, act_ch = 0x5C, char_present = True\<rparr> (e\<lparr>disp := clear d\<rparr>) =
    Inr (e\<lparr>fb := update_ds (\<lambda>s. s\<lparr>next_print_will_wrap := False\<rparr>) (fb e), disp := clear d\<rparr>)"
proof -
  have "map_of control_registry [char_of (0x9C :: int)] = None"
    by (simp add: control_registry_def char_of_def)
  then show ?thesis
    by (simp add: act_on_terminal_def Esc_dispatch_def clear_def run_dispatch_def dispatch_def dispatch_map_of_def)
qed

lemma foldE_osc:
  fixes e :: emulator
  assumes "length s \<le> MAXIMUM_CLIPBOARD_SIZE"
  defines "d \<equiv> (clear (disp e))\<lparr>OSC_string := codes s\<rparr>"
  shows "foldE (act_on_terminal lib) ([Action Clear, Action OSC_Start] @ map (char_action OSC_Put) s
      @ [Action OSC_End, Action Clear, \<lparr>act_kind = Esc_Dispatch, act_ch = 0x5C, char_present = True\<rparr>]) e =
    bindE (OSC_dispatch (fb e) d) (\<lambda>f.
      Inr (e\<lparr>fb := update_ds (\<lambda>s. s\<lparr>next_print_will_wrap := False\<rparr>) f, disp := clear d\<rparr>))"
proof -
  let ?e = "e\<lparr>disp := OSC_start (clear (disp e))\<rparr>"
  have a: "act_on_terminal lib (Action Clear) e = Inr (e\<lparr>disp := clear (disp e)\<rparr>)"
    "act_on_terminal lib (Action OSC_Start) e = Inr (e\<lparr>disp := OSC_start (disp e)\<rparr>)"
    "act_on_terminal lib (Action OSC_End) e = OSC_end e" for e
    by (simp_all add: act_on_terminal_def Action_def)
  have "foldE (act_on_terminal lib) (map (char_action OSC_Put) s) ?e = Inr (e\<lparr>disp := d\<rparr>)"
    using osc_chars [of ?e s lib] assms by (simp add: OSC_start_def)
  then show ?thesis
    by (cases "OSC_dispatch (fb e) d") (simp_all add: foldE_append a OSC_end_def string_terminator bindE_Inr_right)
qed

lemma act_osc:
  assumes t: "quiet t" and s: "list_all link_char s" "length s \<le> MAXIMUM_CLIPBOARD_SIZE"
  defines "d \<equiv> (clear (disp (terminal t)))\<lparr>OSC_string := codes s\<rparr>"
  shows "act lib (bytes_of_string (ESC # '']'' @ s @ [ESC, char_of (0x5C :: nat)])) t =
    bindE (OSC_dispatch (fb (terminal t)) d) (\<lambda>f.
      Inr ([], t\<lparr>terminal := (terminal t)\<lparr>fb := update_ds (\<lambda>s. s\<lparr>next_print_will_wrap := False\<rparr>) f, disp := clear d\<rparr>\<rparr>))"
proof -
  have p: "parser t = \<lparr>utf8_state = Ground, utf8_buf = []\<rparr>" using t by (simp add: quiet_def UTF8Parser_def)
  have a: "list_all ascii (ESC # '']'' @ s @ [ESC, char_of (0x5C :: nat)])"
    using s(1) by (auto simp: ascii_def of_char_ESC link_char_def list_all_iff)
  have u: "t\<lparr>parser := \<lparr>utf8_state = Ground, utf8_buf = []\<rparr>, terminal := e\<rparr> = t\<lparr>terminal := e\<rparr>" for e
    using p by (cases t) simp
  have "foldE (act_octet lib) (bytes_of_string (ESC # '']'' @ s @ [ESC, char_of (0x5C :: nat)])) t =
      bindE (OSC_dispatch (fb (terminal t)) d) (\<lambda>f. Inr (t\<lparr>terminal := (terminal t)\<lparr>fb :=
        update_ds (\<lambda>s. s\<lparr>next_print_will_wrap := False\<rparr>) f, disp := clear d\<rparr>\<rparr>))"
    using act_ascii [OF _ a, of t lib] parser_osc [OF s(1)] foldE_osc [OF s(2), of lib "terminal t"] p u
    by (simp add: d_def bindE_assoc del: foldE.simps append.simps)
  then show ?thesis
    using t by (cases "OSC_dispatch (fb (terminal t)) d")
      (simp_all add: act_def read_octets_to_host_def quiet_def d_def clear_def)
qed


lemma map_char_of_codes: "map char_of (codes s) = s"
proof -
  have "(char_of (int (of_char ch)) :: char) = ch" for ch by (simp add: of_nat_of_char)
  then show ?thesis by (simp add: codes_def o_def)
qed

lemma Parse_OSC_8_codes: "list_all link_char s \<Longrightarrow> Parse_OSC_8 (codes s) = Some s"
  using map_char_of_codes [of s] by (auto simp: Parse_OSC_8_def codes_def list_all_iff link_char_def)

lemma OSC_8_link:
  assumes "CHR '';'' \<notin> set ps"
  shows "OSC_8 (''8;'' @ ps @ '';'' @ url) f = Inr (update_ds (\<lambda>s. s\<lparr>ds_hyperlink := Hyperlink ps url\<rparr>) f)"
proof -
  have "takeWhile (\<lambda>ch. ch \<noteq> CHR '';'') (ps @ '';'' @ url) = ps" "dropWhile (\<lambda>ch. ch \<noteq> CHR '';'') (ps @ '';'' @ url) = CHR '';'' # url"
    using assms by (auto simp: takeWhile_append dropWhile_append)
  then show ?thesis by (simp add: OSC_8_def)
qed

lemma OSC_dispatch_link:
  assumes "list_all link_char (ps @ url)" "CHR '';'' \<notin> set ps" "OSC_string d = codes (''8;'' @ ps @ '';'' @ url)"
  shows "OSC_dispatch f d = Inr (update_ds (\<lambda>s. s\<lparr>ds_hyperlink := Hyperlink ps url\<rparr>) f)"
proof -
  have l: "list_all link_char (''8;'' @ ps @ '';'' @ url)" using assms(1) by (simp add: link_char_def)
  have "codes (''8;'' @ ps @ '';'' @ url) = 0x38 # 0x3B # codes (ps @ '';'' @ url)" by (simp add: codes_def)
  with Parse_OSC_8_codes [OF l] OSC_8_link [OF assms(2), of url f] assms(3) show ?thesis
    by (simp add: OSC_dispatch_def Let_def)
qed

lemma act_osc8:
  assumes "quiet t" "link_ok h"
  shows "\<exists>t'. act lib (bytes_of_string (osc8 h)) t = Inr ([], t')
    \<and> fb (terminal t') = update_ds (\<lambda>s. s\<lparr>ds_hyperlink := h, next_print_will_wrap := False\<rparr>) (fb (terminal t))
    \<and> user (terminal t') = user (terminal t) \<and> quiet t'"
proof -
  define ps where "ps = (case h of None \<Rightarrow> [] | Some (p, u) \<Rightarrow> p)"
  define url where "url = (case h of None \<Rightarrow> [] | Some (p, u) \<Rightarrow> u)"
  let ?s = "''8;'' @ ps @ '';'' @ url"
  let ?d = "(clear (disp (terminal t)))\<lparr>OSC_string := codes ?s\<rparr>"
  have h: "h = Hyperlink ps url" "list_all link_char (ps @ url)" "CHR '';'' \<notin> set ps" "length ?s \<le> MAXIMUM_CLIPBOARD_SIZE"
    using assms(2) by (auto simp: ps_def url_def Hyperlink_def link_ok_def MAXIMUM_CLIPBOARD_SIZE_def split: option.splits)
  have l: "list_all link_char ?s" using h(2) by (simp add: link_char_def)
  have "osc8 h = ESC # '']'' @ ?s @ [ESC, char_of (0x5C :: nat)]"
    unfolding osc8_def ps_def [symmetric] url_def [symmetric] by simp
  moreover have "OSC_dispatch (fb (terminal t)) ?d = Inr (update_ds (\<lambda>s. s\<lparr>ds_hyperlink := h\<rparr>) (fb (terminal t)))"
    unfolding h(1) using h(2,3) by (rule OSC_dispatch_link) simp
  ultimately show ?thesis
    using act_osc [OF assms(1) l h(4), of lib] assms(1) by (simp add: quiet_def clear_def update_ds_def)
qed

text \<open>C24. The hyperlink a screen writer puts on the wire is the hyperlink the emulator reads: feeding an idle terminal the
  operating system command that \<^verbatim>\<open>Hyperlink::osc8\<close> prints for a well-formed link, or for the absence of one, makes exactly
  that link the one under which the next characters are drawn.  The string terminator drops a pending wrap at the right
  margin, nothing else of the screen changes, no reply is sent and the terminal is idle again.\<close>

theorem osc8_round_trip:
  assumes "quiet t" "link_ok h"
  shows "\<exists>t'. act lib (bytes_of_string (osc8 h)) t = Inr ([], t')
    \<and> fb (terminal t') = update_ds (\<lambda>s. s\<lparr>ds_hyperlink := h, next_print_will_wrap := False\<rparr>) (fb (terminal t))
    \<and> user (terminal t') = user (terminal t) \<and> quiet t'"
  using assms by (rule act_osc8)

theorem osc8_round_trip_witness:
  "quiet example_terminal \<and> link_ok (Some (''id=7'', ''http://host/?q=a;b''))
   \<and> (\<exists>t'. act example_locale (bytes_of_string (osc8 (Some (''id=7'', ''http://host/?q=a;b'')))) example_terminal = Inr ([], t')
        \<and> ds_hyperlink (ds (fb (terminal t'))) = Some (''id=7'', ''http://host/?q=a;b''))"
proof -
  have q: "quiet example_terminal" using example_terminal_ok by (simp add: quiet_def)
  have h: "link_ok (Some (''id=7'', ''http://host/?q=a;b''))" by (simp add: link_ok_def link_char_def)
  from osc8_round_trip [OF q h, of example_locale] q h show ?thesis by (auto simp: update_ds_def)
qed

section \<open>Cursor addressing and reports\<close>

lemma show_nat_length_le: "n < 10 ^ Suc k \<Longrightarrow> length (show_nat n) \<le> Suc k"
proof (induction k arbitrary: n)
  case (Suc k)
  then show ?case by (subst show_nat.simps) simp
qed (simp add: show_nat.simps)

lemma cursor_address:
  assumes "0 \<le> i" "i < height d" "0 \<le> j" "j < width d" "\<not> origin_mode d"
  defines "d' \<equiv> move_col j False False (move_row i False d)"
  shows "cursor_row d' = i" "cursor_col d' = j" "\<not> next_print_will_wrap d'"
  using assms by (simp_all add: move_row_def move_col_def Let_def snap_cursor_to_border_def new_grapheme_def limit_top_def limit_bottom_def)

lemma CSI_cursormove_address:
  assumes "params d = join_params [r, c]" "\<not> parsed d" "dispatch_chars d = ''H''" "1 \<le> r" "r \<le> 65535" "1 \<le> c" "c \<le> 65535"
  shows "CSI_cursormove f d = Inr (update_ds (\<lambda>s. move_col (int c - 1) False False (move_row (int r - 1) False s)) f, parse_params d)"
proof -
  have "parsed_params (parse_params d) = map int [r, c]"
    using parse_segments_join [of "[r, c]"] assms by (simp add: parse_params_def PARAM_MAX_def)
  then have "param_value (parsed_params (parse_params d)) 0 1 = int r" "param_value (parsed_params (parse_params d)) 1 1 = int c"
    using assms(4,6) by (simp_all add: param_value_def)
  moreover have "dispatch_chars (parse_params d) = ''H''" using assms(3) by (simp add: parse_params_def)
  ultimately show ?thesis
    by (simp add: CSI_cursormove_def getparam_eq first_char_def Let_def update_ds_def)
qed

lemma act_cursor_address:
  assumes "quiet t" "1 \<le> r" "r \<le> 65535" "1 \<le> c" "c \<le> 65535"
  shows "\<exists>t'. act lib (bytes_of_string (ESC # ''['' @ join_params [r, c] @ ''H'')) t = Inr ([], t') \<and> quiet t'
    \<and> fb (terminal t') = update_ds (\<lambda>s. move_col (int c - 1) False False (move_row (int r - 1) False (s\<lparr>next_print_will_wrap := False\<rparr>)))
        (fb (terminal t))"
proof -
  let ?d = "(disp (terminal t))\<lparr>params := join_params [r, c], parsed := False, dispatch_chars := ''H''\<rparr>"
  have f: "map_of CSI_registry ''H'' = Some (Function CSI_cursormove True)" by (simp add: CSI_registry_def)
  have "length (join_params [r, c]) \<le> 100" using show_nat_length_le [of r 4] show_nat_length_le [of c 4] assms by simp
  note a = act_csi [OF assms(1) join_params_chars this, of "CHR ''H''" _ lib, OF _ f]
  have "CSI_cursormove f ?d = Inr (update_ds (\<lambda>s. move_col (int c - 1) False False (move_row (int r - 1) False s)) f, parse_params ?d)" for f
    using assms(2-5) by (intro CSI_cursormove_address) simp_all
  moreover have "final_char (CHR ''H'')" by (simp add: final_char_def)
  ultimately show ?thesis
    using a assms(1) by (simp add: Function_def quiet_def parse_params_def update_ds_def)
qed

lemma act_report:
  assumes "quiet t" "cursor_row (ds (fb (terminal t))) = int r - 1" "cursor_col (ds (fb (terminal t))) = int c - 1" "r \<le> 65535" "c \<le> 65535"
    "\<not> next_print_will_wrap (ds (fb (terminal t)))"
  shows "\<exists>t'. act lib (bytes_of_string (ESC # ''['' @ join_params [6] @ ''n'')) t =
      Inr (bytes_of_string (ESC # ''['' @ join_params [r, c] @ ''R''), t') \<and> quiet t' \<and> fb (terminal t') = fb (terminal t)"
proof -
  let ?d = "(disp (terminal t))\<lparr>params := join_params [6], parsed := False, dispatch_chars := ''n''\<rparr>"
  have f: "map_of CSI_registry ''n'' = Some (Function CSI_DSR True)" by (simp add: CSI_registry_def)
  have "length (join_params [6]) \<le> 100" by (simp add: show_nat.simps)
  note a = act_csi [OF assms(1) join_params_chars this, of "CHR ''n''" _ lib, OF _ f]
  have "parsed_params (parse_params ?d) = map int [6]"
    using parse_segments_join [of "[6]"] by (simp add: parse_params_def PARAM_MAX_def)
  moreover have "length (ESC # ''['' @ join_params [r, c] @ ''R'') \<le> 31"
    using show_nat_length_le [of r 4] show_nat_length_le [of c 4] assms by simp
  ultimately have "CSI_DSR (fb (terminal t)) ?d = Inr (fb (terminal t), reply (ESC # ''['' @ join_params [r, c] @ ''R'') (parse_params ?d))"
    using assms(2,3) by (simp add: CSI_DSR_def getparam_eq param_value_def show_int_def)
  moreover have "update_ds (\<lambda>s. s\<lparr>next_print_will_wrap := False\<rparr>) (fb (terminal t)) = fb (terminal t)"
    using assms(6) by (simp add: update_ds_def)
  moreover have "final_char (CHR ''n'')" by (simp add: final_char_def)
  ultimately show ?thesis
    using a assms(1) by (simp add: Function_def quiet_def parse_params_def reply_def)
qed

text \<open>C25. Addressing the cursor and asking for it: on an idle terminal without origin mode, the sequence \<open>CSI row ; col H\<close> puts the
  cursor on exactly that cell of the screen and touches no row, and the status request \<open>CSI 6 n\<close> is then answered with the same
  row and column, as \<open>CSI row ; col R\<close>, and changes nothing of the screen.\<close>

theorem cursor_address_reported:
  assumes "quiet t" "1 \<le> r" "int r \<le> height (ds (fb (terminal t)))" "r \<le> 65535"
    "1 \<le> c" "int c \<le> width (ds (fb (terminal t)))" "c \<le> 65535" "\<not> origin_mode (ds (fb (terminal t)))"
  shows "\<exists>t1 t2. act lib (bytes_of_string (ESC # ''['' @ join_params [r, c] @ ''H'')) t = Inr ([], t1)
    \<and> cursor_row (ds (fb (terminal t1))) = int r - 1 \<and> cursor_col (ds (fb (terminal t1))) = int c - 1
    \<and> rows (fb (terminal t1)) = rows (fb (terminal t))
    \<and> act lib (bytes_of_string (ESC # ''['' @ join_params [6] @ ''n'')) t1
        = Inr (bytes_of_string (ESC # ''['' @ join_params [r, c] @ ''R''), t2)
    \<and> fb (terminal t2) = fb (terminal t1)"
proof -
  obtain t1 where t1: "act lib (bytes_of_string (ESC # ''['' @ join_params [r, c] @ ''H'')) t = Inr ([], t1)" "quiet t1"
    "fb (terminal t1) = update_ds (\<lambda>s. move_col (int c - 1) False False (move_row (int r - 1) False (s\<lparr>next_print_will_wrap := False\<rparr>)))
        (fb (terminal t))"
    using act_cursor_address [OF assms(1,2,4,5,7), of lib] by blast
  have p: "cursor_row (ds (fb (terminal t1))) = int r - 1" "cursor_col (ds (fb (terminal t1))) = int c - 1"
    "\<not> next_print_will_wrap (ds (fb (terminal t1)))"
    unfolding t1(3) using assms(2,3,5,6,8)
      cursor_address [of "int r - 1" "(ds (fb (terminal t)))\<lparr>next_print_will_wrap := False\<rparr>" "int c - 1"] by (simp_all add: update_ds_def)
  moreover have "rows (fb (terminal t1)) = rows (fb (terminal t))" unfolding t1(3) by (simp add: update_ds_def)
  ultimately show ?thesis using t1(1) act_report [OF t1(2) p(1,2) assms(4,7) p(3), of lib] by blast
qed

theorem cursor_address_reported_witness:
  "quiet example_terminal \<and> height (ds (fb (terminal example_terminal))) = 2 \<and> width (ds (fb (terminal example_terminal))) = 4
   \<and> (\<exists>t1 t2. act example_locale (bytes_of_string (ESC # ''['' @ join_params [2, 3] @ ''H'')) example_terminal = Inr ([], t1)
        \<and> cursor_row (ds (fb (terminal t1))) = 1 \<and> cursor_col (ds (fb (terminal t1))) = 2
        \<and> act example_locale (bytes_of_string (ESC # ''['' @ join_params [6] @ ''n'')) t1
            = Inr (bytes_of_string (ESC # ''['' @ join_params [2, 3] @ ''R''), t2))"
proof -
  have q: "quiet example_terminal" using example_terminal_ok by (simp add: quiet_def)
  have d: "height (ds (fb (terminal example_terminal))) = 2" "width (ds (fb (terminal example_terminal))) = 4"
    "\<not> origin_mode (ds (fb (terminal example_terminal)))"
    by (simp_all add: example_terminal_def Complete_def Emulator_def Framebuffer_def DrawState_def reinitialize_tabs_def to_int_def)
  from cursor_address_reported [OF q, of 2 3 example_locale] q d show ?thesis by (simp del: join_params.simps) blast
qed

end
