(* ===== verification/Display.thy ===== *)
theory Display
  imports Rendering
begin

text \<open>
  Writing a screen as a stream of octets (src/mosh/src/terminal/terminaldisplay.cc, terminaldisplay.h): \<open>new_frame\<close> turns the
  difference between two framebuffers into the control sequences that bring a terminal from the first to the second, and
  \<open>put_row\<close> does so for one row.

  Two framebuffers may share a row, and \<^verbatim>\<open>put_row\<close> returns early for a shared one.  Rows are values in this model, so the answer
  to that test of addresses is an argument, \<open>same\<close>.  The generation number a blank row draws from the static counter is the
  argument \<open>g\<close>.  A \<^verbatim>\<open>snprintf\<close> into 64 bytes never cuts these sequences, whose two numbers have at most 11 characters each.
\<close>

section \<open>The state of a frame\<close>

record frame_state =
  str :: bytes
  cursor_x :: int
  cursor_y :: int
  current_rendition :: renditions
  current_hyperlink :: hyperlink
  frame_cursor_visible :: bool

definition initial_rendition :: renditions where
  "initial_rendition = Renditions 0"

definition FrameState :: "framebuffer \<Rightarrow> frame_state" where
  "FrameState s_last =
     \<lparr>str = [], cursor_x = 0, cursor_y = 0, current_rendition = Renditions 0, current_hyperlink = None,
      frame_cursor_visible = cursor_visible (ds s_last)\<rparr>"

definition append_string :: "string \<Rightarrow> frame_state \<Rightarrow> frame_state" where
  "append_string s frame = frame\<lparr>str := str frame @ bytes_of_string s\<rparr>"

definition append_chars :: "nat \<Rightarrow> byte \<Rightarrow> frame_state \<Rightarrow> frame_state" where
  "append_chars n c frame = frame\<lparr>str := str frame @ replicate n c\<rparr>"

definition append_to_str :: "c_locale \<Rightarrow> int \<Rightarrow> frame_state \<Rightarrow> frame_state result" where
  "append_to_str lib c frame =
     (if 0 \<le> c \<and> c \<le> 0x7f then Inr (frame\<lparr>str := str frame @ [of_int c]\<rparr>)
      else case wcrtomb lib c of None \<Rightarrow> Inl UndefinedBehaviour | Some tmp \<Rightarrow> Inr (frame\<lparr>str := str frame @ tmp\<rparr>))"

definition append_cell :: "cell \<Rightarrow> frame_state \<Rightarrow> frame_state" where
  "append_cell c frame = frame\<lparr>str := str frame @ print_grapheme c\<rparr>"

definition append_move :: "int \<Rightarrow> int \<Rightarrow> frame_state \<Rightarrow> frame_state" where
  "append_move y x frame =
     (let last_x = cursor_x frame; last_y = cursor_y frame;
          frame1 = frame\<lparr>cursor_x := x, cursor_y := y\<rparr>
      in if last_x \<noteq> - 1 \<and> last_y \<noteq> - 1 \<and> x = 0 \<and> y - last_y \<ge> 0 \<and> y - last_y < 5
         then append_chars (nat (y - last_y)) 0x0A (if last_x \<noteq> 0 then append_chars 1 0x0D frame1 else frame1)
         else if last_x \<noteq> - 1 \<and> last_y \<noteq> - 1 \<and> y = last_y \<and> x - last_x < 0 \<and> x - last_x > - 5
         then append_chars (nat (last_x - x)) 0x08 frame1
         else append_string (ESC # ''['' @ show_int (y + 1) @ '';'' @ show_int (x + 1) @ ''H'') frame1)"

definition append_silent_move :: "int \<Rightarrow> int \<Rightarrow> frame_state \<Rightarrow> frame_state" where
  "append_silent_move y x frame =
     (if cursor_x frame = x \<and> cursor_y frame = y then frame
      else append_move y x
             (if frame_cursor_visible frame
              then (append_string (ESC # ''[?25l'') frame)\<lparr>frame_cursor_visible := False\<rparr> else frame))"

definition update_rendition :: "renditions \<Rightarrow> bool \<Rightarrow> frame_state \<Rightarrow> frame_state" where
  "update_rendition r force frame =
     (if force \<or> current_rendition frame \<noteq> r
      then (append_string (sgr r) frame)\<lparr>current_rendition := r\<rparr> else frame)"

definition update_hyperlink :: "hyperlink \<Rightarrow> bool \<Rightarrow> frame_state \<Rightarrow> frame_state" where
  "update_hyperlink h force frame =
     (if force \<or> current_hyperlink frame \<noteq> h
      then (append_string (osc8 h) frame)\<lparr>current_hyperlink := h\<rparr> else frame)"

section \<open>The display\<close>

record display =
  has_ech :: bool
  has_bce :: bool
  has_title :: bool
  smcup :: "string option"
  rmcup :: "string option"

text \<open>The display of a process that does not look at its environment, which is the one a \<^verbatim>\<open>Complete\<close> terminal has.\<close>

definition Display_default :: display where
  "Display_default = \<lparr>has_ech = True, has_bce = True, has_title = True, smcup = None, rmcup = None\<rparr>"

definition open_display :: "display \<Rightarrow> string" where
  "open_display dpy = (case smcup dpy of None \<Rightarrow> [] | Some s \<Rightarrow> s) @ ESC # ''[?1h''"

definition close_display :: "display \<Rightarrow> string" where
  "close_display dpy =
     ESC # ''[?1l'' @ ESC # ''[0m'' @ ESC # ''[?25h'' @ ESC # ''[?1003l'' @ ESC # ''[?1002l'' @ ESC # ''[?1001l''
       @ ESC # ''[?1000l'' @ ESC # ''[?1015l'' @ ESC # ''[?1006l'' @ ESC # ''[?1005l''
       @ (case rmcup dpy of None \<Rightarrow> [] | Some s \<Rightarrow> s)"

definition can_use_erase :: "display \<Rightarrow> frame_state \<Rightarrow> bool" where
  "can_use_erase dpy frame \<longleftrightarrow>
     has_bce dpy \<or> (current_rendition frame = initial_rendition \<and> current_hyperlink frame = None)"

definition checked_at :: "'a list \<Rightarrow> int \<Rightarrow> 'a result" where
  "checked_at xs i = (if 0 \<le> i \<and> i < int (length xs) then Inr (xs ! nat i) else Inl OutOfRange)"

definition cell_width :: "cell \<Rightarrow> int" where
  "cell_width c = (if wide c then 2 else 1)"

section \<open>One row\<close>

record put_state =
  frame :: frame_state
  frame_x :: int
  clear_count :: nat
  wrote_last_cell :: bool
  blank_renditions :: renditions
  blank_hyperlink :: hyperlink

text \<open>Clearing the run of blank cells that ends before \<open>frame_x\<close>, inside the row.\<close>

definition flush_blanks :: "display \<Rightarrow> int \<Rightarrow> put_state \<Rightarrow> frame_state" where
  "flush_blanks dpy frame_y s =
     (let n = clear_count s;
          frame1 = append_silent_move frame_y (frame_x s - int n) (frame s);
          frame2 = update_hyperlink (blank_hyperlink s) False (update_rendition (blank_renditions s) False frame1)
      in if can_use_erase dpy frame2 \<and> has_ech dpy \<and> n > 4
         then append_string (ESC # ''['' @ show_int (int n) @ ''X'') frame2
         else (append_chars n 0x20 frame2)\<lparr>cursor_x := frame_x s\<rparr>)"

definition draw_cell :: "int \<Rightarrow> int \<Rightarrow> bool \<Rightarrow> cell \<Rightarrow> put_state \<Rightarrow> put_state" where
  "draw_cell frame_y row_width wrap_this c s =
     (let w = cell_width c;
          frame0 = (if wrap_this \<and> frame_x s + w \<ge> row_width then (frame s)\<lparr>cursor_x := - 1, cursor_y := - 1\<rparr> else frame s);
          frame1 = append_silent_move frame_y (frame_x s) frame0;
          frame2 = update_hyperlink (cell_hyperlink c) False (update_rendition (cell_renditions c) False frame1);
          frame3 = append_cell c frame2
      in s\<lparr>frame := frame3\<lparr>cursor_x := cursor_x frame3 + w\<rparr>, frame_x := frame_x s + w,
           wrote_last_cell := (frame_x s + w \<ge> row_width \<or> wrote_last_cell s)\<rparr>)"

text \<open>One turn of the loop over the cells.\<close>

definition put_cell :: "display \<Rightarrow> bool \<Rightarrow> cell list \<Rightarrow> cell list \<Rightarrow> int \<Rightarrow> int \<Rightarrow> bool \<Rightarrow> put_state \<Rightarrow> put_state result" where
  "put_cell dpy initialized cs old_cells frame_y row_width wrap_this s =
     bindE (checked_at cs (frame_x s)) (\<lambda>c.
     bindE (if initialized \<and> clear_count s = 0
            then bindE (checked_at old_cells (frame_x s)) (\<lambda>old. Inr (c = old)) else Inr False) (\<lambda>unchanged.
     if unchanged then Inr (s\<lparr>frame_x := frame_x s + cell_width c\<rparr>)
     else
       (let s1 = (if contents c = [] \<and> clear_count s = 0
                  then s\<lparr>blank_renditions := cell_renditions c, blank_hyperlink := cell_hyperlink c\<rparr> else s)
        in if contents c = [] \<and> cell_renditions c = blank_renditions s1 \<and> cell_hyperlink c = blank_hyperlink s1
           then Inr (s1\<lparr>clear_count := clear_count s1 + 1, frame_x := frame_x s1 + 1\<rparr>)
           else
             (let s2 = (if clear_count s1 \<noteq> 0 then s1\<lparr>frame := flush_blanks dpy frame_y s1, clear_count := 0\<rparr> else s1)
              in if clear_count s1 \<noteq> 0 \<and> contents c = []
                 then Inr (s2\<lparr>blank_renditions := cell_renditions c, blank_hyperlink := cell_hyperlink c, clear_count := 1,
                              frame_x := frame_x s2 + 1\<rparr>)
                 else Inr (draw_cell frame_y row_width wrap_this c s2)))))"

lemma cell_width_pos: "0 < cell_width c"
  by (simp add: cell_width_def)

lemma put_cell_advances: "put_cell dpy initialized cs old_cells frame_y row_width wrap_this s = Inr s' \<Longrightarrow> frame_x s < frame_x s'"
  by (auto simp: put_cell_def draw_cell_def Let_def bindE_def cell_width_pos split: sum.splits if_splits)

function put_cells :: "display \<Rightarrow> bool \<Rightarrow> cell list \<Rightarrow> cell list \<Rightarrow> int \<Rightarrow> int \<Rightarrow> bool \<Rightarrow> put_state \<Rightarrow> put_state result" where
  "put_cells dpy initialized cs old_cells frame_y row_width wrap_this s =
     (if frame_x s < row_width
      then (case put_cell dpy initialized cs old_cells frame_y row_width wrap_this s of
              Inl e \<Rightarrow> Inl e
            | Inr s' \<Rightarrow> put_cells dpy initialized cs old_cells frame_y row_width wrap_this s')
      else Inr s)"
  by pat_completeness auto

termination
  by (relation "measure (\<lambda>(_, _, _, _, _, row_width, _, s). nat (row_width - frame_x s))") (auto dest!: put_cell_advances)

declare put_cells.simps [simp del]

text \<open>The run of blank cells that reaches the end of the row; the flag tells whether the last cell was written.\<close>

definition flush_to_end :: "display \<Rightarrow> int \<Rightarrow> bool \<Rightarrow> put_state \<Rightarrow> frame_state \<times> bool" where
  "flush_to_end dpy frame_y wrap_this s =
     (if clear_count s \<noteq> 0
      then
        (let n = clear_count s;
             frame1 = append_silent_move frame_y (frame_x s - int n) (frame s);
             frame2 = update_hyperlink (blank_hyperlink s) False (update_rendition (blank_renditions s) False frame1)
         in if can_use_erase dpy frame2 \<and> \<not> wrap_this then (append_string (ESC # ''[K'') frame2, wrote_last_cell s)
            else ((append_chars n 0x20 frame2)\<lparr>cursor_x := frame_x s\<rparr>, True))
      else (frame s, wrote_last_cell s))"

definition put_row :: "display \<Rightarrow> bool \<Rightarrow> bool \<Rightarrow> framebuffer \<Rightarrow> int \<Rightarrow> row \<Rightarrow> bool \<Rightarrow> frame_state \<Rightarrow> (bool \<times> frame_state) result" where
  "put_row dpy same initialized f y old_row wrapped fr =
     bindE (checked_at (rows f) y) (\<lambda>rw.
     bindE (if wrapped
            then bindE (checked_at (cells rw) 0) (\<lambda>c.
                 let fr1 = append_cell c (update_hyperlink (cell_hyperlink c) False (update_rendition (cell_renditions c) False fr))
                 in Inr (fr1\<lparr>cursor_x := cursor_x fr1 + cell_width c\<rparr>, cell_width c))
            else Inr (fr, 0)) (\<lambda>(fr1, x).
     if initialized \<and> same then Inr (False, fr1)
     else
       bindE (if cells rw = [] then Inl UndefinedBehaviour else Inr (wrap (last (cells rw)))) (\<lambda>wrap_this.
       bindE (put_cells dpy initialized (cells rw) (cells old_row) y (width (ds f)) wrap_this
                \<lparr>frame = fr1, frame_x = x, clear_count = 0, wrote_last_cell = False, blank_renditions = initial_rendition,
                 blank_hyperlink = None\<rparr>) (\<lambda>s.
       case flush_to_end dpy y wrap_this s of (fr2, wrote) \<Rightarrow>
       if \<not> (wrote \<and> y < height (ds f) - 1) then Inr (False, fr2)
       else if wrap_this then Inr (True, fr2\<lparr>cursor_x := 0, cursor_y := cursor_y fr2 + 1\<rparr>)
       else Inr (False, (append_chars 1 0x0A (append_chars 1 0x0D fr2))\<lparr>cursor_x := 0, cursor_y := cursor_y fr2 + 1\<rparr>)))))"


section \<open>A frame\<close>

definition append_title :: "c_locale \<Rightarrow> string \<Rightarrow> int list \<Rightarrow> frame_state \<Rightarrow> frame_state result" where
  "append_title lib command title fr =
     bindE (foldE (append_to_str lib) title (append_string command fr)) (\<lambda>fr1. Inr (append_chars 1 0x07 fr1))"

definition frame_titles :: "c_locale \<Rightarrow> display \<Rightarrow> bool \<Rightarrow> framebuffer \<Rightarrow> framebuffer \<Rightarrow> frame_state \<Rightarrow> frame_state result" where
  "frame_titles lib dpy initialized last_frame f fr =
     (if has_title dpy \<and> title_initialized f
         \<and> (\<not> initialized \<or> icon_name f \<noteq> icon_name last_frame \<or> window_title f \<noteq> window_title last_frame)
      then (if icon_name f = window_title f
            then append_title lib (ESC # '']0;'') (window_title f) fr
            else bindE (append_title lib (ESC # '']1;'') (icon_name f) fr) (\<lambda>fr1.
                 append_title lib (ESC # '']2;'') (window_title f) fr1))
      else Inr fr)"

definition frame_clipboard :: "c_locale \<Rightarrow> framebuffer \<Rightarrow> framebuffer \<Rightarrow> frame_state \<Rightarrow> frame_state result" where
  "frame_clipboard lib last_frame f fr =
     (if clipboard f \<noteq> clipboard last_frame then append_title lib (ESC # '']52;c;'') (clipboard f) fr else Inr fr)"

definition frame_video :: "bool \<Rightarrow> framebuffer \<Rightarrow> framebuffer \<Rightarrow> frame_state \<Rightarrow> frame_state" where
  "frame_video initialized last_frame f fr =
     (if \<not> initialized \<or> reverse_video (ds f) \<noteq> reverse_video (ds last_frame)
      then append_string (ESC # ''[?5'' @ (if reverse_video (ds f) then ''h'' else ''l'')) fr else fr)"

definition size_changed :: "framebuffer \<Rightarrow> framebuffer \<Rightarrow> bool" where
  "size_changed last_frame f \<longleftrightarrow> width (ds f) \<noteq> width (ds last_frame) \<or> height (ds f) \<noteq> height (ds last_frame)"

text \<open>A frame of another size, or a first frame, starts from a cleared screen with a hidden cursor.\<close>

definition frame_size :: "bool \<Rightarrow> framebuffer \<Rightarrow> framebuffer \<Rightarrow> frame_state \<Rightarrow> bool \<times> frame_state" where
  "frame_size initialized last_frame f fr =
     (if \<not> initialized \<or> size_changed last_frame f
      then (False, append_string (ESC # ''[?25l'')
             ((append_string (ESC # ''[0m'' @ ESC # ''[H'' @ ESC # ''[2J'') (append_string (ESC # ''[r'') fr))
                \<lparr>cursor_x := 0, cursor_y := 0, current_rendition := initial_rendition, current_hyperlink := None,
                 frame_cursor_visible := False\<rparr>))
      else (True, fr\<lparr>cursor_x := cursor_col (ds last_frame), cursor_y := cursor_row (ds last_frame),
                     current_rendition := ds_renditions (ds last_frame), current_hyperlink := ds_hyperlink (ds last_frame)\<rparr>))"

definition extend_rows :: "u64 \<Rightarrow> framebuffer \<Rightarrow> framebuffer \<Rightarrow> row list" where
  "extend_rows g last_frame f =
     (let w = nat (width (ds f)); h = nat (height (ds f));
          wider = (if width (ds last_frame) < width (ds f)
                   then map (\<lambda>r. r\<lparr>cells := vec_resize w (Cell (background f)) (cells r)\<rparr>) (rows last_frame) else rows last_frame)
      in if length wider < h then vec_resize h (Row w 0 g) wider else wider)"

text \<open>The first old row that is equal to the new top row, and how many rows below it are equal to the new ones.\<close>

fun find_row :: "row \<Rightarrow> row list \<Rightarrow> int list \<Rightarrow> int option result" where
  "find_row new_row rs [] = Inr None"
| "find_row new_row rs (i # is) =
     bindE (checked_at rs i) (\<lambda>old_row. if new_row = old_row then Inr (Some i) else find_row new_row rs is)"

fun scrolled_height :: "framebuffer \<Rightarrow> row list \<Rightarrow> int \<Rightarrow> int list \<Rightarrow> int \<Rightarrow> int result" where
  "scrolled_height f rs lines_scrolled [] scroll_height = Inr scroll_height"
| "scrolled_height f rs lines_scrolled (n # ns) scroll_height =
     bindE (checked_at (rows f) n) (\<lambda>new_row.
     bindE (checked_at rs (lines_scrolled + n)) (\<lambda>old_row.
     if new_row = old_row then scrolled_height f rs lines_scrolled ns (n + 1) else Inr scroll_height))"

definition find_scroll :: "framebuffer \<Rightarrow> row list \<Rightarrow> (int \<times> int) result" where
  "find_scroll f rs =
     bindE (if 0 < height (ds f)
            then bindE (checked_at (rows f) 0) (\<lambda>new_row. find_row new_row rs [0..height (ds f) - 1]) else Inr None) (\<lambda>r.
     case r of
       None \<Rightarrow> Inr (0, 0)
     | Some lines_scrolled \<Rightarrow>
         if lines_scrolled = 0 then Inr (0, 0)
         else bindE (scrolled_height f rs lines_scrolled [1..height (ds f) - 1 - lines_scrolled] 1) (\<lambda>h. Inr (lines_scrolled, h)))"

definition scroll_rows :: "row \<Rightarrow> int \<Rightarrow> int \<Rightarrow> row list \<Rightarrow> row list result" where
  "scroll_rows blank_row lines_scrolled bottom_margin rs =
     foldE (\<lambda>i rs.
       bindE (if i + lines_scrolled \<le> bottom_margin then checked_at rs (i + lines_scrolled) else Inr blank_row) (\<lambda>r.
       if i < int (length rs) then Inr (rs[nat i := r]) else Inl OutOfRange)) [0..bottom_margin] rs"

definition frame_scroll :: "u64 \<Rightarrow> framebuffer \<Rightarrow> row list \<Rightarrow> frame_state \<Rightarrow> (int \<times> row list \<times> frame_state) result" where
  "frame_scroll g f rs fr =
     bindE (find_scroll f rs) (\<lambda>(lines_scrolled, scroll_height).
     if scroll_height = 0 then Inr (0, rs, fr)
     else if lines_scrolled = 0 then Inr (scroll_height, rs, fr)
     else
       (let fr1 = update_hyperlink None True (update_rendition initial_rendition True fr);
            bottom_margin = lines_scrolled + scroll_height - 1
        in bindE (assertE (bottom_margin < height (ds f)) AssertFailed) (\<lambda>_.
           let fr2 =
             (if scroll_height + lines_scrolled = height (ds f) \<and> cursor_y fr1 + 1 = height (ds f)
              then (append_chars (nat lines_scrolled) 0x0A (append_chars 1 0x0D fr1))\<lparr>cursor_x := 0\<rparr>
              else
                (let fr3 = append_string (ESC # ''['' @ show_int 1 @ '';'' @ show_int (bottom_margin + 1) @ ''r'') fr1;
                     fr4 = append_silent_move bottom_margin 0 (fr3\<lparr>cursor_x := - 1, cursor_y := - 1\<rparr>)
                 in (append_string (ESC # ''[r'') (append_chars (nat lines_scrolled) 0x0A fr4))\<lparr>cursor_x := - 1, cursor_y := - 1\<rparr>))
           in bindE (scroll_rows (Row (nat (width (ds f))) 0 g) lines_scrolled bottom_margin rs) (\<lambda>rs'.
              Inr (scroll_height, rs', fr2)))))"

definition frame_rows :: "display \<Rightarrow> (int \<Rightarrow> bool) \<Rightarrow> bool \<Rightarrow> framebuffer \<Rightarrow> row list \<Rightarrow> int \<Rightarrow> frame_state \<Rightarrow> frame_state result" where
  "frame_rows dpy same initialized f rs start fr =
     bindE (foldE (\<lambda>y (wrapped, fr).
       bindE (checked_at rs y) (\<lambda>old_row. put_row dpy (same y) initialized f y old_row wrapped fr))
       [start..height (ds f) - 1] (False, fr)) (\<lambda>(wrapped, fr'). Inr fr')"

definition frame_cursor :: "bool \<Rightarrow> framebuffer \<Rightarrow> frame_state \<Rightarrow> frame_state" where
  "frame_cursor initialized f fr =
     (let fr1 = (if \<not> initialized \<or> cursor_row (ds f) \<noteq> cursor_y fr \<or> cursor_col (ds f) \<noteq> cursor_x fr
                 then append_move (cursor_row (ds f)) (cursor_col (ds f)) fr else fr);
          fr2 = (if \<not> initialized \<or> cursor_visible (ds f) \<noteq> frame_cursor_visible fr1
                 then append_string (ESC # (if cursor_visible (ds f) then ''[?25h'' else ''[?25l'')) fr1 else fr1)
      in update_hyperlink (ds_hyperlink (ds f)) (\<not> initialized) (update_rendition (ds_renditions (ds f)) (\<not> initialized) fr2))"

definition private_mode :: "int \<Rightarrow> bool \<Rightarrow> string" where
  "private_mode n enable = ESC # ''[?'' @ show_int n @ (if enable then ''h'' else ''l'')"

definition frame_modes :: "bool \<Rightarrow> framebuffer \<Rightarrow> framebuffer \<Rightarrow> frame_state \<Rightarrow> frame_state" where
  "frame_modes initialized last_frame f fr =
     (let l = ds last_frame; d = ds f;
          fr1 = (if \<not> initialized \<or> bracketed_paste d \<noteq> bracketed_paste l
                 then append_string (private_mode 2004 (bracketed_paste d)) fr else fr);
          fr2 = (if \<not> initialized \<or> mouse_reporting_mode d \<noteq> mouse_reporting_mode l
                 then (if mouse_reporting_mode d = MOUSE_REPORTING_NONE
                       then append_string (private_mode 1003 False @ private_mode 1002 False @ private_mode 1001 False
                              @ private_mode 1000 False) fr1
                       else append_string (private_mode (mouse_reporting_mode d) True)
                              (if mouse_reporting_mode l \<noteq> MOUSE_REPORTING_NONE
                               then append_string (private_mode (mouse_reporting_mode l) False) fr1 else fr1))
                 else fr1);
          fr3 = (if \<not> initialized \<or> mouse_focus_event d \<noteq> mouse_focus_event l
                 then append_string (private_mode 1004 (mouse_focus_event d)) fr2 else fr2)
      in if \<not> initialized \<or> mouse_encoding_mode d \<noteq> mouse_encoding_mode l
         then (if mouse_encoding_mode d = MOUSE_ENCODING_DEFAULT
               then append_string (private_mode 1015 False @ private_mode 1006 False @ private_mode 1005 False) fr3
               else append_string (private_mode (mouse_encoding_mode d) True)
                      (if mouse_encoding_mode l \<noteq> MOUSE_ENCODING_DEFAULT
                       then append_string (private_mode (mouse_encoding_mode l) False) fr3 else fr3))
         else fr3)"

definition new_frame ::
    "c_locale \<Rightarrow> display \<Rightarrow> (int \<Rightarrow> bool) \<Rightarrow> u64 \<Rightarrow> bool \<Rightarrow> framebuffer \<Rightarrow> framebuffer \<Rightarrow> bytes result" where
  "new_frame lib dpy same g initialized last_frame f =
     (let fr0 = (if bell_count f \<noteq> bell_count last_frame then append_chars 1 0x07 (FrameState last_frame) else FrameState last_frame)
      in bindE (frame_titles lib dpy initialized last_frame f fr0) (\<lambda>fr1.
         bindE (frame_clipboard lib last_frame f fr1) (\<lambda>fr2.
         case frame_size initialized last_frame f (frame_video initialized last_frame f fr2) of (init, fr3) \<Rightarrow>
         bindE (if init then frame_scroll g f (extend_rows g last_frame f) fr3 else Inr (0, extend_rows g last_frame f, fr3)) (\<lambda>(y, rs, fr4).
         bindE (frame_rows dpy same init f rs y fr4) (\<lambda>fr5.
         Inr (str (frame_modes init last_frame f (frame_cursor init f fr5))))))))"

section \<open>Frames that do not change\<close>

lemma checked_at_nth [simp]: "0 \<le> i \<Longrightarrow> i < int (length xs) \<Longrightarrow> checked_at xs i = Inr (xs ! nat i)"
  by (simp add: checked_at_def)

lemma put_cells_unchanged:
  assumes "clear_count s = 0" "0 \<le> frame_x s" "length cs = nat row_width"
  shows "\<exists>x. put_cells dpy True cs cs y row_width wrap_this s = Inr (s\<lparr>frame_x := x\<rparr>)"
  using assms
proof (induction "nat (row_width - frame_x s)" arbitrary: s rule: less_induct)
  case less
  show ?case
  proof (cases "frame_x s < row_width")
    case True
    let ?s = "s\<lparr>frame_x := frame_x s + cell_width (cs ! nat (frame_x s))\<rparr>"
    have p: "put_cell dpy True cs cs y row_width wrap_this s = Inr ?s"
      using less(2-4) True by (simp add: put_cell_def)
    have "frame_x s < frame_x ?s" using cell_width_pos [of "cs ! nat (frame_x s)"] by simp
    then obtain x where "put_cells dpy True cs cs y row_width wrap_this ?s = Inr (?s\<lparr>frame_x := x\<rparr>)"
      using less(1) [of ?s] less(2-4) True by auto
    then show ?thesis using True p by (subst put_cells.simps) auto
  next
    case False
    then show ?thesis by (subst put_cells.simps) (auto intro!: exI [of _ "frame_x s"])
  qed
qed

lemma put_row_unchanged:
  assumes "0 \<le> y" "y < int (length (rows f))" "length (cells (rows f ! nat y)) = nat (width (ds f))" "0 < width (ds f)"
  shows "put_row dpy same True f y (rows f ! nat y) False fr = Inr (False, fr)"
proof -
  let ?cs = "cells (rows f ! nat y)"
  let ?s = "\<lparr>frame = fr, frame_x = 0, clear_count = 0, wrote_last_cell = False, blank_renditions = initial_rendition, blank_hyperlink = None\<rparr>"
  obtain x where "put_cells dpy True ?cs ?cs y (width (ds f)) (wrap (last ?cs)) ?s = Inr (?s\<lparr>frame_x := x\<rparr>)"
    using put_cells_unchanged [of ?s ?cs "width (ds f)" dpy y "wrap (last ?cs)"] assms(3) by auto
  moreover have "?cs \<noteq> []" using assms(3,4) by auto
  ultimately show ?thesis using assms(1,2) by (simp add: put_row_def flush_to_end_def)
qed

lemma foldE_const: "(\<And>x. x \<in> set xs \<Longrightarrow> f x s = Inr s) \<Longrightarrow> foldE f xs s = Inr s"
  by (induction xs) auto

lemma fb_ok_row_length: "fb_ok f \<Longrightarrow> r \<in> set (rows f) \<Longrightarrow> length (cells r) = nat (width (ds f))"
  by (auto simp: fb_ok_def row_ok_def list_all_iff)

lemma frame_rows_unchanged:
  assumes "fb_ok f"
  shows "frame_rows dpy same True f (rows f) 0 fr = Inr fr"
proof -
  have "bindE (checked_at (rows f) y) (\<lambda>old_row. put_row dpy (same y) True f y old_row False fr) = Inr (False, fr)"
    if "0 \<le> y" "y < height (ds f)" for y
  proof -
    have "y < int (length (rows f))" using that fb_okD(2) [OF assms] by simp
    then show ?thesis
      using that put_row_unchanged [of y f] fb_ok_row_length [OF assms, of "rows f ! nat y"] ds_shapeD(1) [of "ds f"] assms
      by (simp add: fb_ok_shape)
  qed
  then have "foldE (\<lambda>y (wrapped, fr). bindE (checked_at (rows f) y) (\<lambda>old_row. put_row dpy (same y) True f y old_row wrapped fr))
      [0..height (ds f) - 1] (False, fr) = Inr (False, fr)"
    by (intro foldE_const) simp
  then show ?thesis by (simp add: frame_rows_def)
qed

lemma find_scroll_unchanged:
  assumes "fb_ok f"
  shows "find_scroll f (rows f) = Inr (0, 0)"
proof -
  have "0 < height (ds f)" "0 < int (length (rows f))" using assms ds_shapeD(2) [of "ds f"] fb_okD(2) [OF assms] by (simp_all add: fb_ok_shape)
  then show ?thesis by (simp add: find_scroll_def upto.simps [of 0])
qed

lemma frame_scroll_unchanged: "fb_ok f \<Longrightarrow> frame_scroll g f (rows f) fr = Inr (0, rows f, fr)"
  by (simp add: frame_scroll_def find_scroll_unchanged)

lemma extend_rows_same_size:
  assumes "fb_ok last_frame" "\<not> size_changed last_frame f"
  shows "extend_rows g last_frame f = rows last_frame"
  using assms fb_okD(2) [OF assms(1)] by (simp add: extend_rows_def size_changed_def)

text \<open>The fields of the draw state that a frame carries.\<close>

definition drawn_alike :: "draw_state \<Rightarrow> draw_state \<Rightarrow> bool" where
  "drawn_alike d x \<longleftrightarrow>
     width d = width x \<and> height d = height x \<and> cursor_col d = cursor_col x \<and> cursor_row d = cursor_row x
     \<and> cursor_visible d = cursor_visible x \<and> reverse_video d = reverse_video x \<and> ds_renditions d = ds_renditions x
     \<and> ds_hyperlink d = ds_hyperlink x \<and> bracketed_paste d = bracketed_paste x
     \<and> mouse_reporting_mode d = mouse_reporting_mode x \<and> mouse_focus_event d = mouse_focus_event x
     \<and> mouse_encoding_mode d = mouse_encoding_mode x"

text \<open>C35. Nothing is sent for a screen that has not changed: if two framebuffers have the same rows, titles, clipboard and bell count and
  their draw states agree on size, cursor, renditions, hyperlink and the modes a frame carries, then the update from one to the
  other is empty, whatever the terminal's capabilities and whether or not the rows are shared objects.  All other fields may
  differ; among them is the alternate-scroll mode of the mouse, which \<^verbatim>\<open>DrawState::operator==\<close> compares but no frame transmits.\<close>

theorem unchanged_screen_sends_nothing:
  assumes "fb_ok f" "fb_ok last_frame" "rows f = rows last_frame" "drawn_alike (ds f) (ds last_frame)"
    "icon_name f = icon_name last_frame" "window_title f = window_title last_frame" "clipboard f = clipboard last_frame"
    "bell_count f = bell_count last_frame"
  shows "new_frame lib dpy same g True last_frame f = Inr []"
proof -
  have "\<not> size_changed last_frame f" using assms(4) by (simp add: size_changed_def drawn_alike_def)
  moreover from this have "extend_rows g last_frame f = rows f" using extend_rows_same_size [OF assms(2)] assms(3) by simp
  ultimately show ?thesis
    using assms frame_scroll_unchanged [OF assms(1)] frame_rows_unchanged [OF assms(1)]
    by (simp add: new_frame_def frame_titles_def frame_clipboard_def frame_video_def frame_size_def FrameState_def
        frame_cursor_def frame_modes_def update_rendition_def update_hyperlink_def drawn_alike_def Let_def)
qed

theorem unchanged_screen_sends_nothing_witness:
  "fb_ok (fb (terminal example_terminal)) \<and>
   new_frame example_locale Display_default (\<lambda>_. False) 7 True (fb (terminal example_terminal))
     (update_ds (\<lambda>d. d\<lparr>mouse_alternate_scroll := True\<rparr>) (fb (terminal example_terminal))) = Inr []"
proof -
  let ?f = "fb (terminal example_terminal)"
  have f: "fb_ok ?f" using example_terminal_ok(2) by (simp add: emu_ok_def)
  moreover have g: "fb_ok (update_ds (\<lambda>d. d\<lparr>mouse_alternate_scroll := True\<rparr>) ?f)"
    using f by (simp add: fb_ok_def update_ds_def ds_ok_def ds_shape_def)
  ultimately show ?thesis
    using unchanged_screen_sends_nothing [OF g f, of example_locale Display_default "\<lambda>_. False" 7] by (simp add: update_ds_def drawn_alike_def)
qed

end
