(* ===== verification/Host_State.thy ===== *)
theory Host_State
  imports Display
begin

text \<open>
  The state a server synchronises to its client (\<^verbatim>\<open>Terminal::Complete\<close> of src/mosh/src/statesync/completeterminal.h and
  completeterminal.cc): the complete terminal with the acknowledgement of echoes, the messages that carry its changes
  (src/mosh/src/protobufs/hostinput.proto), and their application by the client.

  The generated protobuf code is a parameter: \<open>ser\<close> and \<open>parse\<close> are SerializeAsString and ParseFromString of a
  \<^verbatim>\<open>HostMessage\<close>.  Comparing two framebuffers compares the addresses of their rows; its answer is the argument \<open>same_rows\<close>,
  and \<open>same\<close> answers for a single row as in \<open>new_frame\<close>.
\<close>

section \<open>State\<close>

record host_terminal =
  complete :: complete_terminal
  input_history :: "(u64 \<times> u64) list"
  echo_ack :: u64

definition ECHO_TIMEOUT :: u64 where
  "ECHO_TIMEOUT = 50"

definition host_Complete :: "u64 \<Rightarrow> u64 \<Rightarrow> u64 \<Rightarrow> host_terminal result" where
  "host_Complete g w h = bindE (Complete g w h) (\<lambda>t. Inr \<lparr>complete = t, input_history = [], echo_ack = 0\<rparr>)"

abbreviation host_fb :: "host_terminal \<Rightarrow> framebuffer" where
  "host_fb h \<equiv> fb (terminal (complete h))"

definition host_reset_input :: "host_terminal \<Rightarrow> host_terminal" where
  "host_reset_input h = h\<lparr>complete := (complete h)\<lparr>parser := reset_input (parser (complete h))\<rparr>\<rparr>"

section \<open>Acknowledging echoes\<close>

text \<open>The first loop of \<^verbatim>\<open>set_echo_ack\<close>: the last entry of the history that is at least \<^verbatim>\<open>ECHO_TIMEOUT\<close> old.\<close>

fun newest_echo_ack :: "u64 \<Rightarrow> (u64 \<times> u64) list \<Rightarrow> u64 \<Rightarrow> u64" where
  "newest_echo_ack now [] newest = newest"
| "newest_echo_ack now ((n, t) # hist) newest =
     newest_echo_ack now hist (if t \<le> now - ECHO_TIMEOUT then n else newest)"

definition set_echo_ack :: "u64 \<Rightarrow> host_terminal \<Rightarrow> bool \<times> host_terminal" where
  "set_echo_ack now h =
     (let newest = newest_echo_ack now (input_history h) 0
      in (echo_ack h \<noteq> newest,
          h\<lparr>input_history := filter (\<lambda>(n, t). \<not> n < newest) (input_history h), echo_ack := newest\<rparr>))"

definition register_input_frame :: "u64 \<Rightarrow> u64 \<Rightarrow> host_terminal \<Rightarrow> host_terminal" where
  "register_input_frame n now h = h\<lparr>input_history := input_history h @ [(n, now)]\<rparr>"

definition INT_MAX :: int where
  "INT_MAX = 2 ^ 31 - 1"

definition echo_wait_time :: "u64 \<Rightarrow> host_terminal \<Rightarrow> int" where
  "echo_wait_time now h =
     (case input_history h of
        _ # (n, t) # _ \<Rightarrow>
          (let next_echo_ack_time = t + ECHO_TIMEOUT
           in if next_echo_ack_time \<le> now then 0 else sint (ucast (next_echo_ack_time - now) :: u32))
      | _ \<Rightarrow> INT_MAX)"

section \<open>Differences\<close>

text \<open>An instruction with the values of its extensions, None for one it does not have.\<close>

record host_instruction =
  hostbytes :: "bytes option"
  host_resize :: "(u32 \<times> u32) option"
  echoack :: "u64 option"

definition ds_equal :: "draw_state \<Rightarrow> draw_state \<Rightarrow> bool" where
  "ds_equal d x \<longleftrightarrow>
     width d = width x \<and> height d = height x \<and> cursor_col d = cursor_col x \<and> cursor_row d = cursor_row x
     \<and> cursor_visible d = cursor_visible x \<and> reverse_video d = reverse_video x \<and> ds_renditions d = ds_renditions x
     \<and> bracketed_paste d = bracketed_paste x \<and> mouse_reporting_mode d = mouse_reporting_mode x
     \<and> mouse_focus_event d = mouse_focus_event x \<and> mouse_alternate_scroll d = mouse_alternate_scroll x
     \<and> mouse_encoding_mode d = mouse_encoding_mode x \<and> ds_hyperlink d = ds_hyperlink x"

definition fb_equal :: "bool \<Rightarrow> framebuffer \<Rightarrow> framebuffer \<Rightarrow> bool" where
  "fb_equal same_rows f x \<longleftrightarrow>
     same_rows \<and> window_title f = window_title x \<and> clipboard f = clipboard x \<and> bell_count f = bell_count x
     \<and> ds_equal (ds f) (ds x)"

definition host_equal :: "bool \<Rightarrow> host_terminal \<Rightarrow> host_terminal \<Rightarrow> bool" where
  "host_equal same_rows h x \<longleftrightarrow> fb_equal same_rows (host_fb h) (host_fb x) \<and> echo_ack h = echo_ack x"

definition echo_instructions :: "host_terminal \<Rightarrow> host_terminal \<Rightarrow> host_instruction list result" where
  "echo_instructions existing h =
     (if echo_ack existing \<noteq> echo_ack h
      then bindE (assertE (echo_ack h \<ge> echo_ack existing) AssertFailed) (\<lambda>_.
           Inr [\<lparr>hostbytes = None, host_resize = None, echoack = Some (echo_ack h)\<rparr>])
      else Inr [])"

definition screen_instructions :: "c_locale \<Rightarrow> bool \<Rightarrow> (int \<Rightarrow> bool) \<Rightarrow> u64 \<Rightarrow> host_terminal \<Rightarrow> host_terminal
    \<Rightarrow> host_instruction list result" where
  "screen_instructions lib same_rows same g existing h =
     (if \<not> fb_equal same_rows (host_fb existing) (host_fb h)
      then bindE (new_frame lib Display_default same g True (host_fb existing) (host_fb h)) (\<lambda>update.
           Inr ((if size_changed (host_fb existing) (host_fb h)
                 then [\<lparr>hostbytes = None, host_resize = Some (of_int (width (ds (host_fb h))), of_int (height (ds (host_fb h)))),
                        echoack = None\<rparr>] else [])
             @ (if update \<noteq> [] then [\<lparr>hostbytes = Some update, host_resize = None, echoack = None\<rparr>] else [])))
      else Inr [])"

definition host_diff_from :: "c_locale \<Rightarrow> (host_instruction list \<Rightarrow> bytes) \<Rightarrow> bool \<Rightarrow> (int \<Rightarrow> bool) \<Rightarrow> u64 \<Rightarrow> host_terminal
    \<Rightarrow> host_terminal \<Rightarrow> bytes result" where
  "host_diff_from lib ser same_rows same g existing h =
     bindE (echo_instructions existing h) (\<lambda>echo.
     bindE (screen_instructions lib same_rows same g existing h) (\<lambda>screen.
     Inr (ser (echo @ screen))))"

definition host_init_diff :: "c_locale \<Rightarrow> (host_instruction list \<Rightarrow> bytes) \<Rightarrow> u64 \<Rightarrow> host_terminal \<Rightarrow> bytes result" where
  "host_init_diff lib ser g h =
     bindE (host_Complete g (of_int (width (ds (host_fb h)))) (of_int (height (ds (host_fb h))))) (\<lambda>blank.
     host_diff_from lib ser False (\<lambda>_. False) (gen_counter (host_fb blank)) blank h)"

definition apply_host_instruction :: "c_locale \<Rightarrow> host_instruction \<Rightarrow> host_terminal \<Rightarrow> host_terminal result" where
  "apply_host_instruction lib i h =
     (case hostbytes i of
        Some hoststring \<Rightarrow>
          bindE (act lib hoststring (complete h)) (\<lambda>(terminal_to_host, t).
          bindE (assertE (terminal_to_host = []) AssertFailed) (\<lambda>_. Inr (h\<lparr>complete := t\<rparr>)))
      | None \<Rightarrow>
          (case host_resize i of
             Some (w, ht) \<Rightarrow> bindE (act_external (Resize_act (scast w) (scast ht)) (complete h)) (\<lambda>(_, t). Inr (h\<lparr>complete := t\<rparr>))
           | None \<Rightarrow>
               (case echoack i of
                  Some inst_echo_ack_num \<Rightarrow>
                    bindE (assertE (inst_echo_ack_num \<ge> echo_ack h) AssertFailed) (\<lambda>_. Inr (h\<lparr>echo_ack := inst_echo_ack_num\<rparr>))
                | None \<Rightarrow> Inr h)))"

definition host_apply_string :: "c_locale \<Rightarrow> (bytes \<Rightarrow> host_instruction list option) \<Rightarrow> bytes \<Rightarrow> host_terminal
    \<Rightarrow> host_terminal result" where
  "host_apply_string lib parse diff h =
     (case parse diff of
        None \<Rightarrow> Inl FatalAssert
      | Some insts \<Rightarrow> foldE (apply_host_instruction lib) insts h)"

section \<open>Echo acknowledgements over time\<close>

datatype echo_event = Input_frame u64 u64 | Echo_tick u64

fun echo_step :: "echo_event \<Rightarrow> host_terminal \<Rightarrow> host_terminal" where
  "echo_step (Input_frame n now) h = register_input_frame n now h"
| "echo_step (Echo_tick now) h = snd (set_echo_ack now h)"

definition echo_run :: "echo_event list \<Rightarrow> host_terminal \<Rightarrow> host_terminal" where
  "echo_run evs h = fold echo_step evs h"

fun event_time :: "echo_event \<Rightarrow> u64" where
  "event_time (Input_frame n now) = now"
| "event_time (Echo_tick now) = now"

fun inputs_of :: "echo_event list \<Rightarrow> (u64 \<times> u64) list" where
  "inputs_of [] = []"
| "inputs_of (Input_frame n now # evs) = (n, now) # inputs_of evs"
| "inputs_of (Echo_tick now # evs) = inputs_of evs"

text \<open>The clock (milliseconds, past its first 50) does not go back, and inputs have increasing numbers from 1 on.\<close>

definition echo_events_ok :: "echo_event list \<Rightarrow> bool" where
  "echo_events_ok evs \<longleftrightarrow> sorted (map event_time evs) \<and> list_all (\<lambda>e. ECHO_TIMEOUT \<le> event_time e) evs
     \<and> sorted_wrt (<) (0 # map fst (inputs_of evs))"

text \<open>The numbers of the inputs that are old enough to be acknowledged.\<close>

definition echoed :: "u64 \<Rightarrow> (u64 \<times> u64) list \<Rightarrow> u64 set" where
  "echoed now log = {n. \<exists>t. (n, t) \<in> set log \<and> t \<le> now - ECHO_TIMEOUT}"

lemma finite_echoed [simp]: "finite (echoed now log)"
  by (rule finite_subset [of _ "fst ` set log"]) (force simp: echoed_def)+

lemma inputs_of_append: "inputs_of (xs @ ys) = inputs_of xs @ inputs_of ys"
  by (induction xs rule: inputs_of.induct) simp_all

lemma newest_append: "newest_echo_ack now (xs @ ys) n = newest_echo_ack now ys (newest_echo_ack now xs n)"
  by (induction now xs n rule: newest_echo_ack.induct) simp_all

lemma newest_in: "newest_echo_ack now hist n = n \<or> newest_echo_ack now hist n \<in> echoed now hist"
  by (induction now hist n rule: newest_echo_ack.induct) (auto simp: echoed_def)

lemma newest_is_Max:
  "sorted_wrt (<) (n # map fst hist) \<Longrightarrow> newest_echo_ack now hist n = Max (insert n (echoed now hist))"
proof (induction now hist n rule: newest_echo_ack.induct)
  case (1 now newest)
  then show ?case by (simp add: echoed_def)
next
  case (2 now m t hist newest)
  have e: "echoed now ((m, t) # hist) = (if t \<le> now - ECHO_TIMEOUT then insert m (echoed now hist) else echoed now hist)"
    by (auto simp: echoed_def)
  have "newest < m" using 2(2) by simp
  moreover have "m \<le> Max (insert m (echoed now hist))" by (intro Max_ge) simp_all
  ultimately have "newest \<le> Max (insert m (echoed now hist))" by (meson less_imp_le order_trans)
  then have max: "Max (insert newest (insert m (echoed now hist))) = Max (insert m (echoed now hist))"
    by (subst Max_insert) (simp_all add: max_absorb2)
  have "sorted_wrt (<) ((if t \<le> now - ECHO_TIMEOUT then m else newest) # map fst hist)" using 2(2) by auto
  from 2(1) [OF this] show ?case by (simp add: e max split: if_splits)
qed

text \<open>What remains of the log: the dropped inputs are older than the acknowledged one, which stays at the head.\<close>

definition echo_inv :: "u64 \<Rightarrow> (u64 \<times> u64) list \<Rightarrow> host_terminal \<Rightarrow> bool" where
  "echo_inv now log h \<longleftrightarrow> (\<exists>dropped. log = dropped @ input_history h
     \<and> (if echo_ack h = 0 then dropped = []
        else \<exists>t rest. input_history h = (echo_ack h, t) # rest \<and> t \<le> now - ECHO_TIMEOUT))"

lemma minus_mono: "c \<le> a \<Longrightarrow> a \<le> b \<Longrightarrow> a - c \<le> (b - c :: u64)"
  by (simp add: word_le_nat_alt unat_sub_if')

lemma echo_inv_newest:
  assumes "echo_inv now log h" "ECHO_TIMEOUT \<le> now" "now \<le> now'"
  shows "newest_echo_ack now' (input_history h) 0 = newest_echo_ack now' log 0"
proof -
  have "now - ECHO_TIMEOUT \<le> now' - ECHO_TIMEOUT" using assms(2,3) by (rule minus_mono)
  with assms(1) show ?thesis
    by (auto simp: echo_inv_def newest_append split: if_splits)
qed

lemma filter_from_element:
  fixes hist :: "(u64 \<times> u64) list"
  assumes "sorted_wrt (<) (map fst hist)" "(m, t) \<in> set hist"
  shows "\<exists>xs rest. hist = xs @ (m, t) # rest \<and> filter (\<lambda>(n, t). \<not> n < m) hist = (m, t) # rest"
proof -
  obtain xs rest where h: "hist = xs @ (m, t) # rest" using split_list [OF assms(2)] by blast
  have "\<forall>x \<in> set xs. fst x < m" "\<forall>x \<in> set rest. m < fst x"
    using assms(1) by (simp_all add: h sorted_wrt_append)
  then have "filter (\<lambda>(n, t). \<not> n < m) xs = []" "filter (\<lambda>(n, t). \<not> n < m) rest = rest"
    by (auto simp: filter_empty_conv filter_id_conv dest: less_asym)
  with h show ?thesis by auto
qed

lemma echo_tick_inv:
  assumes inv: "echo_inv now log h" and t: "ECHO_TIMEOUT \<le> now" "now \<le> now'"
    and log: "sorted_wrt (<) (0 # map fst log)"
  shows "echo_inv now' log (snd (set_echo_ack now' h)) \<and> echo_ack (snd (set_echo_ack now' h)) = newest_echo_ack now' log 0
    \<and> echo_ack h \<le> newest_echo_ack now' log 0"
proof -
  let ?m = "newest_echo_ack now' (input_history h) 0"
  have m: "?m = newest_echo_ack now' log 0" using echo_inv_newest [OF inv t] .
  obtain dropped where d: "log = dropped @ input_history h"
      "if echo_ack h = 0 then dropped = [] else \<exists>t rest. input_history h = (echo_ack h, t) # rest \<and> t \<le> now - ECHO_TIMEOUT"
    using inv by (auto simp: echo_inv_def)
  have hist: "sorted_wrt (<) (map fst (input_history h))" using log by (simp add: d(1) sorted_wrt_append)
  have mono: "echo_ack h \<le> ?m"
  proof (cases "echo_ack h = 0")
    case False
    then obtain t rest where r: "input_history h = (echo_ack h, t) # rest" "t \<le> now - ECHO_TIMEOUT" using d(2) by auto
    then have "echo_ack h \<in> echoed now' log" using minus_mono [OF assms(2,3)] by (auto simp: echoed_def d(1))
    then show ?thesis using newest_is_Max [OF log] m by simp
  qed simp
  have "echo_inv now' log (snd (set_echo_ack now' h))"
  proof (cases "?m = 0")
    case True
    then have "echo_ack h = 0" using mono by simp
    then show ?thesis using d True by (auto simp: echo_inv_def set_echo_ack_def Let_def)
  next
    case False
    then obtain t where mt: "(?m, t) \<in> set (input_history h)" "t \<le> now' - ECHO_TIMEOUT"
      using newest_in [of now' "input_history h" 0] by (auto simp: echoed_def)
    from filter_from_element [OF hist mt(1)] obtain xs rest where
      "input_history h = xs @ (?m, t) # rest" "filter (\<lambda>(n, t). \<not> n < ?m) (input_history h) = (?m, t) # rest" by blast
    then have "log = (dropped @ xs) @ filter (\<lambda>(n, t). \<not> n < ?m) (input_history h)"
        "filter (\<lambda>(n, t). \<not> n < ?m) (input_history h) = (?m, t) # rest"
      using d(1) by simp_all
    then show ?thesis
      using False mt(2) unfolding echo_inv_def set_echo_ack_def Let_def
      by (intro exI [of _ "dropped @ xs"]) simp
  qed
  then show ?thesis using m mono by (simp add: set_echo_ack_def Let_def)
qed

lemma echo_inv_later:
  assumes "echo_inv now log h" "ECHO_TIMEOUT \<le> now" "now \<le> now'"
  shows "echo_inv now' log h"
  using assms(1) order_trans [OF _ minus_mono [OF assms(2,3)]] unfolding echo_inv_def by metis

lemma echo_register_inv:
  assumes "echo_inv now log h"
  shows "echo_inv now (log @ [(n, t)]) (register_input_frame n t h)"
proof -
  obtain dropped where d: "log = dropped @ input_history h"
      "if echo_ack h = 0 then dropped = [] else \<exists>t rest. input_history h = (echo_ack h, t) # rest \<and> t \<le> now - ECHO_TIMEOUT"
    using assms unfolding echo_inv_def by blast
  show ?thesis
    unfolding echo_inv_def register_input_frame_def
    using d by (intro exI [of _ dropped]) (cases "echo_ack h = 0"; fastforce)
qed

lemma echo_run_inv:
  assumes "echo_events_ok evs" "list_all (\<lambda>e. event_time e \<le> now) evs" "ECHO_TIMEOUT \<le> now"
    "input_history h = []" "echo_ack h = 0"
  shows "echo_inv now (inputs_of evs) (echo_run evs h)"
  using assms(1-3)
proof (induction evs arbitrary: now rule: rev_induct)
  case Nil
  then show ?case using assms(4,5) by (simp add: echo_inv_def echo_run_def)
next
  case (snoc e evs)
  have ok: "echo_events_ok evs" "list_all (\<lambda>x. event_time x \<le> event_time e) evs" "ECHO_TIMEOUT \<le> event_time e"
      "event_time e \<le> now" "sorted_wrt (<) (0 # map fst (inputs_of evs))"
    using snoc.prems by (auto simp: echo_events_ok_def sorted_append inputs_of_append sorted_wrt_append list_all_iff)
  have IH: "echo_inv (event_time e) (inputs_of evs) (echo_run evs h)" using snoc.IH ok by blast
  show ?case
  proof (cases e)
    case (Input_frame n t)
    then show ?thesis
      using echo_inv_later [OF echo_register_inv [OF IH, of n t] ok(3,4)] by (simp add: inputs_of_append echo_run_def)
  next
    case (Echo_tick t)
    then have "echo_inv t (inputs_of evs) (snd (set_echo_ack t (echo_run evs h)))"
      using echo_tick_inv [OF IH ok(3) order_refl ok(5)] by simp
    then show ?thesis using echo_inv_later [OF _ ok(3,4)] Echo_tick by (simp add: inputs_of_append echo_run_def)
  qed
qed

lemma echo_events_ok_take: "echo_events_ok (evs @ evs') \<Longrightarrow> echo_events_ok evs"
  by (auto simp: echo_events_ok_def sorted_append inputs_of_append sorted_wrt_append)

lemma echo_ack_mono:
  assumes "echo_events_ok (evs @ evs')" "input_history h = []" "echo_ack h = 0"
  shows "echo_ack (echo_run evs h) \<le> echo_ack (echo_run (evs @ evs') h)"
  using assms(1)
proof (induction evs' rule: rev_induct)
  case (snoc e evs')
  let ?evs = "evs @ evs'"
  have ok: "echo_events_ok (?evs @ [e])" using snoc.prems by simp
  have le: "echo_ack (echo_run evs h) \<le> echo_ack (echo_run ?evs h)" using snoc.IH echo_events_ok_take [OF ok] by simp
  have run: "echo_run (evs @ evs' @ [e]) h = echo_step e (echo_run ?evs h)" by (simp add: echo_run_def)
  show ?case
  proof (cases e)
    case (Input_frame n t)
    then show ?thesis using le run by (simp add: register_input_frame_def)
  next
    case (Echo_tick t)
    have t: "list_all (\<lambda>e. event_time e \<le> t) ?evs" "ECHO_TIMEOUT \<le> t" "sorted_wrt (<) (0 # map fst (inputs_of ?evs))"
      using ok Echo_tick by (auto simp: echo_events_ok_def sorted_append inputs_of_append list_all_iff)
    from echo_tick_inv [OF echo_run_inv [OF echo_events_ok_take [OF ok] t(1,2) assms(2,3)] t(2) order_refl t(3)]
    show ?thesis using le run Echo_tick by auto
  qed
qed simp

lemma host_Complete_echo: "host_Complete g w ht = Inr h \<Longrightarrow> input_history h = [] \<and> echo_ack h = 0"
  by (auto simp: host_Complete_def bindE_def split: sum.splits)

text \<open>C36. Echo acknowledgements are right and never go back.  The server keeps only the part of its input log it still needs; yet
  over any course of arriving inputs (with increasing numbers) and clock ticks (the clock does not go back and is past its
  first 50 milliseconds), a tick acknowledges exactly the newest of all inputs that ever arrived at least 50 milliseconds before.  Every
  later state acknowledges at least as much as an earlier one, so the assertion in \<^verbatim>\<open>diff_from\<close> holds for every pair of an
  earlier and a later state.\<close>

theorem echo_acks_follow_inputs:
  assumes "host_Complete g w ht = Inr h" "echo_events_ok (evs @ evs' @ [Echo_tick now])"
  shows "echo_ack (echo_run (evs @ evs' @ [Echo_tick now]) h) = Max (insert 0 (echoed now (inputs_of (evs @ evs'))))
    \<and> echo_ack (echo_run evs h) \<le> echo_ack (echo_run (evs @ evs' @ [Echo_tick now]) h)
    \<and> (\<exists>insts. echo_instructions (echo_run evs h) (echo_run (evs @ evs' @ [Echo_tick now]) h) = Inr insts)"
proof -
  let ?evs = "evs @ evs'"
  have h: "input_history h = []" "echo_ack h = 0" using host_Complete_echo [OF assms(1)] by simp_all
  have ok: "echo_events_ok (?evs @ [Echo_tick now])" using assms(2) by simp
  have t: "list_all (\<lambda>e. event_time e \<le> now) ?evs" "ECHO_TIMEOUT \<le> now" "sorted_wrt (<) (0 # map fst (inputs_of ?evs))"
    using ok by (auto simp: echo_events_ok_def sorted_append inputs_of_append list_all_iff)
  have mono: "echo_ack (echo_run evs h) \<le> echo_ack (echo_run (evs @ evs' @ [Echo_tick now]) h)"
    using echo_ack_mono [OF _ h] assms(2) by simp
  from echo_tick_inv [OF echo_run_inv [OF echo_events_ok_take [OF ok] t(1,2) h] t(2) order_refl t(3)]
  have "echo_ack (echo_run (?evs @ [Echo_tick now]) h) = newest_echo_ack now (inputs_of ?evs) 0"
    by (simp add: echo_run_def)
  with mono newest_is_Max [OF t(3)] show ?thesis by (simp add: echo_instructions_def assertE_def)
qed

definition example_host :: host_terminal where
  "example_host = \<lparr>complete = example_terminal, input_history = [], echo_ack = 0\<rparr>"

lemma example_host_Complete: "host_Complete 0 4 2 = Inr example_host"
  using example_terminal_ok(1) by (simp add: host_Complete_def example_host_def)

theorem echo_acks_follow_inputs_witness:
  "echo_ack (echo_run ([Input_frame 1 1000, Input_frame 2 1020] @ [Echo_tick 1055, Input_frame 4 1060] @ [Echo_tick 1075]) example_host) = 2"
proof -
  have "echoed 1075 [(1, 1000), (2, 1020), (4, 1060)] = {1, 2}" by (auto simp: echoed_def ECHO_TIMEOUT_def)
  moreover have "echo_events_ok ([Input_frame 1 1000, Input_frame 2 1020] @ [Echo_tick 1055, Input_frame 4 1060] @ [Echo_tick 1075])"
    by (simp add: echo_events_ok_def ECHO_TIMEOUT_def)
  ultimately show ?thesis
    using echo_acks_follow_inputs [OF example_host_Complete, of "[Input_frame 1 1000, Input_frame 2 1020]"
      "[Echo_tick 1055, Input_frame 4 1060]" 1075] by simp
qed

lemma newest_none: "\<forall>x \<in> set hist. \<not> snd x \<le> now - ECHO_TIMEOUT \<Longrightarrow> newest_echo_ack now hist n = n"
  by (induction now hist n rule: newest_echo_ack.induct) auto

lemma inputs_sorted:
  assumes "sorted (map event_time evs)" "list_all (\<lambda>e. event_time e \<le> now) evs"
  shows "sorted (map snd (inputs_of evs)) \<and> (\<forall>x \<in> set (inputs_of evs). snd x \<le> now)
    \<and> (\<forall>x \<in> set (inputs_of evs). \<forall>t. (\<forall>e \<in> set evs. t \<le> event_time e) \<longrightarrow> t \<le> snd x)"
  using assms by (induction evs rule: inputs_of.induct) auto

text \<open>When something has been acknowledged, what is left of the log starts with it; then come the inputs still waiting.\<close>

lemma echo_run_pending:
  assumes "echo_events_ok evs" "list_all (\<lambda>e. event_time e \<le> now) evs" "ECHO_TIMEOUT \<le> now"
    "input_history h0 = []" "echo_ack h0 = 0" "h = echo_run evs h0" "echo_ack h \<noteq> 0"
  obtains t0 rest where "input_history h = (echo_ack h, t0) # rest" "t0 \<le> now - ECHO_TIMEOUT"
    "sorted (map snd rest)" "\<forall>x \<in> set rest. snd x \<le> now \<and> echo_ack h < fst x" "sorted_wrt (<) (map fst rest)"
proof -
  have "echo_inv now (inputs_of evs) h" using echo_run_inv [OF assms(1-5)] assms(6) by simp
  then obtain dropped t0 rest where r: "inputs_of evs = dropped @ input_history h" "input_history h = (echo_ack h, t0) # rest"
      "t0 \<le> now - ECHO_TIMEOUT"
    using assms(7) unfolding echo_inv_def by (metis (no_types, lifting))
  have "sorted (map snd (inputs_of evs))" "\<forall>x \<in> set (inputs_of evs). snd x \<le> now"
    using inputs_sorted [of evs now] assms(1,2) by (simp_all add: echo_events_ok_def)
  moreover have "sorted_wrt (<) (map fst (inputs_of evs))" using assms(1) by (simp add: echo_events_ok_def)
  ultimately have "sorted (map snd rest)" "\<forall>x \<in> set rest. snd x \<le> now \<and> echo_ack h < fst x" "sorted_wrt (<) (map fst rest)"
    by (auto simp: r(1,2) sorted_append sorted_wrt_append)
  with r that show thesis by blast
qed

lemma set_echo_ack_changes:
  assumes "input_history h = (echo_ack h, t0) # rest" "t0 \<le> now - ECHO_TIMEOUT" "ECHO_TIMEOUT \<le> now" "now \<le> t"
  shows "fst (set_echo_ack t h) \<longleftrightarrow> newest_echo_ack t rest (echo_ack h) \<noteq> echo_ack h"
proof -
  have "t0 \<le> t - ECHO_TIMEOUT" using order_trans [OF assms(2) minus_mono [OF assms(3,4)]] .
  then show ?thesis using assms(1) by (auto simp: set_echo_ack_def Let_def)
qed

lemma due_iff:
  assumes "unat (u :: u64) < 2 ^ 63" "ECHO_TIMEOUT \<le> t"
  shows "u \<le> t - ECHO_TIMEOUT \<longleftrightarrow> u + ECHO_TIMEOUT \<le> t"
proof -
  have "unat (u + ECHO_TIMEOUT) = unat u + 50" using assms(1) by (simp add: ECHO_TIMEOUT_def unat_word_ariths)
  moreover have "unat (t - ECHO_TIMEOUT) = unat t - 50" "50 \<le> unat t"
    using assms(2) by (simp_all add: ECHO_TIMEOUT_def word_le_nat_alt unat_sub_if')
  ultimately show ?thesis by (auto simp: word_le_nat_alt)
qed

lemma newest_some:
  assumes "\<forall>x \<in> set hist. n < fst x" "(m, t) \<in> set hist" "t \<le> now - ECHO_TIMEOUT" "sorted_wrt (<) (map fst hist)"
  shows "newest_echo_ack now hist n \<noteq> n"
proof -
  have "sorted_wrt (<) (n # map fst hist)" using assms(1,4) by auto
  moreover have "m \<in> echoed now hist" using assms(2,3) by (auto simp: echoed_def)
  moreover have "n < m" using assms(1,2) by auto
  moreover from \<open>m \<in> echoed now hist\<close> have "m \<le> Max (insert n (echoed now hist))" by (intro Max_ge) simp_all
  ultimately show ?thesis using newest_is_Max [of n hist now] by (metis leD)
qed

lemma sint_small_u32: "unat (d :: u64) \<le> 50 \<Longrightarrow> sint (ucast d :: u32) = int (unat d)"
proof -
  assume d: "unat d \<le> 50"
  have "uint d \<le> 50" using of_nat_mono [OF d, where ?'a = int] by simp
  moreover from this have "signed_take_bit 31 (uint d) = uint d"
    by (intro signed_take_bit_int_eq_self order_trans [OF _ uint_ge_0]) simp_all
  ultimately show ?thesis by (simp add: sint_uint unsigned_ucast_eq take_bit_int_eq_self)
qed

text \<open>C37. The server sleeps exactly as long as it may.  Once an input has been acknowledged, \<^verbatim>\<open>wait_time\<close> tells when the next
  acknowledgement is due: with nothing waiting it is unlimited, and no later tick changes anything; otherwise it is at most 50
  milliseconds, a tick before that time changes nothing, and a tick at that time acknowledges more.\<close>

theorem echo_wait_time_exact:
  assumes "host_Complete g w ht = Inr h0" "echo_events_ok evs" "list_all (\<lambda>e. event_time e \<le> now) evs"
    "ECHO_TIMEOUT \<le> now" "unat now < 2 ^ 63" "h = echo_run evs h0" "echo_ack h \<noteq> 0"
  shows "if length (input_history h) < 2
    then echo_wait_time now h = INT_MAX \<and> (\<forall>t \<ge> now. \<not> fst (set_echo_ack t h))
    else 0 \<le> echo_wait_time now h \<and> echo_wait_time now h \<le> 50
      \<and> (\<forall>t. now \<le> t \<and> t < now + of_int (echo_wait_time now h) \<longrightarrow> \<not> fst (set_echo_ack t h))
      \<and> fst (set_echo_ack (now + of_int (echo_wait_time now h)) h)"
proof -
  obtain t0 rest where r: "input_history h = (echo_ack h, t0) # rest" "t0 \<le> now - ECHO_TIMEOUT"
      "sorted (map snd rest)" "\<forall>x \<in> set rest. snd x \<le> now \<and> echo_ack h < fst x" "sorted_wrt (<) (map fst rest)"
    by (rule echo_run_pending [OF assms(2-4) _ _ assms(6,7)]) (use host_Complete_echo [OF assms(1)] in auto)
  note changes = set_echo_ack_changes [OF r(1,2) assms(4)]
  show ?thesis
  proof (cases rest)
    case Nil
    then show ?thesis using r(1) changes by (simp add: echo_wait_time_def)
  next
    case (Cons x rest')
    obtain n1 t1 where x: "x = (n1, t1)" by (cases x)
    define d where "d = (if t1 + ECHO_TIMEOUT \<le> now then 0 else t1 + ECHO_TIMEOUT - now)"
    have t1: "t1 \<le> now" "unat t1 < 2 ^ 63" using r(4) Cons x assms(5) by (auto simp: word_le_nat_alt)
    have "unat (t1 + ECHO_TIMEOUT) = unat t1 + 50" using t1(2) by (simp add: ECHO_TIMEOUT_def unat_word_ariths)
    then have d: "unat d \<le> 50" "now \<le> now + d" "t1 + ECHO_TIMEOUT \<le> now + d" "d \<noteq> 0 \<longrightarrow> now + d = t1 + ECHO_TIMEOUT"
      using t1(1) by (auto simp: d_def word_le_nat_alt unat_sub_if')
    have w: "echo_wait_time now h = int (unat d)"
    proof (cases "t1 + ECHO_TIMEOUT \<le> now")
      case False
      then have "d = t1 + ECHO_TIMEOUT - now" by (simp add: d_def)
      then show ?thesis using False r(1) Cons x sint_small_u32 [OF d(1)] by (simp add: echo_wait_time_def)
    qed (use r(1) Cons x in \<open>simp add: echo_wait_time_def d_def\<close>)
    have early: "\<not> fst (set_echo_ack t h)" if "now \<le> t" "t < now + d" for t
    proof -
      have "d \<noteq> 0" using that by auto
      then have "\<not> t1 + ECHO_TIMEOUT \<le> t" using that(2) d(4) by auto
      then have "\<not> t1 \<le> t - ECHO_TIMEOUT" using due_iff [OF t1(2), of t] assms(4) that(1) by auto
      moreover have "\<forall>y \<in> set rest. t1 \<le> snd y" using r(3) Cons x by auto
      ultimately have "\<forall>y \<in> set rest. \<not> snd y \<le> t - ECHO_TIMEOUT" by (meson order_trans)
      then show ?thesis using changes [OF that(1)] newest_none by blast
    qed
    have "t1 \<le> now + d - ECHO_TIMEOUT" using due_iff [OF t1(2), of "now + d"] assms(4) d(2,3) by auto
    then have "fst (set_echo_ack (now + d) h)"
      using changes [OF d(2)] newest_some [of rest "echo_ack h" n1 t1 "now + d"] r(4,5) Cons x by auto
    moreover have "uint d \<le> 50" using of_nat_mono [OF d(1), where ?'a = int] by simp
    ultimately show ?thesis using early w r(1) Cons by simp
  qed
qed

theorem echo_wait_time_exact_witness:
  "echo_wait_time 1060 (echo_run [Input_frame 1 1000, Input_frame 2 1020, Echo_tick 1055] example_host) = 10
    \<and> fst (set_echo_ack 1070 (echo_run [Input_frame 1 1000, Input_frame 2 1020, Echo_tick 1055] example_host))"
proof -
  let ?evs = "[Input_frame 1 1000, Input_frame 2 1020, Echo_tick 1055]"
  have run: "echo_run ?evs example_host = example_host\<lparr>input_history := [(1, 1000), (2, 1020)], echo_ack := 1\<rparr>"
    by (simp add: echo_run_def register_input_frame_def set_echo_ack_def Let_def ECHO_TIMEOUT_def example_host_def)
  have "echo_wait_time 1060 (echo_run ?evs example_host) = 10"
    by (simp add: run echo_wait_time_def ECHO_TIMEOUT_def)
  moreover have "echo_events_ok ?evs" "list_all (\<lambda>e. event_time e \<le> 1060) ?evs" "ECHO_TIMEOUT \<le> 1060"
    by (simp_all add: echo_events_ok_def ECHO_TIMEOUT_def)
  ultimately show ?thesis
    using echo_wait_time_exact [OF example_host_Complete, of ?evs 1060 "echo_run ?evs example_host"] by (simp add: run)
qed



end
