(* ===== verification/Spec2Isabelle.thy ===== *)
theory Spec2Isabelle
  imports Base64 Crypto_Session Fragments Connection_Timing Delivery Host_State
begin

text \<open>
  Verification of tinyhack-ssh.
\<close>

end
